(* ===== verification/Fold_Prelude.thy ===== *)
theory Fold_Prelude
  imports Complex_Main "HOL-Library.Sublist" "HOL-Library.List_Lexorder" "HOL-Library.Char_ord"
    "HOL-Library.Finite_Map"
begin

section \<open>Shared vocabulary of the model\<close>

text \<open>
  The Go values every component uses, and the generic lemmas about them.

  \<^item> A \<open>time.Time\<close> is the number of nanoseconds since the zero time, an \<open>int\<close>; \<open>IsZero\<close> is
    equality with 0. A \<open>time.Duration\<close> is a signed 64-bit count of nanoseconds, also an \<open>int\<close>:
    \<open>Time.Sub\<close> saturates at the ends of that range and \<open>Time.Add\<close> does not wrap.
  \<^item> A signed 64-bit sum that can leave its range is wrapped explicitly (\<open>wrap64\<close>).
  \<^item> A Go string is a sequence of bytes, here a \<open>string\<close>; the functions of package \<open>strings\<close> that
    the source calls are defined below.
  \<^item> A JSON value as \<open>encoding/json\<close> decodes it into \<open>any\<close> is a \<open>json\<close>.
\<close>

named_theorems fold_defs \<open>plain definitions of the model, to be unfolded\<close>
named_theorems inv_intros \<open>every operation keeps its component's invariant\<close>

subsection \<open>Time and machine integers\<close>

type_synonym time = int
type_synonym duration = int

definition max_int64 :: int where
  "max_int64 = 2 ^ 63 - 1"

definition min_int64 :: int where
  "min_int64 = - (2 ^ 63)"

definition wrap64 :: "int \<Rightarrow> int" where
  "wrap64 x = (x + 2 ^ 63) mod 2 ^ 64 - 2 ^ 63"

definition time_sub :: "time \<Rightarrow> time \<Rightarrow> duration" where
  "time_sub a b = max min_int64 (min max_int64 (a - b))"

abbreviation second :: duration where
  "second \<equiv> 1000000000"

abbreviation minute :: duration where
  "minute \<equiv> 60 * second"

abbreviation hour :: duration where
  "hour \<equiv> 3600 * second"

lemma wrap64_id [simp]: "min_int64 \<le> x \<Longrightarrow> x \<le> max_int64 \<Longrightarrow> wrap64 x = x"
  by (simp add: wrap64_def min_int64_def max_int64_def)

lemma time_sub_ge_iff:
  "min_int64 < d \<Longrightarrow> d \<le> max_int64 \<Longrightarrow> d \<le> time_sub a b \<longleftrightarrow> b + d \<le> a"
  by (auto simp: time_sub_def min_def max_def)

lemma time_sub_exact:
  "min_int64 \<le> a - b \<Longrightarrow> a - b \<le> max_int64 \<Longrightarrow> time_sub a b = a - b"
  by (simp add: time_sub_def)

lemma int64_bounds [simp]: "min_int64 < 0" "0 < max_int64" "min_int64 < max_int64"
  by (simp_all add: min_int64_def max_int64_def)

subsection \<open>Strings\<close>

text \<open>\<open>strings.Index\<close>: the position of the first occurrence, if there is one.\<close>

fun str_index :: "string \<Rightarrow> string \<Rightarrow> nat option" where
  "str_index [] sub = (if sub = [] then Some 0 else None)"
| "str_index (c # s) sub =
     (if prefix sub (c # s) then Some 0 else map_option Suc (str_index s sub))"

text \<open>\<open>strings.Cut\<close>: the text around the first separator, and whether it was found.\<close>

definition str_cut :: "string \<Rightarrow> string \<Rightarrow> (string \<times> string) option" where
  "str_cut s sep =
     (case str_index s sep of
        None \<Rightarrow> None
      | Some i \<Rightarrow> Some (take i s, drop (i + length sep) s))"

text \<open>\<open>strings.Split\<close> with a one-byte separator, and \<open>strings.Join\<close>.\<close>

fun str_split :: "char \<Rightarrow> string \<Rightarrow> string list" where
  "str_split c [] = [[]]"
| "str_split c (x # xs) =
     (if x = c then [] # str_split c xs
      else (case str_split c xs of [] \<Rightarrow> [[x]] | p # ps \<Rightarrow> (x # p) # ps))"

fun str_join :: "string \<Rightarrow> string list \<Rightarrow> string" where
  "str_join sep [] = []"
| "str_join sep [p] = p"
| "str_join sep (p # ps) = p @ sep @ str_join sep ps"

lemma str_index_bound: "str_index s sub = Some i \<Longrightarrow> i + length sub \<le> length s"
  by (induction s arbitrary: i) (auto split: if_splits dest: prefix_length_le)

lemma str_index_Some_split:
  "str_index s sub = Some i \<Longrightarrow> s = take i s @ sub @ drop (i + length sub) s"
proof (induction s arbitrary: i)
  case Nil
  then show ?case by (simp split: if_splits)
next
  case (Cons c s)
  show ?case
  proof (cases "prefix sub (c # s)")
    case True
    with Cons.prems have "i = 0" by simp
    with True show ?thesis by (auto simp: prefix_def)
  next
    case False
    with Cons.prems obtain j where j: "str_index s sub = Some j" "i = Suc j" by auto
    with Cons.IH [OF j(1)] show ?thesis by simp
  qed
qed

lemma str_index_append_ne:
  "str_index (a @ sub @ b) sub \<noteq> None"
proof (induction a)
  case Nil
  have "prefix sub (sub @ b)" by simp
  then show ?case by (cases "sub @ b") (auto simp: prefix_def)
qed simp

lemma str_index_None_iff: "str_index s sub = None \<longleftrightarrow> \<not> sublist sub s"
proof
  show "str_index s sub = None \<Longrightarrow> \<not> sublist sub s"
    by (metis sublist_def str_index_append_ne)
  show "\<not> sublist sub s \<Longrightarrow> str_index s sub = None"
    by (metis not_None_eq str_index_Some_split sublist_def)
qed

text \<open>The first occurrence is the leftmost one.\<close>

lemma str_index_leftmost:
  "str_index s sub = Some i \<Longrightarrow> s = a @ sub @ b \<Longrightarrow> i \<le> length a"
proof (induction s arbitrary: i a)
  case Nil
  then show ?case by (simp split: if_splits)
next
  case (Cons c s)
  show ?case
  proof (cases "prefix sub (c # s)")
    case True
    with Cons.prems(1) show ?thesis by simp
  next
    case False
    with Cons.prems(1) obtain j where j: "str_index s sub = Some j" "i = Suc j" by auto
    from False Cons.prems(2) obtain a' where "a = c # a'" "s = a' @ sub @ b"
      by (cases a) (auto simp: prefix_def)
    with Cons.IH [OF j(1)] j(2) show ?thesis by simp
  qed
qed

text \<open>
  A separator none of whose bytes occurs in the text before it is found right after that text:
  this is why a namespaced name can be taken apart again.
\<close>

lemma str_index_disjoint:
  assumes "sep \<noteq> []" and "set sep \<inter> set ns = {}"
  shows "str_index (ns @ sep @ rest) sep = Some (length ns)"
  using assms(2)
proof (induction ns)
  case Nil
  with assms(1) show ?case by (cases sep) auto
next
  case (Cons c ns)
  with assms(1) have "\<not> prefix sep (c # ns @ sep @ rest)" by (cases sep) auto
  with Cons show ?case by simp
qed

lemma str_cut_disjoint:
  "sep \<noteq> [] \<Longrightarrow> set sep \<inter> set ns = {} \<Longrightarrow> str_cut (ns @ sep @ rest) sep = Some (ns, rest)"
  by (simp add: str_cut_def str_index_disjoint)

lemma str_cut_Some: "str_cut s sep = Some (a, b) \<Longrightarrow> s = a @ sep @ b"
  by (auto simp: str_cut_def split: option.splits dest: str_index_Some_split)

lemma str_split_ne [simp]: "str_split c s \<noteq> []"
  by (induction s) (auto split: list.splits)

lemma str_join_Cons: "ps \<noteq> [] \<Longrightarrow> str_join sep (p # ps) = p @ sep @ str_join sep ps"
  by (cases ps) auto

lemma str_join_split [simp]: "str_join [c] (str_split c s) = s"
proof (induction s)
  case Nil
  then show ?case by simp
next
  case (Cons x xs)
  obtain p ps where ps: "str_split c xs = p # ps"
    using str_split_ne [of c xs] by (cases "str_split c xs") auto
  with Cons show ?case by (cases ps) auto
qed

lemma str_split_no_sep: "p \<in> set (str_split c s) \<Longrightarrow> c \<notin> set p"
  by (induction s arbitrary: p) (auto split: if_splits list.splits)

lemma str_split_inj: "str_split c s = str_split c t \<Longrightarrow> s = t"
  by (metis str_join_split)

lemma char_of_eq: "char_of n = c \<longleftrightarrow> n mod 256 = of_char c" for n :: nat
  by (metis char_of_char char_of_mod_256 of_char_of)

subsection \<open>Partial maps\<close>

lemma map_subI: "(\<And>k v. f k = Some v \<Longrightarrow> g k = Some v) \<Longrightarrow> f \<subseteq>\<^sub>m g"
  by (force simp: map_le_def)

lemma map_subD: "f \<subseteq>\<^sub>m g \<Longrightarrow> f k = Some v \<Longrightarrow> g k = Some v"
  by (force simp: map_le_def)

lemma map_sub_upd: "f \<subseteq>\<^sub>m g \<Longrightarrow> f(k := x) \<subseteq>\<^sub>m g(k := x)"
  by (rule map_subI) (auto split: if_splits dest: map_subD)

subsection \<open>JSON values\<close>

text \<open>
  What \<open>encoding/json\<close> produces when it decodes into \<open>any\<close>: a number is a \<open>float64\<close> (never NaN),
  kept as the rational it denotes; an object is a finite map, so that \<open>reflect.DeepEqual\<close> on two
  such values is equality.
\<close>

datatype json =
    JNull
  | JBool bool
  | JNum rat
  | JStr string
  | JArr "json list"
  | JObj "(string, json) fmap"

type_synonym json_map = "(string, json) fmap"

end
