(* ===== verification/Breaker.thy ===== *)
theory Breaker
  imports Fold_Prelude
begin

section \<open>The circuit breaker (src/internal/breaker/breaker.go)\<close>

text \<open>
  A per-upstream breaker: consecutive failures open it, after the cool-down one probe is admitted,
  and the probe's outcome closes or re-opens it. The clock reading \<open>b.now()\<close> of each call is an
  argument \<open>now\<close>. Every method locks the breaker's mutex for its whole body, so a run of the
  breaker is a sequence of whole method calls; \<open>breaker_step\<close> is one of them. A nil breaker (a
  threshold of zero or less) is \<open>None\<close> and always passes traffic.
\<close>

datatype State = Closed | Open | HalfOpen

record Breaker =
  failureThreshold :: int
  halfOpenAfter :: duration
  state :: State
  failures :: int
  openedAt :: time
  probing :: bool

definition New_breaker :: "int \<Rightarrow> duration \<Rightarrow> Breaker option" where
  "New_breaker threshold half =
     (if threshold \<le> 0 then None
      else Some \<lparr>failureThreshold = threshold, halfOpenAfter = half, state = Closed,
                 failures = 0, openedAt = 0, probing = False\<rparr>)"

definition Allow_breaker :: "Breaker \<Rightarrow> time \<Rightarrow> bool \<times> Breaker" where
  "Allow_breaker b now =
     (case state b of
        Closed \<Rightarrow> (True, b)
      | Open \<Rightarrow>
          (if halfOpenAfter b \<le> time_sub now (openedAt b)
           then (True, b\<lparr>state := HalfOpen, probing := True\<rparr>)
           else (False, b))
      | HalfOpen \<Rightarrow>
          (if probing b then (False, b) else (True, b\<lparr>probing := True\<rparr>)))"

definition Record_breaker :: "Breaker \<Rightarrow> bool \<Rightarrow> time \<Rightarrow> Breaker" where
  "Record_breaker b success now =
     (if success then b\<lparr>state := Closed, failures := 0, probing := False\<rparr>
      else let b' = b\<lparr>probing := False, failures := failures b + 1\<rparr>
           in if state b' = HalfOpen \<or> failureThreshold b' \<le> failures b'
              then b'\<lparr>state := Open, openedAt := now\<rparr>
              else b')"

definition State_breaker :: "Breaker \<Rightarrow> time \<Rightarrow> State" where
  "State_breaker b now =
     (if state b = Open \<and> halfOpenAfter b \<le> time_sub now (openedAt b) then HalfOpen
      else state b)"

text \<open>The methods on a possibly nil receiver.\<close>

definition Allow_nil :: "Breaker option \<Rightarrow> time \<Rightarrow> bool \<times> Breaker option" where
  "Allow_nil ob now =
     (case ob of None \<Rightarrow> (True, None)
      | Some b \<Rightarrow> (let (ok, b') = Allow_breaker b now in (ok, Some b')))"

definition Record_nil :: "Breaker option \<Rightarrow> bool \<Rightarrow> time \<Rightarrow> Breaker option" where
  "Record_nil ob success now = map_option (\<lambda>b. Record_breaker b success now) ob"

definition State_nil :: "Breaker option \<Rightarrow> time \<Rightarrow> State" where
  "State_nil ob now = (case ob of None \<Rightarrow> Closed | Some b \<Rightarrow> State_breaker b now)"

lemmas breaker_defs = Allow_breaker_def Record_breaker_def State_breaker_def Let_def

subsection \<open>Runs\<close>

inductive breaker_step :: "Breaker \<Rightarrow> Breaker \<Rightarrow> bool" where
  allow: "breaker_step b (snd (Allow_breaker b now))"
| report: "breaker_step b (Record_breaker b success now)"

inductive breaker_reachable :: "int \<Rightarrow> duration \<Rightarrow> Breaker \<Rightarrow> bool" for n half where
  init: "New_breaker n half = Some b \<Longrightarrow> breaker_reachable n half b"
| step: "breaker_reachable n half b \<Longrightarrow> breaker_step b b' \<Longrightarrow> breaker_reachable n half b'"

inductive_cases breaker_stepE: "breaker_step b b'"

fun allow_all :: "Breaker \<Rightarrow> time list \<Rightarrow> bool list \<times> Breaker" where
  "allow_all b [] = ([], b)"
| "allow_all b (t # ts) =
     (let (ok, b') = Allow_breaker b t; (oks, b'') = allow_all b' ts in (ok # oks, b''))"

fun fail_all :: "Breaker \<Rightarrow> time list \<Rightarrow> Breaker" where
  "fail_all b [] = b"
| "fail_all b (t # ts) = fail_all (Record_breaker b False t) ts"

subsection \<open>The invariant\<close>

text \<open>
  What the code keeps true between the fields: the counter never goes negative; a closed circuit
  is below its threshold; a probe is outstanding only in the half-open state.
\<close>

definition breaker_inv :: "Breaker \<Rightarrow> bool" where
  "breaker_inv b \<longleftrightarrow>
     0 < failureThreshold b \<and> 0 \<le> failures b \<and>
     (state b = Closed \<longrightarrow> failures b < failureThreshold b) \<and>
     (probing b \<longrightarrow> state b = HalfOpen)"

lemma New_inv [inv_intros]: "New_breaker n half = Some b \<Longrightarrow> breaker_inv b"
  by (auto simp: New_breaker_def breaker_inv_def split: if_splits)

lemma Allow_inv [inv_intros]: "breaker_inv b \<Longrightarrow> breaker_inv (snd (Allow_breaker b now))"
  by (auto simp: breaker_inv_def Allow_breaker_def split: State.splits)

lemma Record_inv [inv_intros]: "breaker_inv b \<Longrightarrow> breaker_inv (Record_breaker b ok now)"
  by (auto simp: breaker_inv_def Record_breaker_def Let_def)

lemma reachable_inv: "breaker_reachable n half b \<Longrightarrow> breaker_inv b"
proof (induction rule: breaker_reachable.induct)
  case (step b b')
  then show ?case by (auto elim!: breaker_stepE intro: inv_intros)
qed (rule New_inv)

lemma step_config:
  "breaker_step b b' \<Longrightarrow>
     failureThreshold b' = failureThreshold b \<and> halfOpenAfter b' = halfOpenAfter b"
  by (auto elim!: breaker_stepE simp: breaker_defs split: State.splits)

lemma reachable_config:
  "breaker_reachable n half b \<Longrightarrow> failureThreshold b = n \<and> halfOpenAfter b = half"
  by (induction rule: breaker_reachable.induct)
    (auto simp: New_breaker_def split: if_splits dest: step_config)

text \<open>
  In every state a breaker can reach by any sequence of calls at any clock readings, its
  counter is non-negative, a closed circuit has seen fewer consecutive failures than the
  threshold, a probe is outstanding only while half-open, and the configuration is the one it was
  built with.
\<close>

theorem breaker_reachable_wellformed:
  assumes "breaker_reachable n half b"
  shows "0 \<le> failures b \<and> (state b = Closed \<longrightarrow> failures b < n) \<and>
         (probing b \<longrightarrow> state b = HalfOpen) \<and> failureThreshold b = n \<and> halfOpenAfter b = half"
  using reachable_inv [OF assms] reachable_config [OF assms] by (auto simp: breaker_inv_def)

theorem breaker_reachable_wellformed_witness:
  "let b = the (New_breaker 2 30)
   in 0 \<le> failures b \<and> (state b = Closed \<longrightarrow> failures b < 2) \<and>
      (probing b \<longrightarrow> state b = HalfOpen) \<and> failureThreshold b = 2 \<and> halfOpenAfter b = 30"
proof -
  have "breaker_reachable 2 30 (the (New_breaker 2 30))"
    by (rule breaker_reachable.init) (simp add: New_breaker_def)
  from breaker_reachable_wellformed [OF this] show ?thesis by (simp add: Let_def)
qed

subsection \<open>Opening after exactly the configured number of consecutive failures\<close>

lemma fail_all_closed:
  "breaker_inv b \<Longrightarrow> state b = Closed \<Longrightarrow> failures b + int (length ts) < failureThreshold b \<Longrightarrow>
     fail_all b ts = b\<lparr>probing := False, failures := failures b + int (length ts)\<rparr>"
proof (induction ts arbitrary: b)
  case Nil
  then show ?case by (simp add: breaker_inv_def)
next
  case (Cons t ts)
  let ?b = "Record_breaker b False t"
  have "breaker_inv ?b" using Cons.prems(1) by (rule Record_inv)
  moreover have "?b = b\<lparr>probing := False, failures := failures b + 1\<rparr>"
    using Cons.prems by (simp add: Record_breaker_def)
  ultimately show ?case using Cons.IH [of ?b] Cons.prems by simp
qed

lemma fail_open_stays:
  "breaker_inv b \<Longrightarrow> state b = Open \<Longrightarrow> failureThreshold b \<le> failures b \<Longrightarrow> state (fail_all b ts) = Open"
proof (induction ts arbitrary: b)
  case (Cons t ts)
  let ?b = "Record_breaker b False t"
  have "breaker_inv ?b" "state ?b = Open" "failureThreshold ?b \<le> failures ?b"
    using Cons.prems Record_inv [of b False t] by (simp_all add: Record_breaker_def Let_def)
  from Cons.IH [OF this] show ?case by simp
qed simp

lemma fail_all_append: "fail_all b (xs @ ys) = fail_all (fail_all b xs) ys"
  by (induction xs arbitrary: b) auto

text \<open>
  C11. From a fresh breaker with threshold \<open>n\<close>, a run of failures alone leaves the circuit closed
  as long as it is shorter than \<open>n\<close> and open from the \<open>n\<close>-th failure on.
\<close>

theorem opens_after_threshold:
  assumes "New_breaker n half = Some b"
  shows "state (fail_all b ts) = (if int (length ts) < n then Closed else Open)"
proof -
  from assms have b: "breaker_inv b" "state b = Closed" "failures b = 0" "failureThreshold b = n" "0 < n"
    by (auto simp: New_breaker_def breaker_inv_def split: if_splits)
  show ?thesis
  proof (cases "int (length ts) < n")
    case True
    with b show ?thesis by (simp add: fail_all_closed)
  next
    case False
    define k where "k = nat n - 1"
    have k: "int k = n - 1" "k < length ts" using False b(5) by (auto simp: k_def)
    obtain t rest where ts: "ts = take k ts @ t # rest"
      using id_take_nth_drop [OF k(2)] by blast
    let ?c = "fail_all b (take k ts)"
    have c: "?c = b\<lparr>probing := False, failures := int k\<rparr>"
      using b k by (simp add: fail_all_closed)
    let ?d = "Record_breaker ?c False t"
    have "breaker_inv ?d" unfolding c
      using b k by (intro Record_inv) (auto simp: breaker_inv_def)
    moreover have "state ?d = Open" "failureThreshold ?d \<le> failures ?d"
      using b k c by (simp_all add: Record_breaker_def)
    ultimately have "state (fail_all ?d rest) = Open" by (intro fail_open_stays)
    moreover have "fail_all b ts = fail_all ?d rest"
      by (subst ts) (simp add: fail_all_append)
    ultimately show ?thesis using False by simp
  qed
qed

theorem opens_after_threshold_witness:
  "state (fail_all (the (New_breaker 2 30)) [1]) = Closed \<and>
   state (fail_all (the (New_breaker 2 30)) [1, 5]) = Open"
proof -
  have "New_breaker 2 30 = Some (the (New_breaker 2 30))" by (simp add: New_breaker_def)
  from opens_after_threshold [OF this, of "[1]"] opens_after_threshold [OF this, of "[1, 5]"]
  show ?thesis by simp
qed

subsection \<open>One probe at a time\<close>

lemma allow_all_probing:
  "state b = HalfOpen \<Longrightarrow> probing b \<Longrightarrow> allow_all b ts = (replicate (length ts) False, b)"
  by (induction ts) (simp_all add: Allow_breaker_def)

lemma Allow_open_wait:
  "state b = Open \<Longrightarrow> time_sub t (openedAt b) < halfOpenAfter b \<Longrightarrow> Allow_breaker b t = (False, b)"
  by (simp add: Allow_breaker_def)

lemma allow_all_open:
  assumes "state b = Open"
  shows "fst (allow_all b ts) =
           (let w = takeWhile (\<lambda>t. time_sub t (openedAt b) < halfOpenAfter b) ts
            in replicate (length w) False @
               (if length w < length ts then True # replicate (length ts - length w - 1) False else []))"
proof (induction ts)
  case (Cons t ts)
  show ?case
  proof (cases "time_sub t (openedAt b) < halfOpenAfter b")
    case True
    with Cons assms show ?thesis
      by (simp add: Allow_open_wait Let_def case_prod_unfold)
  next
    case False
    let ?b = "b\<lparr>state := HalfOpen, probing := True\<rparr>"
    from False assms have "Allow_breaker b t = (True, ?b)" by (simp add: Allow_breaker_def)
    with False show ?thesis by (simp add: allow_all_probing Let_def)
  qed
qed simp

text \<open>
  C24. While an open circuit gets no outcome reported, it refuses every request until the first one
  that arrives at least \<open>halfOpenAfter\<close> after it opened, admits exactly that one, and refuses all
  that follow: at most one probe is in flight.
\<close>

theorem single_probe:
  assumes "state b = Open"
  shows "(let w = takeWhile (\<lambda>t. time_sub t (openedAt b) < halfOpenAfter b) ts
          in fst (allow_all b ts) =
               replicate (length w) False @
               (if length w < length ts then True # replicate (length ts - length w - 1) False else []))
         \<and> length (filter id (fst (allow_all b ts))) \<le> 1"
  by (simp add: allow_all_open [OF assms] Let_def)

theorem single_probe_witness:
  "fst (allow_all (fail_all (the (New_breaker 1 10)) [100]) [105, 110, 111, 200])
     = [False, True, False, False]"
proof -
  have "state (fail_all (the (New_breaker 1 10)) [100]) = Open"
    by (simp add: New_breaker_def Record_breaker_def)
  from single_probe [OF this, of "[105, 110, 111, 200]"] show ?thesis
    by (simp add: New_breaker_def Record_breaker_def time_sub_def min_int64_def max_int64_def Let_def)
qed

subsection \<open>The reported state\<close>

text \<open>
  The state the breaker reports predicts what it does: it refuses a request exactly when it
  reports itself open, or half-open with a probe already outstanding.
\<close>

theorem State_predicts_Allow:
  "fst (Allow_breaker b now) \<longleftrightarrow>
     (State_breaker b now \<noteq> Open \<and> (state b = HalfOpen \<longrightarrow> \<not> probing b))"
  by (auto simp: Allow_breaker_def State_breaker_def split: State.splits)

theorem State_predicts_Allow_witness:
  "\<not> fst (Allow_breaker (fail_all (the (New_breaker 1 10)) [100]) 105) \<and>
   State_breaker (fail_all (the (New_breaker 1 10)) [100]) 105 = Open"
  using State_predicts_Allow [of "fail_all (the (New_breaker 1 10)) [100]" 105]
  by (simp add: New_breaker_def Record_breaker_def State_breaker_def time_sub_def min_int64_def
      max_int64_def)

end
