(* ===== verification/Bounded_Map.thy ===== *)
theory Bounded_Map
  imports Fold_Prelude
begin

section \<open>The bounded TTL map (src/internal/bounded/map.go)\<close>

text \<open>
  A key-value map with per-entry expiry and generational eviction: when the live generation is full
  it becomes the previous one and a fresh one starts; a hit in the previous generation is promoted.
  Every method holds the mutex for its whole body, so each is one function from the map to its
  result and the new map; the clock reading of the call is an argument. A nil Go map reads as
  empty, so a fresh map's \<open>prev\<close> is \<open>fmempty\<close>.
\<close>

record 'v entry =
  entry_value :: 'v
  expires :: time

record 'v Map =
  max_entries :: int
  cur :: "(string, 'v entry) fmap"
  prev :: "(string, 'v entry) fmap"

definition live :: "'v entry \<Rightarrow> time \<Rightarrow> bool" where
  "live e now \<longleftrightarrow> expires e = 0 \<or> now < expires e"

definition New_map :: "int \<Rightarrow> 'v Map" where
  "New_map limit = \<lparr>max_entries = limit, cur = fmempty, prev = fmempty\<rparr>"

definition fmap_len :: "('a, 'b) fmap \<Rightarrow> int" where
  "fmap_len m = int (fcard (fmdom m))"

text \<open>The second half of \<open>Load\<close>: the previous generation, with promotion.\<close>

definition load_prev :: "'v Map \<Rightarrow> string \<Rightarrow> time \<Rightarrow> 'v option \<times> 'v Map" where
  "load_prev m key now =
     (case fmlookup (prev m) key of
        Some e \<Rightarrow>
          (let m' = m\<lparr>prev := fmdrop key (prev m)\<rparr>
           in if live e now then (Some (entry_value e), m'\<lparr>cur := fmupd key e (cur m')\<rparr>) else (None, m'))
      | None \<Rightarrow> (None, m))"

definition Load :: "'v Map \<Rightarrow> string \<Rightarrow> time \<Rightarrow> 'v option \<times> 'v Map" where
  "Load m key now =
     (case fmlookup (cur m) key of
        Some e \<Rightarrow>
          (if live e now then (Some (entry_value e), m)
           else load_prev (m\<lparr>cur := fmdrop key (cur m)\<rparr>) key now)
      | None \<Rightarrow> load_prev m key now)"

definition storeLocked :: "'v Map \<Rightarrow> string \<Rightarrow> 'v \<Rightarrow> duration \<Rightarrow> time \<Rightarrow> 'v Map" where
  "storeLocked m key v ttl now =
     (let m1 = (if fmlookup (cur m) key = None \<and> max_entries m \<le> fmap_len (cur m)
                then m\<lparr>prev := cur m, cur := fmempty\<rparr> else m);
          m2 = m1\<lparr>prev := fmdrop key (prev m1)\<rparr>;
          e = \<lparr>entry_value = v, expires = (if 0 < ttl then now + ttl else 0)\<rparr>
      in m2\<lparr>cur := fmupd key e (cur m2)\<rparr>)"

definition Store_map :: "'v Map \<Rightarrow> string \<Rightarrow> 'v \<Rightarrow> duration \<Rightarrow> time \<Rightarrow> 'v Map" where
  "Store_map m key v ttl now = storeLocked m key v ttl now"

definition LoadOrStore ::
  "'v Map \<Rightarrow> string \<Rightarrow> 'v \<Rightarrow> duration \<Rightarrow> time \<Rightarrow> ('v \<times> bool) \<times> 'v Map" where
  "LoadOrStore m key v ttl now =
     (let stored = (\<lambda>m. ((v, False), storeLocked m key v ttl now));
          second = (case fmlookup (prev m) key of
              Some e \<Rightarrow>
                (let m' = m\<lparr>prev := fmdrop key (prev m)\<rparr>
                 in if live e now then ((entry_value e, True), m'\<lparr>cur := fmupd key e (cur m')\<rparr>)
                    else stored m')
            | None \<Rightarrow> stored m)
      in case fmlookup (cur m) key of
           Some e \<Rightarrow> (if live e now then ((entry_value e, True), m) else second)
         | None \<Rightarrow> second)"

definition Delete_map :: "'v Map \<Rightarrow> string \<Rightarrow> 'v Map" where
  "Delete_map m key = m\<lparr>cur := fmdrop key (cur m), prev := fmdrop key (prev m)\<rparr>"

definition Len_map :: "'v Map \<Rightarrow> int" where
  "Len_map m = fmap_len (cur m) + fmap_len (prev m)"

lemmas bm_defs = Load_def load_prev_def Store_map_def storeLocked_def LoadOrStore_def Delete_map_def Let_def

subsection \<open>The contract of a TTL store that may forget\<close>

text \<open>
  \<open>view s t k\<close> is what the store still holds for key \<open>k\<close> at time \<open>t\<close>. The store may drop a key
  other than the one being written (eviction), and nothing else: it never invents, revives or
  changes a value.
\<close>

locale lossy_ttl_store =
  fixes load :: "'s \<Rightarrow> 'k \<Rightarrow> time \<Rightarrow> 'v option \<times> 's"
    and store :: "'s \<Rightarrow> 'k \<Rightarrow> 'v \<Rightarrow> duration \<Rightarrow> time \<Rightarrow> 's"
    and load_or_store :: "'s \<Rightarrow> 'k \<Rightarrow> 'v \<Rightarrow> duration \<Rightarrow> time \<Rightarrow> ('v \<times> bool) \<times> 's"
    and delete :: "'s \<Rightarrow> 'k \<Rightarrow> 's"
    and view :: "'s \<Rightarrow> time \<Rightarrow> 'k \<Rightarrow> 'v option"
    and invar :: "'s \<Rightarrow> bool"
  assumes load_result: "invar s \<Longrightarrow> fst (load s k now) = view s now k"
    and load_view: "invar s \<Longrightarrow> now \<le> t \<Longrightarrow> view (snd (load s k now)) t = view s t"
    and load_invar: "invar s \<Longrightarrow> invar (snd (load s k now))"
    and store_view_key: "invar s \<Longrightarrow> 0 < now \<Longrightarrow>
          view (store s k v ttl now) t k = (if ttl \<le> 0 \<or> t < now + ttl then Some v else None)"
    and store_view_other: "invar s \<Longrightarrow> k' \<noteq> k \<Longrightarrow>
          view (store s k v ttl now) t k' \<in> {None, view s t k'}"
    and store_invar: "invar s \<Longrightarrow> invar (store s k v ttl now)"
    and los_result: "invar s \<Longrightarrow>
          fst (load_or_store s k v ttl now) =
            (case view s now k of Some w \<Rightarrow> (w, True) | None \<Rightarrow> (v, False))"
    and los_hit_view: "invar s \<Longrightarrow> now \<le> t \<Longrightarrow> view s now k \<noteq> None \<Longrightarrow>
          view (snd (load_or_store s k v ttl now)) t = view s t"
    and los_miss_key: "invar s \<Longrightarrow> 0 < now \<Longrightarrow> view s now k = None \<Longrightarrow>
          view (snd (load_or_store s k v ttl now)) t k =
            (if ttl \<le> 0 \<or> t < now + ttl then Some v else None)"
    and los_miss_other: "invar s \<Longrightarrow> view s now k = None \<Longrightarrow> k' \<noteq> k \<Longrightarrow>
          view (snd (load_or_store s k v ttl now)) t k' \<in> {None, view s t k'}"
    and los_invar: "invar s \<Longrightarrow> invar (snd (load_or_store s k v ttl now))"
    and delete_view: "invar s \<Longrightarrow> view (delete s k) t = (view s t)(k := None)"
    and delete_invar: "invar s \<Longrightarrow> invar (delete s k)"
    and view_antimono: "invar s \<Longrightarrow> t \<le> t' \<Longrightarrow> view s t' k = Some v \<Longrightarrow> view s t k = Some v"
begin

lemma load_after_store:
  assumes "invar s" "0 < now" "ttl \<le> 0 \<or> t < now + ttl"
  shows "fst (load (store s k v ttl now) k t) = Some v"
  using assms by (simp add: load_result store_invar store_view_key)

lemma load_after_delete: "invar s \<Longrightarrow> fst (load (delete s k) k t) = None"
  by (simp add: load_result delete_invar delete_view)

lemma load_twice:
  "invar s \<Longrightarrow> now \<le> t \<Longrightarrow> fst (load (snd (load s k now)) k' t) = fst (load s k' t)"
  by (simp add: load_result load_invar load_view)

text \<open>A key offered twice within its lifetime is fresh the first time and known the second.\<close>

lemma los_second_loaded:
  assumes "invar s" "0 < now" "ttl \<le> 0 \<or> t < now + ttl" "now \<le> t" "view s now k = None"
  shows "snd (fst (load_or_store s k v ttl now)) = False \<and>
         fst (load_or_store (snd (load_or_store s k v ttl now)) k v' ttl' t) = (v, True)"
proof -
  have "view (snd (load_or_store s k v ttl now)) t k = Some v"
    using assms by (simp add: los_miss_key)
  then show ?thesis
    using assms by (simp add: los_result los_invar)
qed

lemma store_view_sub:
  assumes "invar s" "0 < now"
  shows "view (store s k v ttl now) t \<subseteq>\<^sub>m
           (view s t)(k := if ttl \<le> 0 \<or> t < now + ttl then Some v else None)"
proof (rule map_subI)
  fix k' w
  assume w: "view (store s k v ttl now) t k' = Some w"
  show "((view s t)(k := if ttl \<le> 0 \<or> t < now + ttl then Some v else None)) k' = Some w"
  proof (cases "k' = k")
    case True
    with w assms show ?thesis by (simp add: store_view_key)
  next
    case False
    with w store_view_other [OF assms(1) False, where now = now and v = v and ttl = ttl and t = t]
    show ?thesis by auto
  qed
qed

lemma los_view_sub:
  assumes "invar s" "0 < now" "now \<le> t"
  shows "view (snd (load_or_store s k v ttl now)) t \<subseteq>\<^sub>m
           (if view s now k = None
            then (view s t)(k := if ttl \<le> 0 \<or> t < now + ttl then Some v else None)
            else view s t)"
proof (cases "view s now k = None")
  case False
  with assms show ?thesis by (auto simp: los_hit_view)
next
  case True
  have "((view s t)(k := if ttl \<le> 0 \<or> t < now + ttl then Some v else None)) k' = Some w"
    if w: "view (snd (load_or_store s k v ttl now)) t k' = Some w" for k' w
  proof (cases "k' = k")
    case True
    with w assms \<open>view s now k = None\<close> show ?thesis by (simp add: los_miss_key)
  next
    case False
    with w los_miss_other [OF assms(1) True False, where v = v and ttl = ttl and t = t]
    show ?thesis by auto
  qed
  then show ?thesis unfolding if_P [OF True] by (rule map_subI)
qed

end

subsection \<open>The map implements the contract\<close>

definition one_home :: "'v Map \<Rightarrow> bool" where
  "one_home m \<longleftrightarrow> fmdom (cur m) |\<inter>| fmdom (prev m) = {||}"

definition held :: "'v Map \<Rightarrow> string \<Rightarrow> 'v entry option" where
  "held m k = (case fmlookup (cur m) k of Some e \<Rightarrow> Some e | None \<Rightarrow> fmlookup (prev m) k)"

definition map_view :: "'v Map \<Rightarrow> time \<Rightarrow> string \<Rightarrow> 'v option" where
  "map_view m t k =
     (case held m k of Some e \<Rightarrow> (if live e t then Some (entry_value e) else None) | None \<Rightarrow> None)"

lemma one_home_iff: "one_home m \<longleftrightarrow> (\<forall>k. fmlookup (cur m) k = None \<or> fmlookup (prev m) k = None)"
proof -
  have "one_home m \<longleftrightarrow> (\<forall>k. \<not> (k |\<in>| fmdom (cur m) \<and> k |\<in>| fmdom (prev m)))"
    unfolding one_home_def by blast
  then show ?thesis by (auto simp: fmlookup_dom_iff)
qed

lemma one_homeD: "one_home m \<Longrightarrow> fmlookup (cur m) k = Some e \<Longrightarrow> fmlookup (prev m) k = None"
  by (metis one_home_iff option.distinct(1))

lemma New_one_home [inv_intros]: "one_home (New_map n)"
  by (simp add: New_map_def one_home_iff)

lemma Load_one_home [inv_intros]: "one_home m \<Longrightarrow> one_home (snd (Load m k now))"
  by (auto simp: one_home_iff Load_def load_prev_def Let_def split: option.splits)

lemma storeLocked_one_home [inv_intros]: "one_home m \<Longrightarrow> one_home (storeLocked m k v ttl now)"
  by (auto simp: one_home_iff storeLocked_def Let_def)

lemma Store_one_home [inv_intros]: "one_home m \<Longrightarrow> one_home (Store_map m k v ttl now)"
  by (simp add: Store_map_def inv_intros)

lemma LoadOrStore_one_home [inv_intros]: "one_home m \<Longrightarrow> one_home (snd (LoadOrStore m k v ttl now))"
  unfolding LoadOrStore_def Let_def
  by (auto simp: one_home_iff storeLocked_def Let_def split: option.splits)

lemma Delete_one_home [inv_intros]: "one_home m \<Longrightarrow> one_home (Delete_map m k)"
  by (auto simp: one_home_iff Delete_map_def)

lemma held_Load:
  assumes "one_home m"
  shows "held (snd (Load m k now)) k' =
           (if k' = k \<and> (\<exists>e. held m k = Some e \<and> \<not> live e now) then None else held m k')"
  using one_homeD [OF assms]
  by (auto simp: held_def Load_def load_prev_def Let_def split: option.splits)

lemma fst_Load: "one_home m \<Longrightarrow> fst (Load m k now) = map_view m now k"
  by (auto simp: map_view_def held_def Load_def load_prev_def Let_def dest: one_homeD
      split: option.splits)

lemma held_storeLocked_key:
  "held (storeLocked m k v ttl now) k = Some \<lparr>entry_value = v, expires = (if 0 < ttl then now + ttl else 0)\<rparr>"
  by (simp add: held_def storeLocked_def Let_def)

lemma held_storeLocked_other:
  "k' \<noteq> k \<Longrightarrow> held (storeLocked m k v ttl now) k' \<in> {None, held m k'}"
  by (auto simp: held_def storeLocked_def Let_def split: option.splits)

lemma held_Delete: "held (Delete_map m k) k' = (if k' = k then None else held m k')"
  by (simp add: held_def Delete_map_def split: option.split)

lemma live_antimono: "live e t' \<Longrightarrow> t \<le> t' \<Longrightarrow> live e t"
  by (auto simp: live_def)

lemma LoadOrStore_hit:
  "one_home m \<Longrightarrow> map_view m now k = Some w \<Longrightarrow>
     fst (LoadOrStore m k v ttl now) = (w, True) \<and> held (snd (LoadOrStore m k v ttl now)) = held m"
  by (auto simp: LoadOrStore_def Let_def map_view_def held_def fun_eq_iff dest: one_homeD
      split: option.splits if_splits)

lemma LoadOrStore_miss:
  assumes "one_home m" and "map_view m now k = None"
  shows "\<exists>m'. (m' = m \<or> m' = m\<lparr>prev := fmdrop k (prev m)\<rparr>) \<and>
           LoadOrStore m k v ttl now = ((v, False), storeLocked m' k v ttl now)"
  using assms one_homeD [OF assms(1), of k]
  by (auto simp: LoadOrStore_def Let_def map_view_def held_def split: option.splits if_splits)

lemma LoadOrStore_result:
  assumes "one_home m"
  shows "fst (LoadOrStore m k v ttl now) =
           (case map_view m now k of Some w \<Rightarrow> (w, True) | None \<Rightarrow> (v, False))"
proof (cases "map_view m now k")
  case None
  with LoadOrStore_miss [OF assms None, of v ttl] show ?thesis by auto
next
  case (Some w)
  with LoadOrStore_hit [OF assms Some, of v ttl] show ?thesis by simp
qed

lemma held_drop_other: "k' \<noteq> k \<Longrightarrow> held (m\<lparr>prev := fmdrop k (prev m)\<rparr>) k' = held m k'"
  by (simp add: held_def split: option.split)

lemma map_view_store_key:
  "0 < now \<Longrightarrow> map_view (storeLocked m k v ttl now) t k =
     (if ttl \<le> 0 \<or> t < now + ttl then Some v else None)"
  by (auto simp: map_view_def held_storeLocked_key live_def)

lemma map_view_store_other:
  "k' \<noteq> k \<Longrightarrow> map_view (storeLocked m k v ttl now) t k' \<in> {None, map_view m t k'}"
  using held_storeLocked_other [of k' k m v ttl now] by (auto simp: map_view_def)

lemma map_view_los_miss_other:
  assumes "one_home m" "map_view m now k = None" "k' \<noteq> k"
  shows "map_view (snd (LoadOrStore m k v ttl now)) t k' \<in> {None, map_view m t k'}"
proof -
  obtain m' where m': "m' = m \<or> m' = m\<lparr>prev := fmdrop k (prev m)\<rparr>"
    and eq: "LoadOrStore m k v ttl now = ((v, False), storeLocked m' k v ttl now)"
    using LoadOrStore_miss [OF assms(1,2)] by blast
  have "map_view m' t k' = map_view m t k'"
    using m' held_drop_other [OF assms(3), of m] by (auto simp: map_view_def)
  with eq map_view_store_other [OF assms(3), of m' v ttl now t] show ?thesis by simp
qed

interpretation bm: lossy_ttl_store Load Store_map LoadOrStore Delete_map map_view one_home
proof unfold_locales
  fix s :: "'v Map" and k k' :: string and v :: 'v and ttl now t t' :: int
  assume inv: "one_home s"
  show "fst (Load s k now) = map_view s now k" by (rule fst_Load [OF inv])
  show "now \<le> t \<Longrightarrow> map_view (snd (Load s k now)) t = map_view s t"
    using inv by (auto simp: map_view_def held_Load fun_eq_iff split: option.splits dest: live_antimono)
  show "one_home (snd (Load s k now))" by (intro inv_intros inv)
  show "0 < now \<Longrightarrow> map_view (Store_map s k v ttl now) t k =
      (if ttl \<le> 0 \<or> t < now + ttl then Some v else None)"
    by (simp add: Store_map_def map_view_store_key)
  show "k' \<noteq> k \<Longrightarrow> map_view (Store_map s k v ttl now) t k' \<in> {None, map_view s t k'}"
    unfolding Store_map_def by (rule map_view_store_other)
  show "one_home (Store_map s k v ttl now)" by (intro inv_intros inv)
  show "fst (LoadOrStore s k v ttl now) =
      (case map_view s now k of None \<Rightarrow> (v, False) | Some w \<Rightarrow> (w, True))"
    by (rule LoadOrStore_result [OF inv])
  show "now \<le> t \<Longrightarrow> map_view s now k \<noteq> None \<Longrightarrow>
      map_view (snd (LoadOrStore s k v ttl now)) t = map_view s t"
    using LoadOrStore_hit [OF inv, of now k] by (auto simp: map_view_def fun_eq_iff)
  show "0 < now \<Longrightarrow> map_view s now k = None \<Longrightarrow>
      map_view (snd (LoadOrStore s k v ttl now)) t k =
        (if ttl \<le> 0 \<or> t < now + ttl then Some v else None)"
    using LoadOrStore_miss [OF inv, of now k v ttl] by (auto simp: map_view_store_key)
  show "map_view s now k = None \<Longrightarrow> k' \<noteq> k \<Longrightarrow>
      map_view (snd (LoadOrStore s k v ttl now)) t k' \<in> {None, map_view s t k'}"
    by (rule map_view_los_miss_other [OF inv])
  show "one_home (snd (LoadOrStore s k v ttl now))" by (intro inv_intros inv)
  show "map_view (Delete_map s k) t = (map_view s t)(k := None)"
    by (auto simp: map_view_def held_Delete fun_eq_iff)
  show "one_home (Delete_map s k)" by (intro inv_intros inv)
  show "t \<le> t' \<Longrightarrow> map_view s t' k = Some v \<Longrightarrow> map_view s t k = Some v"
    by (auto simp: map_view_def split: option.splits if_splits dest: live_antimono)
qed

subsection \<open>Against the map that never forgets\<close>

text \<open>
  The reference: an unbounded map of entries, each with its deadline. It is what a caller would
  write down as the meaning of the four methods if memory were free.
\<close>

datatype 'v map_op =
    OpLoad string time
  | OpStore string 'v duration time
  | OpLoadOrStore string 'v duration time
  | OpDelete string time

fun op_time :: "'v map_op \<Rightarrow> time" where
  "op_time (OpLoad _ t) = t"
| "op_time (OpStore _ _ _ t) = t"
| "op_time (OpLoadOrStore _ _ _ t) = t"
| "op_time (OpDelete _ t) = t"

fun map_step :: "'v Map \<Rightarrow> 'v map_op \<Rightarrow> 'v Map" where
  "map_step m (OpLoad k now) = snd (Load m k now)"
| "map_step m (OpStore k v ttl now) = Store_map m k v ttl now"
| "map_step m (OpLoadOrStore k v ttl now) = snd (LoadOrStore m k v ttl now)"
| "map_step m (OpDelete k now) = Delete_map m k"

definition map_run :: "'v Map \<Rightarrow> 'v map_op list \<Rightarrow> 'v Map" where
  "map_run m ops = foldl map_step m ops"

type_synonym 'v log = "(string \<times> 'v \<times> duration \<times> time) list"

text \<open>
  The write log of a run: for every key written and not deleted since, the last write; newest
  first. A \<open>LoadOrStore\<close> writes only when it misses.
\<close>

definition log_view :: "'v log \<Rightarrow> time \<Rightarrow> string \<Rightarrow> 'v option" where
  "log_view ws t k =
     (case map_of ws k of
        Some (v, ttl, w) \<Rightarrow> (if ttl \<le> 0 \<or> t < w + ttl then Some v else None)
      | None \<Rightarrow> None)"

fun log_step :: "'v Map \<Rightarrow> 'v log \<Rightarrow> 'v map_op \<Rightarrow> 'v log" where
  "log_step m ws (OpLoad k now) = ws"
| "log_step m ws (OpStore k v ttl now) = (k, v, ttl, now) # ws"
| "log_step m ws (OpLoadOrStore k v ttl now) =
     (if snd (fst (LoadOrStore m k v ttl now)) then ws else (k, v, ttl, now) # ws)"
| "log_step m ws (OpDelete k now) = filter (\<lambda>(k', _). k' \<noteq> k) ws"

fun log_run :: "'v Map \<Rightarrow> 'v log \<Rightarrow> 'v map_op list \<Rightarrow> 'v log" where
  "log_run m ws [] = ws"
| "log_run m ws (p # ps) = log_run (map_step m p) (log_step m ws p) ps"

lemma map_run_simps [simp]:
  "map_run m [] = m" "map_run m (p # ps) = map_run (map_step m p) ps"
  by (simp_all add: map_run_def)

lemma map_run_append: "map_run m (ps @ qs) = map_run (map_run m ps) qs"
  by (simp add: map_run_def)

lemma map_step_one_home [inv_intros]: "one_home m \<Longrightarrow> one_home (map_step m p)"
  by (cases p) (auto intro: inv_intros)

lemma map_run_one_home [inv_intros]: "one_home m \<Longrightarrow> one_home (map_run m ps)"
  by (induction ps arbitrary: m) (auto intro: inv_intros)

lemma log_view_write:
  "log_view ((k, v, ttl, now) # ws) t =
     (log_view ws t)(k := if ttl \<le> 0 \<or> t < now + ttl then Some v else None)"
  by (auto simp: log_view_def fun_eq_iff)

lemma map_of_filter_key:
  "map_of (filter (\<lambda>(k', _). k' \<noteq> k) ws) = (map_of ws)(k := None)"
  by (induction ws) (auto simp: fun_eq_iff)

lemma log_view_delete:
  "log_view (filter (\<lambda>(k', _). k' \<noteq> k) ws) t = (log_view ws t)(k := None)"
  by (auto simp: log_view_def map_of_filter_key fun_eq_iff)

lemma map_sub_trans_upd:
  "f \<subseteq>\<^sub>m g(k := x) \<Longrightarrow> g \<subseteq>\<^sub>m h \<Longrightarrow> f \<subseteq>\<^sub>m h(k := x)"
  by (meson map_le_trans map_sub_upd)

lemma map_step_below_log:
  assumes inv: "one_home m" and pos: "0 < op_time p" and le: "op_time p \<le> t"
    and sub: "map_view m t \<subseteq>\<^sub>m log_view ws t"
  shows "map_view (map_step m p) t \<subseteq>\<^sub>m log_view (log_step m ws p) t"
proof (cases p)
  case (OpLoad k now)
  with assms show ?thesis by (simp add: bm.load_view)
next
  case (OpStore k v ttl now)
  with assms show ?thesis
    using map_sub_trans_upd [OF bm.store_view_sub [OF inv, of now k v ttl t] sub]
    by (simp add: log_view_write)
next
  case (OpLoadOrStore k v ttl now)
  have "snd (fst (LoadOrStore m k v ttl now)) \<longleftrightarrow> map_view m now k \<noteq> None"
    using inv by (simp add: bm.los_result split: option.split)
  moreover have "map_view (snd (LoadOrStore m k v ttl now)) t \<subseteq>\<^sub>m
      (if map_view m now k = None
       then (map_view m t)(k := if ttl \<le> 0 \<or> t < now + ttl then Some v else None)
       else map_view m t)"
    using assms OpLoadOrStore by (intro bm.los_view_sub) auto
  ultimately show ?thesis
    using sub OpLoadOrStore
    by (cases "map_view m now k = None")
      (simp_all add: log_view_write map_sub_trans_upd del: fun_upd_apply, metis map_le_trans)
next
  case (OpDelete k now)
  with assms show ?thesis by (simp add: bm.delete_view log_view_delete map_sub_upd)
qed

lemma map_run_below_log:
  "one_home m \<Longrightarrow> map_view m t \<subseteq>\<^sub>m log_view ws t \<Longrightarrow> \<forall>p \<in> set ps. 0 < op_time p \<and> op_time p \<le> t \<Longrightarrow>
     map_view (map_run m ps) t \<subseteq>\<^sub>m log_view (log_run m ws ps) t"
  by (induction ps arbitrary: m ws) (auto intro: map_step_below_log inv_intros)

text \<open>
  C26. Whatever sequence of loads, stores, load-or-stores and deletes a fresh map has served up to
  time \<open>t\<close>, a hit at \<open>t\<close> returns exactly what a map that never forgets would return: the value of
  the last write to that key, not deleted since and not past its deadline. Eviction can only turn a
  hit into a miss.
\<close>

theorem map_never_invents:
  assumes "\<forall>p \<in> set ps. 0 < op_time p \<and> op_time p \<le> t"
    and "fst (Load (map_run (New_map n) ps) k t) = Some v"
  shows "log_view (log_run (New_map n) [] ps) t k = Some v"
proof -
  let ?m = "New_map n :: 'a Map"
  have "map_view ?m t \<subseteq>\<^sub>m log_view [] t"
    by (auto simp: map_view_def held_def New_map_def intro: map_subI)
  from map_run_below_log [OF New_one_home this assms(1)]
  have "map_view (map_run ?m ps) t \<subseteq>\<^sub>m log_view (log_run ?m [] ps) t" .
  moreover have "map_view (map_run ?m ps) t k = Some v"
    using assms(2) by (simp add: bm.load_result inv_intros)
  ultimately show ?thesis by (rule map_subD)
qed

theorem map_never_invents_witness:
  "log_view (log_run (New_map 1) [] [OpStore ''a'' (7::int) 10 1, OpStore ''b'' 8 10 2]) 3 ''a'' = Some 7"
proof (rule map_never_invents)
  show "\<forall>p \<in> set [OpStore ''a'' (7::int) 10 1, OpStore ''b'' 8 10 2]. 0 < op_time p \<and> op_time p \<le> 3"
    by simp
  show "fst (Load (map_run (New_map 1) [OpStore ''a'' (7::int) 10 1, OpStore ''b'' 8 10 2]) ''a'' 3) = Some 7"
    by (simp add: New_map_def bm_defs fmap_len_def live_def)
qed

text \<open>
  A stored value is there until its deadline: a load of the key that a store has just written
  returns it at every later instant before the deadline, for ever if the lifetime is not positive,
  and a deadline reached is a miss.
\<close>

theorem load_after_store_exact:
  assumes "one_home m" and "0 < now"
  shows "fst (Load (Store_map m k v ttl now) k t) = (if ttl \<le> 0 \<or> t < now + ttl then Some v else None)"
  using assms by (simp add: bm.load_result bm.store_invar bm.store_view_key)

theorem load_after_store_exact_witness:
  "fst (Load (Store_map (New_map 0) ''k'' (1::int) 10 5) ''k'' 14) = Some 1 \<and>
   fst (Load (Store_map (New_map 0) ''k'' (1::int) 10 5) ''k'' 15) = None"
  using load_after_store_exact [OF New_one_home, of 5 0 "''k''" "1::int" 10 14]
    load_after_store_exact [OF New_one_home, of 5 0 "''k''" "1::int" 10 15] by simp

subsection \<open>How long a key survives\<close>

fun store_all :: "'v Map \<Rightarrow> (string \<times> 'v \<times> duration \<times> time) list \<Rightarrow> 'v Map" where
  "store_all m [] = m"
| "store_all m ((k, v, ttl, now) # ws) = store_all (Store_map m k v ttl now) ws"

lemma fmap_len_nonneg [simp]: "0 \<le> fmap_len m"
  by (simp add: fmap_len_def)

lemma fmap_len_empty [simp]: "fmap_len fmempty = 0"
  by (simp add: fmap_len_def)

lemma fmap_len_upd:
  "fmap_len (fmupd k e m) = (if fmlookup m k = None then fmap_len m + 1 else fmap_len m)"
  by (auto simp: fmap_len_def fcard_finsert_if fmlookup_dom_iff fmdom_notI)

lemma fmap_len_drop:
  "fmap_len (fmdrop k m) = (if fmlookup m k = None then fmap_len m else fmap_len m - 1)"
proof (cases "fmlookup m k")
  case None
  then have "fmdrop k m = m" by (metis fmdrop_idle fmdom_notI)
  with None show ?thesis by simp
next
  case (Some e)
  then have k: "k |\<in>| fmdom m" by (rule fmdomI)
  have "fmdom (fmdrop k m) = fmdom m |-| {|k|}" by auto
  then have "fmap_len (fmdrop k m) = int (fcard (fmdom m) - 1)"
    using k by (simp add: fmap_len_def)
  moreover have "0 < fcard (fmdom m)" using k by (metis fcard_0_eq fempty_iff gr0I)
  ultimately show ?thesis using Some by (simp add: fmap_len_def of_nat_diff)
qed

lemma Store_keeps_cur:
  assumes "k' \<noteq> k" and "fmlookup (cur m) k = Some e"
  shows "fmlookup (cur (Store_map m k' v ttl now)) k = Some e \<or>
         fmlookup (cur (Store_map m k' v ttl now)) k = None \<and>
         fmlookup (prev (Store_map m k' v ttl now)) k = Some e \<and>
         fmap_len (cur (Store_map m k' v ttl now)) = 1"
  using assms by (auto simp: Store_map_def storeLocked_def Let_def fmap_len_upd)

lemma Store_keeps_prev:
  assumes "k' \<noteq> k" and "fmlookup (prev m) k = Some e" and "fmlookup (cur m) k = None"
    and "fmap_len (cur m) < max_entries m"
  shows "fmlookup (prev (Store_map m k' v ttl now)) k = Some e \<and>
         fmlookup (cur (Store_map m k' v ttl now)) k = None \<and>
         fmap_len (cur (Store_map m k' v ttl now)) \<le> fmap_len (cur m) + 1"
  using assms by (auto simp: Store_map_def storeLocked_def Let_def fmap_len_upd)

lemma Store_max [simp]: "max_entries (Store_map m k v ttl now) = max_entries m"
  by (simp add: Store_map_def storeLocked_def Let_def)

lemma store_all_survives:
  "\<forall>w \<in> set ws. fst w \<noteq> k \<Longrightarrow> int (length ws) \<le> max_entries m \<Longrightarrow>
   fmlookup (cur m) k = Some e \<or>
     fmlookup (cur m) k = None \<and> fmlookup (prev m) k = Some e \<and>
     fmap_len (cur m) + int (length ws) \<le> max_entries m \<Longrightarrow>
   held (store_all m ws) k = Some e"
proof (induction ws arbitrary: m)
  case Nil
  then show ?case by (auto simp: held_def)
next
  case (Cons w ws)
  obtain k' v ttl now where w: "w = (k', v, ttl, now)" by (cases w)
  let ?m = "Store_map m k' v ttl now"
  have ne: "k' \<noteq> k" using Cons.prems(1) w by simp
  have "fmlookup (cur ?m) k = Some e \<or>
     fmlookup (cur ?m) k = None \<and> fmlookup (prev ?m) k = Some e \<and>
     fmap_len (cur ?m) + int (length ws) \<le> max_entries ?m"
  proof (cases "fmlookup (cur m) k = Some e")
    case True
    from Store_keeps_cur [OF ne True, of v ttl now] Cons.prems(2) show ?thesis by auto
  next
    case False
    with Cons.prems(3) have "fmlookup (prev m) k = Some e" "fmlookup (cur m) k = None"
      "fmap_len (cur m) < max_entries m" "fmap_len (cur m) + 1 + int (length ws) \<le> max_entries m"
      by auto
    with Store_keeps_prev [OF ne this(1,2,3), of v ttl now] show ?thesis by auto
  qed
  with Cons w show ?case by simp
qed

text \<open>
  C14. An entry survives a full generation of other writes: after a store, up to \<open>max\<close> further
  stores of other keys leave the value loadable until its deadline.
\<close>

theorem survives_a_generation:
  assumes "one_home m" and "0 < now" and "ttl \<le> 0 \<or> t < now + ttl"
    and "\<forall>w \<in> set ws. fst w \<noteq> k" and "int (length ws) \<le> max_entries m"
  shows "fst (Load (store_all (Store_map m k v ttl now) ws) k t) = Some v"
proof -
  let ?e = "\<lparr>entry_value = v, expires = (if 0 < ttl then now + ttl else 0)\<rparr>"
  have "fmlookup (cur (Store_map m k v ttl now)) k = Some ?e"
    by (simp add: Store_map_def storeLocked_def Let_def)
  with assms have h: "held (store_all (Store_map m k v ttl now) ws) k = Some ?e"
    by (intro store_all_survives) auto
  have "one_home (store_all m' ws)" if "one_home m'" for m' :: "'a Map"
    using that by (induction m' ws rule: store_all.induct) (auto intro: inv_intros)
  with assms h show ?thesis
    by (simp add: bm.load_result inv_intros map_view_def live_def) auto
qed

theorem survives_a_generation_witness:
  "fst (Load (store_all (Store_map (New_map 2) ''a'' (1::int) 0 5) [(''b'', 2, 0, 6), (''c'', 3, 0, 7)]) ''a'' 9)
     = Some 1"
  by (rule survives_a_generation) (simp_all add: New_one_home, simp add: New_map_def)

subsection \<open>How large the map can become\<close>

definition within_max :: "'v Map \<Rightarrow> bool" where
  "within_max m \<longleftrightarrow> fmap_len (cur m) \<le> max_entries m \<and> fmap_len (prev m) \<le> max_entries m"

lemma Store_within_max: "1 \<le> max_entries m \<Longrightarrow> within_max m \<Longrightarrow> within_max (Store_map m k v ttl now)"
  by (auto simp: within_max_def Store_map_def storeLocked_def Let_def fmap_len_upd fmap_len_drop)

lemma Delete_within_max: "within_max m \<Longrightarrow> within_max (Delete_map m k)"
  by (auto simp: within_max_def Delete_map_def fmap_len_drop)

text \<open>Without reads the documented bound of twice the limit holds.\<close>

lemma writes_within_max:
  "1 \<le> max_entries m \<Longrightarrow> within_max m \<Longrightarrow> \<forall>p \<in> set ps. (\<exists>k v ttl now. p = OpStore k v ttl now) \<or> (\<exists>k now. p = OpDelete k now) \<Longrightarrow>
     within_max (map_run m ps) \<and> max_entries (map_run m ps) = max_entries m"
proof (induction ps arbitrary: m)
  case (Cons p ps)
  have "within_max (map_step m p) \<and> max_entries (map_step m p) = max_entries m"
    using Cons.prems by (auto simp: Store_within_max Delete_within_max) (simp add: Delete_map_def)
  with Cons.IH [of "map_step m p"] Cons.prems show ?case by auto
qed simp

text \<open>
  As long as a map is only written and deleted from, it never holds more than twice its limit.
\<close>

theorem writes_bounded:
  assumes "1 \<le> n"
    and "\<forall>p \<in> set ps. (\<exists>k v ttl now. p = OpStore k v ttl now) \<or> (\<exists>k now. p = OpDelete k now)"
  shows "Len_map (map_run (New_map n) ps) \<le> 2 * n"
proof -
  let ?m = "New_map n :: 'a Map"
  have "1 \<le> max_entries ?m" "within_max ?m" "max_entries ?m = n"
    using assms(1) by (simp_all add: New_map_def within_max_def)
  with writes_within_max [OF this(1,2) assms(2)] show ?thesis
    by (auto simp: within_max_def Len_map_def)
qed

theorem writes_bounded_witness:
  "Len_map (map_run (New_map 1) [OpStore ''a'' (1::int) 0 1, OpStore ''b'' 2 0 2, OpStore ''c'' 3 0 3]) \<le> 2"
  using writes_bounded [of 1 "[OpStore ''a'' (1::int) 0 1, OpStore ''b'' 2 0 2, OpStore ''c'' 3 0 3]"]
  by simp

text \<open>
  With reads it does not: \<open>Load\<close> promotes an entry into the live generation without looking at how
  full that is, so a caller who keeps reading everything it has written keeps everything. The run
  below stores a fresh key and then reads back every key stored so far, again and again.
\<close>

definition nth_key :: "nat \<Rightarrow> string" where
  "nth_key i = replicate i CHR ''x''"

fun hoard :: "nat \<Rightarrow> unit map_op list" where
  "hoard 0 = []"
| "hoard (Suc n) = hoard n @ OpStore (nth_key n) () 0 1 # map (\<lambda>i. OpLoad (nth_key i) 1) [0..<n]"

abbreviation forever :: "unit entry" where
  "forever \<equiv> \<lparr>entry_value = (), expires = 0\<rparr>"

lemma nth_key_eq [simp]: "nth_key i = nth_key j \<longleftrightarrow> i = j"
  by (metis length_replicate nth_key_def)

lemma Load_promotes:
  assumes "held m k = Some forever"
  shows "fmlookup (cur (snd (Load m k now))) k = Some forever"
    and "fmlookup (cur m) k' = Some forever \<Longrightarrow> fmlookup (cur (snd (Load m k now))) k' = Some forever"
    and "held m k' = Some forever \<Longrightarrow> held (snd (Load m k now)) k' = Some forever"
  using assms
  by (auto simp: held_def Load_def load_prev_def Let_def live_def split: option.splits if_splits)

lemma loads_promote:
  "\<forall>i \<in> set is. held m (nth_key i) = Some forever \<Longrightarrow>
   fmlookup (cur m) k = Some forever \<or> (\<exists>i \<in> set is. k = nth_key i) \<Longrightarrow>
   fmlookup (cur (map_run m (map (\<lambda>i. OpLoad (nth_key i) 1) is))) k = Some forever"
proof (induction "is" arbitrary: m)
  case (Cons i "is")
  have "held m (nth_key i) = Some forever" using Cons.prems(1) by simp
  note keep = Load_promotes [OF this, where now = 1]
  have "fmlookup (cur (snd (Load m (nth_key i) 1))) k = Some forever \<or> (\<exists>j \<in> set is. k = nth_key j)"
    using Cons.prems(2) keep(1,2) by auto
  moreover have "\<forall>j \<in> set is. held (snd (Load m (nth_key i) 1)) (nth_key j) = Some forever"
    using Cons.prems(1) keep(3) by auto
  ultimately show ?case using Cons.IH by simp
qed simp

lemma Store_held_cur:
  "fmlookup (cur m) k = Some e \<Longrightarrow> k' \<noteq> k \<Longrightarrow> held (Store_map m k' v ttl now) k = Some e"
  using Store_keeps_cur [of k' k m e v ttl now] by (auto simp: held_def)

lemma hoard_cur:
  "i < n \<Longrightarrow> fmlookup (cur (map_run (New_map limit) (hoard n))) (nth_key i) = Some forever"
proof (induction n arbitrary: i)
  case (Suc n)
  let ?m = "map_run (New_map limit) (hoard n)"
  let ?s = "Store_map ?m (nth_key n) () 0 1"
  have s: "fmlookup (cur ?s) (nth_key n) = Some forever"
    by (simp add: Store_map_def storeLocked_def Let_def)
  have "held ?s (nth_key j) = Some forever" if "j < n" for j
    using Suc.IH [OF that] that by (intro Store_held_cur) auto
  then have "fmlookup (cur (map_run ?s (map (\<lambda>i. OpLoad (nth_key i) 1) [0..<n]))) (nth_key i) = Some forever"
    using Suc.prems s by (intro loads_promote) (auto simp: less_Suc_eq)
  then show ?case by (simp add: map_run_append)
qed simp

lemma card_le_fmap_len:
  assumes "\<And>i. i < n \<Longrightarrow> fmlookup m (nth_key i) \<noteq> None"
  shows "int n \<le> fmap_len m"
proof -
  have "nth_key ` {..<n} \<subseteq> fset (fmdom m)"
    using assms by (auto simp: fmlookup_dom_iff)
  then have "card (nth_key ` {..<n}) \<le> card (fset (fmdom m))" by (intro card_mono) auto
  moreover have "card (nth_key ` {..<n}) = n"
    by (simp add: card_image inj_on_def)
  ultimately show ?thesis by (simp add: fmap_len_def fcard.rep_eq)
qed

text \<open>
  C15. The documented bound on the map's size does not hold once it is read: for every limit and
  every number \<open>n\<close> there is a run of stores and loads after which the map holds \<open>n\<close> entries or more.
\<close>

theorem reads_defeat_the_bound:
  "\<exists>ps :: unit map_op list. int n \<le> Len_map (map_run (New_map limit) ps)"
proof (rule exI [of _ "hoard n"])
  have "int n \<le> fmap_len (cur (map_run (New_map limit) (hoard n)))"
    by (rule card_le_fmap_len) (simp add: hoard_cur)
  then show "int n \<le> Len_map (map_run (New_map limit) (hoard n))"
    by (simp add: Len_map_def add_increasing2)
qed

end
