(* ===== verification/Policy_Engine.thy ===== *)
theory Policy_Engine
  imports Fold_Prelude
begin

section \<open>The policy engine (src/policy/policy.go)\<close>

text \<open>
  Deny-by-default authorization: rules over server, method, name, arguments and tool annotations,
  gated on the principal. The configuration types are those of src/config/config.go, the principal
  that of src/auth/principal.go. A Go map that the code only ranges over (\<open>Claims\<close>, \<open>Args\<close> of the
  document) is the association list of its entries in the order one iteration happens to take, so a
  theorem about every list is a theorem about every iteration order. A lazy source (\<open>ArgSource\<close>,
  \<open>AnnotationSource\<close>) is the value it yields: \<open>None\<close> for a nil function, \<open>Some None\<close> for one that
  answers false.
\<close>

subsection \<open>Configuration and principal\<close>

record PolicySubjects =
  ps_Groups :: "string list"
  ps_Subs :: "string list"
  ps_Issuers :: "string list"
  ps_Claims :: "(string \<times> json) list"
  ps_Scopes :: "string list"

record PolicyAllow =
  pa_Server :: string
  pa_Methods :: "string list"
  pa_Names :: "string list"
  pa_Args :: "(string \<times> json) list"
  pa_ToolKind :: string

record PolicyRule =
  pr_ID :: string
  pr_Subjects :: "PolicySubjects option"
  pr_Allow :: "PolicyAllow list"
  pr_Deny :: "PolicyAllow list"
  pr_MaxItems :: int

record Policy =
  pol_DefaultDecision :: string
  pol_Rules :: "PolicyRule list"
  pol_ServerInitiatedDecision :: string

record Principal =
  p_Subject :: string
  p_Issuer :: string
  p_Groups :: "string list"
  p_Scopes :: "string list"
  p_Token :: string
  p_Expiry :: time
  p_Claims :: json_map

subsection \<open>Name patterns\<close>

record glob =
  parts :: "string list"

definition compileGlob :: "string \<Rightarrow> glob" where
  "compileGlob pattern = \<lparr>parts = str_split CHR ''*'' pattern\<rparr>"

text \<open>The loop of \<open>match\<close> over the inner parts: what is left of the name, if they all occur.\<close>

fun match_inner :: "string list \<Rightarrow> string \<Rightarrow> string option" where
  "match_inner [] name = Some name"
| "match_inner (p # ps) name =
     (case str_index name p of
        None \<Rightarrow> None
      | Some idx \<Rightarrow> match_inner ps (drop (idx + length p) name))"

text \<open>A compiled pattern always has a part; the zero value of the Go type, which has none, is not built.\<close>

definition glob_match :: "glob \<Rightarrow> string \<Rightarrow> bool" where
  "glob_match g name =
     (case parts g of
        [] \<Rightarrow> False
      | [p] \<Rightarrow> p = name
      | p # ps \<Rightarrow>
          (if \<not> prefix p name then False
           else (case match_inner (butlast ps) (drop (length p) name) of
                   None \<Rightarrow> False
                 | Some rest \<Rightarrow> suffix (last ps) rest)))"

definition globAny :: "glob list \<Rightarrow> string \<Rightarrow> bool" where
  "globAny globs name = list_ex (\<lambda>g. glob_match g name) globs"

definition globMatch :: "string \<Rightarrow> string \<Rightarrow> bool" where
  "globMatch pattern name = glob_match (compileGlob pattern) name"

subsection \<open>Compiled rules\<close>

datatype toolKind = kindAny | kindReadOnly | kindNonDestructive

record ToolAnnotations =
  ReadOnly :: bool
  Destructive :: bool

definition admits :: "toolKind \<Rightarrow> ToolAnnotations \<Rightarrow> bool" where
  "admits k a =
     (case k of
        kindReadOnly \<Rightarrow> ReadOnly a
      | kindNonDestructive \<Rightarrow> ReadOnly a \<or> \<not> Destructive a
      | kindAny \<Rightarrow> True)"

record compiledArg =
  ca_path :: "string list"
  ca_value :: json

record compiledAllow =
  c_server :: string
  c_methods :: "string list"
  c_names :: "glob list"
  c_args :: "compiledArg list"
  c_kind :: toolKind

record compiledRule =
  r_id :: string
  r_subjects :: "PolicySubjects option"
  r_allow :: "compiledAllow list"
  r_deny :: "compiledAllow list"
  r_maxItems :: int

record Engine =
  defaultAllow :: bool
  rules :: "compiledRule list"
  enabled :: bool
  hasDeny :: bool
  hasArgs :: bool
  hasKind :: bool
  hasScopes :: bool
  serverInitiatedAllow :: bool

record Decision =
  Allowed :: bool
  RuleID :: string
  MaxItems :: int
  FailedArg :: string
  MissingScopes :: "string list"

type_synonym AnnotationSource = "ToolAnnotations option option"
type_synonym ArgSource = "json_map option option"

record Evidence =
  ev_Args :: ArgSource
  ev_Tool :: AnnotationSource

definition no_evidence :: Evidence where
  "no_evidence = \<lparr>ev_Args = None, ev_Tool = None\<rparr>"

abbreviation join_path :: "string list \<Rightarrow> string" where
  "join_path \<equiv> str_join ''.''"

definition compileKind :: "string \<Rightarrow> toolKind" where
  "compileKind s =
     (if s = ''readOnly'' then kindReadOnly
      else if s = ''nonDestructive'' then kindNonDestructive
      else kindAny)"

definition compileClause :: "PolicyAllow \<Rightarrow> compiledAllow" where
  "compileClause a =
     \<lparr>c_server = pa_Server a, c_methods = pa_Methods a,
      c_names = map compileGlob (pa_Names a),
      c_args = sort_key (\<lambda>c. join_path (ca_path c))
        (map (\<lambda>(path, want). \<lparr>ca_path = str_split CHR ''.'' path, ca_value = want\<rparr>) (pa_Args a)),
      c_kind = compileKind (pa_ToolKind a)\<rparr>"

definition compileClauses :: "PolicyAllow list \<Rightarrow> compiledAllow list" where
  "compileClauses as = map compileClause as"

definition compileRule :: "PolicyRule \<Rightarrow> compiledRule" where
  "compileRule r =
     \<lparr>r_id = pr_ID r, r_subjects = pr_Subjects r, r_allow = compileClauses (pr_Allow r),
      r_deny = compileClauses (pr_Deny r), r_maxItems = pr_MaxItems r\<rparr>"

definition New_engine :: "Policy option \<Rightarrow> Engine" where
  "New_engine cfg =
     (case cfg of
        None \<Rightarrow>
          \<lparr>defaultAllow = True, rules = [], enabled = False, hasDeny = False, hasArgs = False,
           hasKind = False, hasScopes = False, serverInitiatedAllow = False\<rparr>
      | Some c \<Rightarrow>
          (let rs = map compileRule (pol_Rules c);
               clauses = concat (map (\<lambda>r. r_allow r @ r_deny r) rs)
           in \<lparr>defaultAllow = (pol_DefaultDecision c = ''allow''), rules = rs, enabled = True,
               hasDeny = list_ex (\<lambda>r. r_deny r \<noteq> []) rs,
               hasArgs = list_ex (\<lambda>a. c_args a \<noteq> []) clauses,
               hasKind = list_ex (\<lambda>a. c_kind a \<noteq> kindAny) clauses,
               hasScopes =
                 list_ex (\<lambda>r. case r_subjects r of None \<Rightarrow> False | Some s \<Rightarrow> ps_Scopes s \<noteq> []) rs,
               serverInitiatedAllow = (pol_ServerInitiatedDecision c \<noteq> ''deny'')\<rparr>))"

subsection \<open>Who a rule covers\<close>

definition claimEqual :: "json \<Rightarrow> json \<Rightarrow> bool" where
  "claimEqual got want =
     (case want of
        JStr w \<Rightarrow> (case got of JStr g \<Rightarrow> g = w | _ \<Rightarrow> False)
      | JNum w \<Rightarrow> (case got of JNum g \<Rightarrow> g = w | _ \<Rightarrow> False)
      | JBool w \<Rightarrow> (case got of JBool g \<Rightarrow> g = w | _ \<Rightarrow> False)
      | _ \<Rightarrow> got = want)"

definition claim_ok :: "json_map \<Rightarrow> string \<Rightarrow> json \<Rightarrow> bool" where
  "claim_ok claims key want =
     (case fmlookup claims key of
        None \<Rightarrow> False
      | Some (JArr arr) \<Rightarrow> list_ex (\<lambda>v. claimEqual v want) arr
      | Some got \<Rightarrow> claimEqual got want)"

definition claimsMatch :: "(string \<times> json) list \<Rightarrow> json_map \<Rightarrow> bool" where
  "claimsMatch required claims = list_all (\<lambda>(key, want). claim_ok claims key want) required"

definition missingScopes :: "string list \<Rightarrow> string list \<Rightarrow> string list" where
  "missingScopes required scopes = filter (\<lambda>want. want \<notin> set scopes) required"

definition subjectsMatchWhy ::
  "PolicySubjects option \<Rightarrow> Principal option \<Rightarrow> bool \<times> string list" where
  "subjectsMatchWhy so po =
     (case so of None \<Rightarrow> (True, [])
      | Some s \<Rightarrow>
     (case po of None \<Rightarrow> (False, [])
      | Some p \<Rightarrow>
       if ps_Issuers s \<noteq> [] \<and> p_Issuer p \<notin> set (ps_Issuers s) then (False, [])
       else if \<not> claimsMatch (ps_Claims s) (p_Claims p) then (False, [])
       else
         let missing = missingScopes (ps_Scopes s) (p_Scopes p)
         in if ps_Subs s = [] \<and> ps_Groups s = []
            then (if missing \<noteq> [] then (False, missing)
                  else (ps_Issuers s \<noteq> [] \<or> ps_Claims s \<noteq> [] \<or> ps_Scopes s \<noteq> [], []))
            else
              let identity = (ps_Subs s \<noteq> [] \<and> p_Subject p \<in> set (ps_Subs s)) \<or>
                             list_ex (\<lambda>g. g \<in> set (p_Groups p)) (ps_Groups s)
              in if \<not> identity then (False, [])
                 else if missing \<noteq> [] then (False, missing)
                 else (True, [])))"

definition subjectsMatch :: "PolicySubjects option \<Rightarrow> Principal option \<Rightarrow> bool" where
  "subjectsMatch s p = fst (subjectsMatchWhy s p)"

definition MatchSubjects :: "PolicySubjects option \<Rightarrow> Principal option \<Rightarrow> bool" where
  "MatchSubjects s p = subjectsMatch s p"

subsection \<open>What a clause covers\<close>

fun lookup_from :: "json \<Rightarrow> string list \<Rightarrow> json option" where
  "lookup_from cur [] = Some cur"
| "lookup_from cur (seg # path) =
     (case cur of
        JObj obj \<Rightarrow> (case fmlookup obj seg of None \<Rightarrow> None | Some v \<Rightarrow> lookup_from v path)
      | _ \<Rightarrow> None)"

definition lookupPath :: "json_map \<Rightarrow> string list \<Rightarrow> json option" where
  "lookupPath m path = lookup_from (JObj m) path"

fun first_unmet :: "json_map \<Rightarrow> compiledArg list \<Rightarrow> bool \<times> string" where
  "first_unmet got [] = (True, '''')"
| "first_unmet got (c # cs) =
     (case lookupPath got (ca_path c) of
        None \<Rightarrow> (False, join_path (ca_path c))
      | Some v \<Rightarrow>
          if \<not> claimEqual v (ca_value c) then (False, join_path (ca_path c))
          else first_unmet got cs)"

definition argsSatisfied :: "compiledArg list \<Rightarrow> ArgSource \<Rightarrow> bool \<times> string" where
  "argsSatisfied constraints args =
     (case constraints of
        [] \<Rightarrow> (True, '''')
      | c # _ \<Rightarrow>
          (case args of
             None \<Rightarrow> (False, join_path (ca_path c))
           | Some None \<Rightarrow> (False, join_path (ca_path c))
           | Some (Some got) \<Rightarrow> first_unmet got constraints))"

datatype argMode = argEnforce | argIgnore | argSkip

definition clause_names :: "compiledAllow \<Rightarrow> string \<Rightarrow> string \<Rightarrow> string \<Rightarrow> bool" where
  "clause_names a upstreamID mth name \<longleftrightarrow>
     (c_server a = ''*'' \<or> c_server a = upstreamID) \<and>
     (c_methods a = [] \<or> mth \<in> set (c_methods a)) \<and>
     (c_names a = [] \<or> globAny (c_names a) name)"

definition matches :: "compiledAllow list \<Rightarrow> string \<Rightarrow> string \<Rightarrow> string \<Rightarrow> bool" where
  "matches clauses upstreamID mth name =
     list_ex (\<lambda>a. clause_names a upstreamID mth name) clauses"

definition kindAdmits :: "toolKind \<Rightarrow> AnnotationSource \<Rightarrow> bool" where
  "kindAdmits k src =
     (case src of
        None \<Rightarrow> False
      | Some None \<Rightarrow> False
      | Some (Some anno) \<Rightarrow> admits k anno)"

fun matchesArgs_loop ::
  "string \<Rightarrow> compiledAllow list \<Rightarrow> string \<Rightarrow> string \<Rightarrow> string \<Rightarrow> Evidence \<Rightarrow> argMode \<Rightarrow> bool \<times> string" where
  "matchesArgs_loop failed [] u mth name ev mode = (False, failed)"
| "matchesArgs_loop failed (a # as) u mth name ev mode =
     (if \<not> clause_names a u mth name then matchesArgs_loop failed as u mth name ev mode
      else if c_kind a \<noteq> kindAny \<and> \<not> kindAdmits (c_kind a) (ev_Tool ev)
      then matchesArgs_loop failed as u mth name ev mode
      else if c_args a = [] then (True, '''')
      else (case mode of
              argSkip \<Rightarrow> matchesArgs_loop failed as u mth name ev mode
            | argEnforce \<Rightarrow>
                (case argsSatisfied (c_args a) (ev_Args ev) of
                   (ok, path) \<Rightarrow>
                     if \<not> ok
                     then matchesArgs_loop (if failed = '''' then path else failed) as u mth name ev mode
                     else (True, ''''))
            | argIgnore \<Rightarrow> (True, '''')))"

definition matchesArgs ::
  "compiledAllow list \<Rightarrow> string \<Rightarrow> string \<Rightarrow> string \<Rightarrow> Evidence \<Rightarrow> argMode \<Rightarrow> bool \<times> string" where
  "matchesArgs clauses u mth name ev mode = matchesArgs_loop '''' clauses u mth name ev mode"

subsection \<open>The decision\<close>

text \<open>
  \<open>scopeShortfall\<close>: the scopes collected so far, in order; its \<open>seen\<close> map holds exactly these.
\<close>

fun shortfall_add :: "string list \<Rightarrow> string list \<Rightarrow> string list" where
  "shortfall_add out [] = out"
| "shortfall_add out (sc # scs) = shortfall_add (if sc \<in> set out then out else out @ [sc]) scs"

definition allow_decision :: "compiledRule \<Rightarrow> Decision" where
  "allow_decision r =
     \<lparr>Allowed = True, RuleID = r_id r, MaxItems = r_maxItems r, FailedArg = '''', MissingScopes = []\<rparr>"

definition deny_decision :: "compiledRule \<Rightarrow> Decision" where
  "deny_decision r =
     \<lparr>Allowed = False, RuleID = r_id r, MaxItems = 0, FailedArg = '''', MissingScopes = []\<rparr>"

definition default_decision :: "Engine \<Rightarrow> string \<Rightarrow> string list \<Rightarrow> Decision" where
  "default_decision e blockedBy short =
     \<lparr>Allowed = defaultAllow e, RuleID = '''', MaxItems = 0, FailedArg = blockedBy, MissingScopes = short\<rparr>"

text \<open>The two loops of the path taken when no rule constrains arguments or annotations.\<close>

fun deny_loop ::
  "compiledRule list \<Rightarrow> Principal option \<Rightarrow> string \<Rightarrow> string \<Rightarrow> string \<Rightarrow> compiledRule option" where
  "deny_loop [] p u mth name = None"
| "deny_loop (r # rs) p u mth name =
     (if r_deny r = [] \<or> \<not> subjectsMatch (r_subjects r) p then deny_loop rs p u mth name
      else if matches (r_deny r) u mth name then Some r
      else deny_loop rs p u mth name)"

fun allow_loop ::
  "Engine \<Rightarrow> string list \<Rightarrow> compiledRule list \<Rightarrow> Principal option \<Rightarrow> string \<Rightarrow> string \<Rightarrow> string
     \<Rightarrow> argMode \<Rightarrow> Decision" where
  "allow_loop e short [] p u mth name mode = default_decision e '''' short"
| "allow_loop e short (r # rs) p u mth name mode =
     (case subjectsMatchWhy (r_subjects r) p of
        (ok, unmet) \<Rightarrow>
          if \<not> ok
          then allow_loop e
                 (if hasScopes e \<and> mode = argEnforce \<and> unmet \<noteq> [] \<and> matches (r_allow r) u mth name
                  then shortfall_add short unmet else short)
                 rs p u mth name mode
          else if matches (r_allow r) u mth name then allow_decision r
          else allow_loop e short rs p u mth name mode)"

text \<open>The two loops of the argument-aware path.\<close>

fun deny_loop_args ::
  "compiledRule list \<Rightarrow> Principal option \<Rightarrow> string \<Rightarrow> string \<Rightarrow> string \<Rightarrow> Evidence \<Rightarrow> argMode
     \<Rightarrow> compiledRule option" where
  "deny_loop_args [] p u mth name ev mode = None"
| "deny_loop_args (r # rs) p u mth name ev mode =
     (if r_deny r = [] \<or> \<not> subjectsMatch (r_subjects r) p then deny_loop_args rs p u mth name ev mode
      else let denyMode = (if mode = argIgnore then argSkip else mode)
           in if fst (matchesArgs (r_deny r) u mth name ev denyMode) then Some r
              else deny_loop_args rs p u mth name ev mode)"

fun allow_loop_args ::
  "Engine \<Rightarrow> string \<Rightarrow> string list \<Rightarrow> compiledRule list \<Rightarrow> Principal option \<Rightarrow> string \<Rightarrow> string \<Rightarrow> string
     \<Rightarrow> Evidence \<Rightarrow> argMode \<Rightarrow> Decision" where
  "allow_loop_args e blockedBy short [] p u mth name ev mode = default_decision e blockedBy short"
| "allow_loop_args e blockedBy short (r # rs) p u mth name ev mode =
     (case subjectsMatchWhy (r_subjects r) p of
        (subjOK, unmet) \<Rightarrow>
          if \<not> subjOK
          then allow_loop_args e blockedBy
                 (if hasScopes e \<and> mode = argEnforce \<and> unmet \<noteq> [] \<and> matches (r_allow r) u mth name
                  then shortfall_add short unmet else short)
                 rs p u mth name ev mode
          else (case matchesArgs (r_allow r) u mth name ev mode of
                  (ok, failed) \<Rightarrow>
                    if ok then allow_decision r
                    else allow_loop_args e (if blockedBy = '''' then failed else blockedBy)
                           short rs p u mth name ev mode))"

definition decide ::
  "Engine \<Rightarrow> Principal option \<Rightarrow> string \<Rightarrow> string \<Rightarrow> string \<Rightarrow> Evidence \<Rightarrow> argMode \<Rightarrow> Decision" where
  "decide e p u mth name ev mode =
     (if \<not> enabled e
      then \<lparr>Allowed = True, RuleID = '''', MaxItems = 0, FailedArg = '''', MissingScopes = []\<rparr>
      else if \<not> hasArgs e \<and> \<not> hasKind e
      then (case (if hasDeny e then deny_loop (rules e) p u mth name else None) of
              Some r \<Rightarrow> deny_decision r
            | None \<Rightarrow> allow_loop e [] (rules e) p u mth name mode)
      else (case (if hasDeny e then deny_loop_args (rules e) p u mth name ev mode else None) of
              Some r \<Rightarrow> deny_decision r
            | None \<Rightarrow> allow_loop_args e '''' [] (rules e) p u mth name ev mode))"

definition Decide :: "Engine \<Rightarrow> Principal option \<Rightarrow> string \<Rightarrow> string \<Rightarrow> string \<Rightarrow> Decision" where
  "Decide e p u mth name = decide e p u mth name no_evidence argIgnore"

definition DecideList ::
  "Engine \<Rightarrow> Principal option \<Rightarrow> string \<Rightarrow> string \<Rightarrow> string \<Rightarrow> AnnotationSource \<Rightarrow> Decision" where
  "DecideList e p u mth name tool = decide e p u mth name \<lparr>ev_Args = None, ev_Tool = tool\<rparr> argIgnore"

definition DecideCall ::
  "Engine \<Rightarrow> Principal option \<Rightarrow> string \<Rightarrow> string \<Rightarrow> string \<Rightarrow> Evidence \<Rightarrow> Decision" where
  "DecideCall e p u mth name ev = decide e p u mth name ev argEnforce"

definition NeedsArguments :: "Engine \<Rightarrow> bool" where
  "NeedsArguments e = hasArgs e"

definition NeedsAnnotations :: "Engine \<Rightarrow> bool" where
  "NeedsAnnotations e = hasKind e"

definition DecideServerInitiated :: "Engine \<Rightarrow> Principal option \<Rightarrow> string \<Rightarrow> string \<Rightarrow> Decision" where
  "DecideServerInitiated e p u mth =
     (if \<not> enabled e \<or> serverInitiatedAllow e
      then \<lparr>Allowed = True, RuleID = '''', MaxItems = 0, FailedArg = '''', MissingScopes = []\<rparr>
      else Decide e p u mth '''')"

definition Visible :: "Engine \<Rightarrow> Principal option \<Rightarrow> string \<Rightarrow> string \<Rightarrow> string \<Rightarrow> bool" where
  "Visible e p u invokeMethod name = Allowed (Decide e p u invokeMethod name)"

lemmas decision_defs = allow_decision_def deny_decision_def default_decision_def
lemmas entry_defs = Decide_def DecideList_def DecideCall_def

subsection \<open>Patterns mean what they say\<close>

text \<open>
  The meaning of a pattern, character by character: a star stands for any text, every other
  character for itself.
\<close>

fun wild :: "string \<Rightarrow> string \<Rightarrow> bool" where
  "wild [] s = (s = [])"
| "wild (c # p) s =
     (if c = CHR ''*'' then list_ex (\<lambda>k. wild p (drop k s)) [0..<Suc (length s)]
      else (case s of [] \<Rightarrow> False | x # xs \<Rightarrow> x = c \<and> wild p xs))"

text \<open>The same meaning read off the parts between the stars: the parts in order, text in between.\<close>

fun parts_match :: "string list \<Rightarrow> string \<Rightarrow> bool" where
  "parts_match [] s = False"
| "parts_match [p] s = (s = p)"
| "parts_match (p # ps) s = (\<exists>g rest. s = p @ g @ rest \<and> parts_match ps rest)"

definition tail_match :: "string list \<Rightarrow> string \<Rightarrow> bool" where
  "tail_match ps s \<longleftrightarrow> (\<exists>g rest. s = g @ rest \<and> parts_match ps rest)"

lemma parts_match_Cons: "ps \<noteq> [] \<Longrightarrow> parts_match (p # ps) s \<longleftrightarrow> (\<exists>t. s = p @ t \<and> tail_match ps t)"
  by (cases ps) (auto simp: tail_match_def)

lemma tail_match_append: "tail_match ps s \<Longrightarrow> tail_match ps (t @ s)"
  unfolding tail_match_def by (metis append_assoc)

lemma tail_match_single: "tail_match [p] s \<longleftrightarrow> suffix p s"
  by (auto simp: tail_match_def suffix_def)

text \<open>Taking the leftmost occurrence of an inner part loses no match.\<close>

lemma tail_match_leftmost:
  assumes "ps \<noteq> []"
  shows "tail_match (p # ps) s \<longleftrightarrow>
    (case str_index s p of None \<Rightarrow> False | Some i \<Rightarrow> tail_match ps (drop (i + length p) s))"
proof
  assume "tail_match (p # ps) s"
  then obtain g t where s: "s = g @ p @ t" and t: "tail_match ps t"
    using assms unfolding tail_match_def by (auto simp: parts_match_Cons) (metis tail_match_def)
  then obtain i where i: "str_index s p = Some i"
    using str_index_append_ne [of g p t] by blast
  have "i \<le> length g" using str_index_leftmost [OF i s] .
  then have "drop (i + length p) s = drop i (g @ p) @ t \<or> (\<exists>u. drop (i + length p) s = u @ t)"
    by (auto simp: s drop_append)
  then have "\<exists>u. drop (i + length p) s = u @ t"
    using \<open>i \<le> length g\<close> by (auto simp: s)
  with t i show "case str_index s p of None \<Rightarrow> False | Some i \<Rightarrow> tail_match ps (drop (i + length p) s)"
    by (auto simp: tail_match_append)
next
  assume "case str_index s p of None \<Rightarrow> False | Some i \<Rightarrow> tail_match ps (drop (i + length p) s)"
  then obtain i where i: "str_index s p = Some i" and t: "tail_match ps (drop (i + length p) s)"
    by (auto split: option.splits)
  have "parts_match (p # ps) (p @ drop (i + length p) s)"
    using assms t by (auto simp: parts_match_Cons)
  moreover have "s = take i s @ p @ drop (i + length p) s"
    by (rule str_index_Some_split [OF i])
  ultimately show "tail_match (p # ps) s" unfolding tail_match_def by blast
qed

lemma match_inner_correct:
  "ps \<noteq> [] \<Longrightarrow>
     (case match_inner (butlast ps) s of None \<Rightarrow> False | Some rest \<Rightarrow> suffix (last ps) rest)
       = tail_match ps s"
proof (induction ps arbitrary: s)
  case (Cons p ps)
  show ?case
  proof (cases "ps = []")
    case True
    then show ?thesis by (simp add: tail_match_single)
  next
    case False
    then have "last (p # ps) = last ps" by simp
    with False show ?thesis
      by (cases "str_index s p") (simp_all only: tail_match_leftmost [OF False] Cons.IH [OF False] butlast.simps
          match_inner.simps option.case if_False)
  qed
qed simp

lemma glob_match_parts:
  "glob_match g name = parts_match (parts g) name"
proof (cases "parts g")
  case Nil
  then show ?thesis by (simp add: glob_match_def)
next
  case (Cons p ps)
  show ?thesis
  proof (cases "ps = []")
    case True
    with Cons show ?thesis by (auto simp: glob_match_def)
  next
    case False
    with Cons have "glob_match g name = (prefix p name \<and> tail_match ps (drop (length p) name))"
      using match_inner_correct [OF False, of "drop (length p) name"]
      by (auto simp: glob_match_def split: list.splits)
    also have "\<dots> = (\<exists>t. name = p @ t \<and> tail_match ps t)"
      by (auto simp: prefix_def)
    finally show ?thesis using Cons False by (simp add: parts_match_Cons)
  qed
qed

lemma parts_match_hd: "parts_match ((x # p) # ps) s \<longleftrightarrow> (\<exists>t. s = x # t \<and> parts_match (p # ps) t)"
  by (cases ps) auto

lemma wild_parts: "wild pat s = parts_match (str_split CHR ''*'' pat) s"
proof (induction pat arbitrary: s)
  case Nil
  then show ?case by simp
next
  case (Cons c pat)
  show ?case
  proof (cases "c = CHR ''*''")
    case True
    have "(\<exists>k < Suc (length s). wild pat (drop k s)) \<longleftrightarrow> (\<exists>g rest. s = g @ rest \<and> wild pat rest)"
      by (metis append_take_drop_id append_eq_conv_conj le_imp_less_Suc length_append le_add1)
    with True Cons show ?thesis
      by (simp add: list_ex_iff Bex_def parts_match_Cons tail_match_def del: upt_Suc)
  next
    case False
    obtain p ps where "str_split CHR ''*'' pat = p # ps"
      by (metis neq_Nil_conv str_split_ne)
    with False Cons show ?thesis
      by (auto simp: parts_match_hd split: list.splits)
  qed
qed

text \<open>
  C3. A pattern matches a name exactly when the name can be read off it with every star standing
  for some text and every other character for itself: splitting at the stars and taking the
  leftmost occurrence of each inner part is exact, wherever the stars stand and however many.
\<close>

theorem globMatch_is_wild: "globMatch pattern name = wild pattern name"
  by (simp add: globMatch_def glob_match_parts compileGlob_def wild_parts)

subsection \<open>What a policy document means\<close>

text \<open>
  The meaning of a document, without compilation, flags, loops or early exits: an invocation is
  permitted when no rule that covers the caller denies it and some rule that covers the caller
  grants it, or the default says so.
\<close>

definition claim_spec :: "json_map \<Rightarrow> string \<times> json \<Rightarrow> bool" where
  "claim_spec claims kw \<longleftrightarrow>
     (\<exists>got. fmlookup claims (fst kw) = Some got \<and>
        (case got of JArr arr \<Rightarrow> snd kw \<in> set arr | _ \<Rightarrow> got = snd kw))"

definition subjects_spec :: "PolicySubjects \<Rightarrow> Principal \<Rightarrow> bool" where
  "subjects_spec s p \<longleftrightarrow>
     (ps_Issuers s = [] \<or> p_Issuer p \<in> set (ps_Issuers s)) \<and>
     (\<forall>kw \<in> set (ps_Claims s). claim_spec (p_Claims p) kw) \<and>
     set (ps_Scopes s) \<subseteq> set (p_Scopes p) \<and>
     (if ps_Subs s = [] \<and> ps_Groups s = []
      then ps_Issuers s \<noteq> [] \<or> ps_Claims s \<noteq> [] \<or> ps_Scopes s \<noteq> []
      else p_Subject p \<in> set (ps_Subs s) \<or> set (ps_Groups s) \<inter> set (p_Groups p) \<noteq> {})"

definition covers :: "PolicyRule \<Rightarrow> Principal option \<Rightarrow> bool" where
  "covers r p \<longleftrightarrow>
     (case pr_Subjects r of None \<Rightarrow> True
      | Some s \<Rightarrow> (case p of None \<Rightarrow> False | Some p' \<Rightarrow> subjects_spec s p'))"

definition kind_spec :: "string \<Rightarrow> AnnotationSource \<Rightarrow> bool" where
  "kind_spec k src \<longleftrightarrow>
     (k = ''readOnly'' \<longrightarrow> (\<exists>a. src = Some (Some a) \<and> ReadOnly a)) \<and>
     (k = ''nonDestructive'' \<longrightarrow> (\<exists>a. src = Some (Some a) \<and> (ReadOnly a \<or> \<not> Destructive a)))"

definition args_spec :: "(string \<times> json) list \<Rightarrow> ArgSource \<Rightarrow> bool" where
  "args_spec wants src \<longleftrightarrow>
     (\<exists>got. src = Some (Some got) \<and>
        (\<forall>(path, want) \<in> set wants. lookupPath got (str_split CHR ''.'' path) = Some want))"

definition clause_spec ::
  "PolicyAllow \<Rightarrow> string \<Rightarrow> string \<Rightarrow> string \<Rightarrow> Evidence \<Rightarrow> argMode \<Rightarrow> bool" where
  "clause_spec a u mth name ev mode \<longleftrightarrow>
     (pa_Server a = ''*'' \<or> pa_Server a = u) \<and>
     (pa_Methods a = [] \<or> mth \<in> set (pa_Methods a)) \<and>
     (pa_Names a = [] \<or> (\<exists>pattern \<in> set (pa_Names a). wild pattern name)) \<and>
     kind_spec (pa_ToolKind a) (ev_Tool ev) \<and>
     (pa_Args a = [] \<or> mode = argIgnore \<or> mode = argEnforce \<and> args_spec (pa_Args a) (ev_Args ev))"

abbreviation deny_mode :: "argMode \<Rightarrow> argMode" where
  "deny_mode mode \<equiv> (if mode = argIgnore then argSkip else mode)"

definition grants :: "PolicyRule \<Rightarrow> Principal option \<Rightarrow> string \<Rightarrow> string \<Rightarrow> string \<Rightarrow> Evidence \<Rightarrow> argMode \<Rightarrow> bool" where
  "grants r p u mth name ev mode \<longleftrightarrow>
     covers r p \<and> (\<exists>a \<in> set (pr_Allow r). clause_spec a u mth name ev mode)"

definition denies :: "PolicyRule \<Rightarrow> Principal option \<Rightarrow> string \<Rightarrow> string \<Rightarrow> string \<Rightarrow> Evidence \<Rightarrow> argMode \<Rightarrow> bool" where
  "denies r p u mth name ev mode \<longleftrightarrow>
     covers r p \<and> (\<exists>a \<in> set (pr_Deny r). clause_spec a u mth name ev (deny_mode mode))"

definition permits :: "Policy \<Rightarrow> Principal option \<Rightarrow> string \<Rightarrow> string \<Rightarrow> string \<Rightarrow> Evidence \<Rightarrow> argMode \<Rightarrow> bool" where
  "permits c p u mth name ev mode \<longleftrightarrow>
     (\<forall>r \<in> set (pol_Rules c). \<not> denies r p u mth name ev mode) \<and>
     (pol_DefaultDecision c = ''allow'' \<or> (\<exists>r \<in> set (pol_Rules c). grants r p u mth name ev mode))"

subsection \<open>The matchers implement the meaning\<close>

lemma claimEqual_eq [simp]: "claimEqual got want \<longleftrightarrow> got = want"
  by (auto simp: claimEqual_def split: json.splits)

lemma claim_ok_spec: "claim_ok claims k want \<longleftrightarrow> claim_spec claims (k, want)"
  by (auto simp: claim_ok_def claim_spec_def list_ex_iff split: option.splits json.splits)

lemma claimsMatch_spec: "claimsMatch req claims \<longleftrightarrow> (\<forall>kw \<in> set req. claim_spec claims kw)"
  by (auto simp: claimsMatch_def list_all_iff claim_ok_spec)

lemma missingScopes_empty: "missingScopes req scs = [] \<longleftrightarrow> set req \<subseteq> set scs"
  by (auto simp: missingScopes_def filter_empty_conv)

lemma subjectsMatch_None [simp]: "subjectsMatch None p" "subjectsMatchWhy None p = (True, [])"
  by (simp_all add: subjectsMatch_def subjectsMatchWhy_def)

lemma subjectsMatch_anonymous [simp]: "\<not> subjectsMatch (Some s) None"
  by (simp add: subjectsMatch_def subjectsMatchWhy_def)

lemma subjectsMatch_spec: "subjectsMatch (Some s) (Some p) \<longleftrightarrow> subjects_spec s p"
  by (auto simp: subjectsMatch_def subjectsMatchWhy_def subjects_spec_def claimsMatch_spec
      missingScopes_empty list_ex_iff Let_def)

lemma subjectsMatch_covers: "subjectsMatch (pr_Subjects r) p \<longleftrightarrow> covers r p"
  by (auto simp: covers_def subjectsMatch_spec split: option.split)

lemma subjectsMatchWhy_ok: "fst (subjectsMatchWhy s p) \<longleftrightarrow> subjectsMatch s p"
  by (simp add: subjectsMatch_def)

lemma subjectsMatchWhy_True: "subjectsMatchWhy s p = (True, unmet) \<Longrightarrow> unmet = []"
  by (auto simp: subjectsMatchWhy_def Let_def split: option.splits if_splits)

lemma first_unmet_ok:
  "fst (first_unmet got cs) \<longleftrightarrow> (\<forall>c \<in> set cs. lookupPath got (ca_path c) = Some (ca_value c))"
  by (induction cs) (auto split: option.splits)

lemma argsSatisfied_ok:
  "cs \<noteq> [] \<Longrightarrow> fst (argsSatisfied cs src) \<longleftrightarrow>
     (\<exists>got. src = Some (Some got) \<and> (\<forall>c \<in> set cs. lookupPath got (ca_path c) = Some (ca_value c)))"
  by (cases cs) (auto simp: argsSatisfied_def first_unmet_ok simp del: first_unmet.simps
      split: option.splits)

lemma compile_args_set:
  "set (c_args (compileClause a)) =
     (\<lambda>(path, want). \<lparr>ca_path = str_split CHR ''.'' path, ca_value = want\<rparr>) ` set (pa_Args a)"
  by (simp add: compileClause_def)

lemma compile_args_empty [simp]: "c_args (compileClause a) = [] \<longleftrightarrow> pa_Args a = []"
  using compile_args_set [of a] by (metis image_is_empty set_empty)

lemma argsSatisfied_spec:
  assumes "pa_Args a \<noteq> []"
  shows "fst (argsSatisfied (c_args (compileClause a)) src) \<longleftrightarrow> args_spec (pa_Args a) src"
proof -
  have "c_args (compileClause a) \<noteq> []" using assms by simp
  then show ?thesis by (simp add: argsSatisfied_ok compile_args_set args_spec_def case_prod_unfold)
qed

lemma clause_names_spec:
  "clause_names (compileClause a) u mth name \<longleftrightarrow>
     (pa_Server a = ''*'' \<or> pa_Server a = u) \<and>
     (pa_Methods a = [] \<or> mth \<in> set (pa_Methods a)) \<and>
     (pa_Names a = [] \<or> (\<exists>pattern \<in> set (pa_Names a). wild pattern name))"
  by (auto simp: clause_names_def compileClause_def globAny_def list_ex_iff globMatch_def
      glob_match_parts compileGlob_def wild_parts)

lemma kindAdmits_spec:
  "(c_kind (compileClause a) = kindAny \<or> kindAdmits (c_kind (compileClause a)) src)
     \<longleftrightarrow> kind_spec (pa_ToolKind a) src"
  by (auto simp: compileClause_def compileKind_def kindAdmits_def kind_spec_def admits_def
      split: option.splits)

lemma clause_spec_compiled:
  "clause_spec a u mth name ev mode \<longleftrightarrow>
     clause_names (compileClause a) u mth name \<and>
     (c_kind (compileClause a) = kindAny \<or> kindAdmits (c_kind (compileClause a)) (ev_Tool ev)) \<and>
     (c_args (compileClause a) = [] \<or> mode = argIgnore \<or>
      mode = argEnforce \<and> fst (argsSatisfied (c_args (compileClause a)) (ev_Args ev)))"
  by (auto simp: clause_spec_def clause_names_spec kindAdmits_spec argsSatisfied_spec)

lemma matchesArgs_loop_spec:
  "fst (matchesArgs_loop failed (compileClauses as) u mth name ev mode) \<longleftrightarrow>
     (\<exists>a \<in> set as. clause_spec a u mth name ev mode)"
proof (induction as arbitrary: failed)
  case (Cons a as)
  show ?case
    using Cons.IH
    by (cases mode) (auto simp: compileClauses_def clause_spec_compiled split: prod.splits)
qed (simp add: compileClauses_def)

lemma matchesArgs_spec:
  "fst (matchesArgs (compileClauses as) u mth name ev mode) \<longleftrightarrow>
     (\<exists>a \<in> set as. clause_spec a u mth name ev mode)"
  by (simp add: matchesArgs_def matchesArgs_loop_spec)

lemma matches_names:
  "matches (compileClauses as) u mth name \<longleftrightarrow>
     (\<exists>a \<in> set as. clause_names (compileClause a) u mth name)"
  by (auto simp: matches_def compileClauses_def list_ex_iff)

subsection \<open>The short path is the long path\<close>

text \<open>A document none of whose clauses looks at arguments or annotations.\<close>

definition plain :: "compiledRule list \<Rightarrow> bool" where
  "plain rs \<longleftrightarrow> (\<forall>r \<in> set rs. \<forall>a \<in> set (r_allow r) \<union> set (r_deny r). c_args a = [] \<and> c_kind a = kindAny)"

lemma matchesArgs_loop_plain:
  "\<forall>a \<in> set as. c_args a = [] \<and> c_kind a = kindAny \<Longrightarrow>
     matchesArgs_loop failed as u mth name ev mode =
       (if matches as u mth name then (True, '''') else (False, failed))"
  by (induction as) (auto simp: matches_def)

lemma matchesArgs_plain:
  "\<forall>a \<in> set as. c_args a = [] \<and> c_kind a = kindAny \<Longrightarrow>
     matchesArgs as u mth name ev mode = (matches as u mth name, '''')"
  by (simp add: matchesArgs_def matchesArgs_loop_plain)

lemma deny_loop_plain:
  "plain rs \<Longrightarrow> deny_loop_args rs p u mth name ev mode = deny_loop rs p u mth name"
  by (induction rs) (auto simp: plain_def matchesArgs_plain Let_def)

lemma allow_loop_plain:
  "plain rs \<Longrightarrow> allow_loop_args e '''' short rs p u mth name ev mode = allow_loop e short rs p u mth name mode"
  by (induction rs arbitrary: short) (auto simp: plain_def matchesArgs_plain split: prod.split)

lemma New_plain:
  "\<not> hasArgs (New_engine (Some c)) \<Longrightarrow> \<not> hasKind (New_engine (Some c)) \<Longrightarrow> plain (rules (New_engine (Some c)))"
  by (fastforce simp: New_engine_def Let_def plain_def list_ex_iff)

lemma New_engine_simps [simp]:
  "enabled (New_engine (Some c))"
  "rules (New_engine (Some c)) = map compileRule (pol_Rules c)"
  "defaultAllow (New_engine (Some c)) \<longleftrightarrow> pol_DefaultDecision c = ''allow''"
  "hasDeny (New_engine (Some c)) \<longleftrightarrow> (\<exists>r \<in> set (pol_Rules c). pr_Deny r \<noteq> [])"
  by (auto simp: New_engine_def Let_def list_ex_iff compileRule_def compileClauses_def)

text \<open>The argument-aware path, taken unconditionally: the reference for the short one.\<close>

definition decide_long ::
  "Engine \<Rightarrow> Principal option \<Rightarrow> string \<Rightarrow> string \<Rightarrow> string \<Rightarrow> Evidence \<Rightarrow> argMode \<Rightarrow> Decision" where
  "decide_long e p u mth name ev mode =
     (case deny_loop_args (rules e) p u mth name ev mode of
        Some r \<Rightarrow> deny_decision r
      | None \<Rightarrow> allow_loop_args e '''' [] (rules e) p u mth name ev mode)"

lemma deny_loop_args_no_deny:
  "\<forall>r \<in> set rs. r_deny r = [] \<Longrightarrow> deny_loop_args rs p u mth name ev mode = None"
  by (induction rs) auto

lemma deny_loop_no_deny: "\<forall>r \<in> set rs. r_deny r = [] \<Longrightarrow> deny_loop rs p u mth name = None"
  by (induction rs) auto

lemma decide_eq_long:
  "decide (New_engine (Some c)) p u mth name ev mode = decide_long (New_engine (Some c)) p u mth name ev mode"
proof -
  let ?e = "New_engine (Some c)"
  have nd: "\<forall>r \<in> set (rules ?e). r_deny r = []" if "\<not> hasDeny ?e"
    using that by (auto simp: compileRule_def compileClauses_def)
  show ?thesis
  proof (cases "hasArgs ?e \<or> hasKind ?e")
    case True
    then show ?thesis
      using deny_loop_args_no_deny [OF nd] by (cases "hasDeny ?e") (auto simp: decide_def decide_long_def)
  next
    case False
    then have "plain (rules ?e)" using New_plain by blast
    then show ?thesis
      using False deny_loop_no_deny [OF nd]
      by (cases "hasDeny ?e")
        (auto simp: decide_def decide_long_def deny_loop_plain allow_loop_plain split: option.split)
  qed
qed

text \<open>
  C4. The accelerations change nothing: for every document, skipping the deny pass when no rule
  denies, and skipping arguments and annotations when no rule looks at them, yields the very
  decision (verdict, rule, cap, failed argument and missing scopes) of the full evaluation.
\<close>

theorem short_path_equals_long_path:
  "decide (New_engine (Some c)) p u mth name ev mode =
     (case deny_loop_args (rules (New_engine (Some c))) p u mth name ev mode of
        Some r \<Rightarrow> deny_decision r
      | None \<Rightarrow> allow_loop_args (New_engine (Some c)) '''' [] (rules (New_engine (Some c))) p u mth name ev mode)"
  by (simp only: decide_eq_long decide_long_def)

subsection \<open>The engine implements the document\<close>

lemma deny_loop_args_spec:
  "deny_loop_args (map compileRule rs) p u mth name ev mode =
     map_option compileRule (find (\<lambda>r. denies r p u mth name ev mode) rs)"
proof (induction rs)
  case (Cons r rs)
  have "(r_deny (compileRule r) \<noteq> [] \<and> subjectsMatch (r_subjects (compileRule r)) p \<and>
         fst (matchesArgs (r_deny (compileRule r)) u mth name ev (deny_mode mode)))
        \<longleftrightarrow> denies r p u mth name ev mode"
    unfolding denies_def compileRule_def compiledRule.simps matchesArgs_spec subjectsMatch_covers
    by (auto simp: compileClauses_def)
  with Cons show ?case by (auto simp: Let_def simp del: matchesArgs_loop.simps)
qed simp

lemma grants_compiled:
  "(subjectsMatch (r_subjects (compileRule r)) p \<and>
    fst (matchesArgs (r_allow (compileRule r)) u mth name ev mode)) \<longleftrightarrow> grants r p u mth name ev mode"
  unfolding grants_def compileRule_def compiledRule.simps matchesArgs_spec subjectsMatch_covers ..

lemma allow_loop_args_Allowed:
  "Allowed (allow_loop_args e blocked short (map compileRule rs) p u mth name ev mode) \<longleftrightarrow>
     defaultAllow e \<or> (\<exists>r \<in> set rs. grants r p u mth name ev mode)"
proof (induction rs arbitrary: blocked short)
  case Nil
  then show ?case by (simp add: decision_defs)
next
  case (Cons r rs)
  show ?case
    using Cons.IH grants_compiled [of r p u mth name ev mode]
    by (auto simp: decision_defs subjectsMatchWhy_ok [symmetric] split: prod.splits)
qed

lemma find_None_ball: "find P xs = None \<longleftrightarrow> (\<forall>x \<in> set xs. \<not> P x)"
  by (auto simp: find_None_iff)

lemma decide_permits:
  "Allowed (decide (New_engine (Some c)) p u mth name ev mode) \<longleftrightarrow> permits c p u mth name ev mode"
proof (cases "find (\<lambda>r. denies r p u mth name ev mode) (pol_Rules c)")
  case None
  then have "deny_loop_args (rules (New_engine (Some c))) p u mth name ev mode = None"
    by (simp add: deny_loop_args_spec)
  moreover have "\<forall>r \<in> set (pol_Rules c). \<not> denies r p u mth name ev mode"
    using None by (simp add: find_None_ball)
  ultimately show ?thesis
    by (simp add: decide_eq_long decide_long_def allow_loop_args_Allowed permits_def)
next
  case (Some r)
  then have "r \<in> set (pol_Rules c)" "denies r p u mth name ev mode"
    by (auto simp: find_Some_iff)
  with Some show ?thesis
    by (auto simp: decide_eq_long decide_long_def deny_loop_args_spec permits_def decision_defs)
qed

text \<open>
  C1. The engine decides exactly what the document says: for every document, caller, invocation,
  evidence and mode, the verdict is \<open>allow\<close> if and only if no rule covering the caller denies the
  invocation and either a rule covering the caller grants it or the default decision is
  \<open>"allow"\<close>.
\<close>

theorem decide_implements_document:
  "Allowed (decide (New_engine (Some c)) p u mth name ev mode) \<longleftrightarrow>
     (\<forall>r \<in> set (pol_Rules c). \<not> denies r p u mth name ev mode) \<and>
     (pol_DefaultDecision c = ''allow'' \<or> (\<exists>r \<in> set (pol_Rules c). grants r p u mth name ev mode))"
  unfolding decide_permits permits_def ..

definition example_allow :: "string \<Rightarrow> string list \<Rightarrow> PolicyAllow" where
  "example_allow server names =
     \<lparr>pa_Server = server, pa_Methods = [], pa_Names = names, pa_Args = [], pa_ToolKind = ''''\<rparr>"

definition example_policy :: Policy where
  "example_policy =
     \<lparr>pol_DefaultDecision = ''deny'',
      pol_Rules =
        [\<lparr>pr_ID = ''all'', pr_Subjects = None, pr_Allow = [example_allow ''gh'' []], pr_Deny = [],
          pr_MaxItems = 0\<rparr>,
         \<lparr>pr_ID = ''no-delete'', pr_Subjects = None, pr_Allow = [],
          pr_Deny = [example_allow ''*'' [''delete_*'']], pr_MaxItems = 0\<rparr>],
      pol_ServerInitiatedDecision = ''deny''\<rparr>"

lemmas example_defs = example_policy_def example_allow_def no_evidence_def denies_def grants_def
  covers_def clause_spec_def kind_spec_def

theorem decide_implements_document_witness:
  "Allowed (decide (New_engine (Some example_policy)) None ''gh'' ''tools/call'' ''read'' no_evidence argEnforce)
   \<and> \<not> Allowed (decide (New_engine (Some example_policy)) None ''gh'' ''tools/call'' ''delete_x'' no_evidence argEnforce)"
  unfolding decide_implements_document by (simp add: example_defs)

text \<open>
  C2. An explicit deny wins, wherever it stands: if any rule that covers the caller denies the
  invocation, the verdict is deny whatever the other rules grant and wherever they stand, and the
  decision names the first such rule of the document.
\<close>

theorem deny_wins:
  assumes "r \<in> set (pol_Rules c)" and "denies r p u mth name ev mode"
  shows "\<exists>r'. find (\<lambda>r. denies r p u mth name ev mode) (pol_Rules c) = Some r' \<and>
           decide (New_engine (Some c)) p u mth name ev mode =
             \<lparr>Allowed = False, RuleID = pr_ID r', MaxItems = 0, FailedArg = '''', MissingScopes = []\<rparr>"
proof -
  obtain r' where "find (\<lambda>r. denies r p u mth name ev mode) (pol_Rules c) = Some r'"
    using assms by (metis find_None_ball not_Some_eq)
  then show ?thesis
    by (simp add: decide_eq_long decide_long_def deny_loop_args_spec deny_decision_def compileRule_def)
qed

theorem deny_wins_witness:
  "decide (New_engine (Some example_policy)) None ''gh'' ''tools/call'' ''delete_x'' no_evidence argEnforce =
     \<lparr>Allowed = False, RuleID = ''no-delete'', MaxItems = 0, FailedArg = '''', MissingScopes = []\<rparr>"
proof -
  let ?r = "pol_Rules example_policy ! 1"
  have "?r \<in> set (pol_Rules example_policy)" by (simp add: example_policy_def)
  moreover have "denies ?r None ''gh'' ''tools/call'' ''delete_x'' no_evidence argEnforce"
    by (simp add: example_defs)
  ultimately obtain r' where
    "find (\<lambda>r. denies r None ''gh'' ''tools/call'' ''delete_x'' no_evidence argEnforce) (pol_Rules example_policy) = Some r'"
    "decide (New_engine (Some example_policy)) None ''gh'' ''tools/call'' ''delete_x'' no_evidence argEnforce =
      \<lparr>Allowed = False, RuleID = pr_ID r', MaxItems = 0, FailedArg = '''', MissingScopes = []\<rparr>"
    using deny_wins [of ?r example_policy] by blast
  then show ?thesis by (auto simp: example_defs)
qed

text \<open>
  Where a rule was pasted does not matter: two documents with the same rules in any order, and
  the same default, give the same verdict on every invocation.
\<close>

theorem rule_order_irrelevant:
  assumes "set (pol_Rules c) = set (pol_Rules c')"
    and "pol_DefaultDecision c = pol_DefaultDecision c'"
  shows "Allowed (decide (New_engine (Some c)) p u mth name ev mode) =
         Allowed (decide (New_engine (Some c')) p u mth name ev mode)"
  using assms by (simp add: decide_permits permits_def)

theorem rule_order_irrelevant_witness:
  "Allowed (decide (New_engine (Some example_policy)) None ''gh'' ''tools/call'' ''delete_x'' no_evidence argEnforce) =
   Allowed (decide (New_engine (Some (example_policy\<lparr>pol_Rules := rev (pol_Rules example_policy)\<rparr>)))
     None ''gh'' ''tools/call'' ''delete_x'' no_evidence argEnforce)"
  by (rule rule_order_irrelevant) simp_all

subsection \<open>Seeing and calling\<close>

lemma clause_spec_weaken:
  "clause_spec a u mth name ev argEnforce \<Longrightarrow> ev_Tool ev' = ev_Tool ev \<Longrightarrow> clause_spec a u mth name ev' argIgnore"
  by (auto simp: clause_spec_def)

lemma clause_spec_skip:
  "clause_spec a u mth name ev' argSkip \<Longrightarrow> ev_Tool ev' = ev_Tool ev \<Longrightarrow> clause_spec a u mth name ev argEnforce"
  by (auto simp: clause_spec_def)

text \<open>
  Whatever can be called can be seen: an invocation the engine would allow with some arguments
  is an item the engine leaves in the caller's list, given the same tool annotations. Argument
  constraints can make a visible tool refuse a call, never hide a callable one.
\<close>

theorem callable_is_visible:
  assumes "Allowed (DecideCall (New_engine (Some c)) p u mth name ev)"
  shows "Allowed (DecideList (New_engine (Some c)) p u mth name (ev_Tool ev))"
proof -
  let ?ev = "\<lparr>ev_Args = None, ev_Tool = ev_Tool ev\<rparr>"
  from assms have P: "permits c p u mth name ev argEnforce" by (simp add: DecideCall_def decide_permits)
  have "denies r p u mth name ev argEnforce" if "denies r p u mth name ?ev argIgnore" for r
    using that by (auto simp: denies_def dest: clause_spec_skip [where ev = ev])
  moreover have "grants r p u mth name ?ev argIgnore" if "grants r p u mth name ev argEnforce" for r
    using that by (auto simp: grants_def dest: clause_spec_weaken [where ev' = ?ev])
  ultimately have "permits c p u mth name ?ev argIgnore" using P unfolding permits_def by blast
  then show ?thesis by (simp add: DecideList_def decide_permits)
qed

theorem callable_is_visible_witness:
  "Allowed (DecideList (New_engine (Some example_policy)) None ''gh'' ''tools/call'' ''read'' None)"
  using callable_is_visible [of example_policy None "''gh''" "''tools/call''" "''read''" no_evidence]
  by (simp add: DecideCall_def decide_permits permits_def example_defs)

definition args_free :: "Policy \<Rightarrow> bool" where
  "args_free c \<longleftrightarrow> (\<forall>r \<in> set (pol_Rules c). \<forall>a \<in> set (pr_Allow r) \<union> set (pr_Deny r). pa_Args a = [])"

lemma clause_spec_args_free:
  "pa_Args a = [] \<Longrightarrow> ev_Tool ev = ev_Tool ev' \<Longrightarrow> clause_spec a u mth name ev mode = clause_spec a u mth name ev' mode'"
  by (simp add: clause_spec_def)

text \<open>
  Filtering the list and refusing the call are one decision: under a document with no argument
  constraints, an item is in the caller's list exactly when the caller may invoke it.
\<close>

theorem visible_iff_callable:
  assumes "args_free c"
  shows "Allowed (DecideList (New_engine (Some c)) p u mth name (ev_Tool ev)) =
         Allowed (DecideCall (New_engine (Some c)) p u mth name ev)"
proof -
  let ?ev = "\<lparr>ev_Args = None, ev_Tool = ev_Tool ev\<rparr>"
  have same: "clause_spec a u mth name ?ev m = clause_spec a u mth name ev m'"
    if "r \<in> set (pol_Rules c)" "a \<in> set (pr_Allow r) \<union> set (pr_Deny r)" for r a m m'
    using that assms by (intro clause_spec_args_free) (auto simp: args_free_def)
  have "denies r p u mth name ?ev argIgnore = denies r p u mth name ev argEnforce"
    and "grants r p u mth name ?ev argIgnore = grants r p u mth name ev argEnforce"
    if "r \<in> set (pol_Rules c)" for r
    using same [OF that, where m = argSkip and m' = argEnforce]
      same [OF that, where m = argIgnore and m' = argEnforce]
    by (auto simp: denies_def grants_def)
  then show ?thesis by (simp add: entry_defs decide_permits permits_def)
qed

theorem visible_iff_callable_witness:
  "Allowed (DecideList (New_engine (Some example_policy)) None ''gh'' ''tools/call'' ''delete_x'' None) =
   Allowed (DecideCall (New_engine (Some example_policy)) None ''gh'' ''tools/call'' ''delete_x'' no_evidence)"
  using visible_iff_callable [of example_policy None "''gh''" "''tools/call''" "''delete_x''" no_evidence]
  by (simp add: args_free_def example_policy_def example_allow_def no_evidence_def)

subsection \<open>The scopes a denial names\<close>

definition with_scopes :: "Principal \<Rightarrow> string list \<Rightarrow> Principal" where
  "with_scopes p scs = p\<lparr>p_Scopes := p_Scopes p @ scs\<rparr>"

lemma unmet_lacking:
  "subjectsMatchWhy s (Some p) = (ok, unmet) \<Longrightarrow> sc \<in> set unmet \<Longrightarrow> sc \<notin> set (p_Scopes p)"
  by (auto simp: subjectsMatchWhy_def missingScopes_def Let_def split: option.splits if_splits)

lemma unmet_named:
  "subjectsMatchWhy so (Some p) = (ok, unmet) \<Longrightarrow> sc \<in> set unmet \<Longrightarrow>
     \<exists>s. so = Some s \<and> sc \<in> set (ps_Scopes s)"
  by (auto simp: subjectsMatchWhy_def missingScopes_def Let_def split: option.splits if_splits)

text \<open>Scopes are reported only when they are all that is missing: with them the rule matches.\<close>

lemma unmet_suffices:
  assumes "subjectsMatchWhy (Some s) (Some p) = (False, unmet)" and "unmet \<noteq> []"
    and "set unmet \<subseteq> set scs"
  shows "subjectsMatch (Some s) (Some (with_scopes p scs))"
proof -
  from assms(1,2) have
    "ps_Issuers s = [] \<or> p_Issuer p \<in> set (ps_Issuers s)" "claimsMatch (ps_Claims s) (p_Claims p)"
    "unmet = missingScopes (ps_Scopes s) (p_Scopes p)"
    "ps_Subs s = [] \<and> ps_Groups s = [] \<or> p_Subject p \<in> set (ps_Subs s) \<or>
       set (ps_Groups s) \<inter> set (p_Groups p) \<noteq> {}"
    by (auto simp: subjectsMatchWhy_def Let_def list_ex_iff split: if_splits)
  moreover from this(3) assms(2,3) have "set (ps_Scopes s) \<subseteq> set (p_Scopes p) \<union> set scs" "ps_Scopes s \<noteq> []"
    by (auto simp: missingScopes_def)
  ultimately show ?thesis
    by (auto simp: subjectsMatch_spec subjects_spec_def claimsMatch_spec with_scopes_def)
qed

lemma shortfall_add_set: "set (shortfall_add out scs) = set out \<union> set scs"
  by (induction out scs rule: shortfall_add.induct) auto

lemma shortfall_add_distinct: "distinct out \<Longrightarrow> distinct (shortfall_add out scs)"
  by (induction out scs rule: shortfall_add.induct) auto

definition contributes :: "compiledRule \<Rightarrow> Principal option \<Rightarrow> string \<Rightarrow> string \<Rightarrow> string \<Rightarrow> string \<Rightarrow> bool" where
  "contributes r p u mth name sc \<longleftrightarrow>
     (\<exists>unmet. subjectsMatchWhy (r_subjects r) p = (False, unmet) \<and> sc \<in> set unmet \<and>
              matches (r_allow r) u mth name)"

lemma allow_loop_args_missing:
  "sc \<in> set (MissingScopes (allow_loop_args e blocked short rs p u mth name ev mode)) \<Longrightarrow>
     sc \<in> set short \<or> (\<exists>r \<in> set rs. contributes r p u mth name sc)"
proof (induction rs arbitrary: blocked short)
  case Nil
  then show ?case by (simp add: decision_defs)
next
  case (Cons r rs)
  obtain ok unmet where why: "subjectsMatchWhy (r_subjects r) p = (ok, unmet)" by fastforce
  show ?case
  proof (cases ok)
    case True
    with Cons why show ?thesis
      by (auto simp: decision_defs split: prod.splits if_splits)
  next
    case False
    let ?s = "if hasScopes e \<and> mode = argEnforce \<and> unmet \<noteq> [] \<and> matches (r_allow r) u mth name
              then shortfall_add short unmet else short"
    have "sc \<in> set ?s \<or> (\<exists>r \<in> set rs. contributes r p u mth name sc)"
      using Cons.prems why False by (intro Cons.IH [of blocked]) simp
    then show ?thesis
      using why False by (auto simp: shortfall_add_set contributes_def split: if_splits)
  qed
qed

lemma allow_loop_args_distinct:
  "distinct short \<Longrightarrow> distinct (MissingScopes (allow_loop_args e blocked short rs p u mth name ev mode))"
  by (induction rs arbitrary: blocked short)
    (auto simp: decision_defs shortfall_add_distinct split: prod.splits)

lemma DecideCall_missing:
  assumes "sc \<in> set (MissingScopes (DecideCall (New_engine (Some c)) p u mth name ev))"
  shows "\<exists>r \<in> set (pol_Rules c). contributes (compileRule r) p u mth name sc"
proof -
  from assms have "sc \<in> set (MissingScopes (allow_loop_args (New_engine (Some c)) '''' []
      (map compileRule (pol_Rules c)) p u mth name ev argEnforce))"
    by (auto simp: DecideCall_def decide_eq_long decide_long_def decision_defs split: option.splits)
  from allow_loop_args_missing [OF this] show ?thesis by auto
qed

text \<open>
  What a denial says about scopes is true and discloses no more than it should: every scope it
  names is one the caller lacks, named once, and required by a rule that has an allow clause for
  this very server, method and name and that would cover the caller if the caller held the scopes
  the denial names.
\<close>

theorem missing_scopes_sound:
  assumes "d = DecideCall (New_engine (Some c)) (Some p) u mth name ev"
    and "sc \<in> set (MissingScopes d)"
  shows "sc \<notin> set (p_Scopes p) \<and> distinct (MissingScopes d) \<and>
    (\<exists>r \<in> set (pol_Rules c). \<exists>s. pr_Subjects r = Some s \<and> sc \<in> set (ps_Scopes s) \<and>
       \<not> covers r (Some p) \<and> covers r (Some (with_scopes p (ps_Scopes s))) \<and>
       (\<exists>a \<in> set (pr_Allow r). clause_names (compileClause a) u mth name))"
proof -
  obtain r where r: "r \<in> set (pol_Rules c)" "contributes (compileRule r) (Some p) u mth name sc"
    using DecideCall_missing assms by blast
  then obtain unmet where why: "subjectsMatchWhy (pr_Subjects r) (Some p) = (False, unmet)"
    and sc: "sc \<in> set unmet" and m: "matches (compileClauses (pr_Allow r)) u mth name"
    by (auto simp: contributes_def compileRule_def)
  obtain s where s: "pr_Subjects r = Some s" "sc \<in> set (ps_Scopes s)"
    using unmet_named [OF why sc] by blast
  have sub: "set unmet \<subseteq> set (ps_Scopes s)" using unmet_named [OF why] s(1) by auto
  have "unmet \<noteq> []" using sc by auto
  with unmet_suffices [of s p unmet "ps_Scopes s"] why s(1) sub
  have "covers r (Some (with_scopes p (ps_Scopes s)))" by (simp add: subjectsMatch_covers [symmetric])
  moreover have "\<not> covers r (Some p)"
    using why by (simp add: subjectsMatch_covers [symmetric] subjectsMatch_def)
  moreover have "distinct (MissingScopes d)"
    unfolding assms(1) DecideCall_def decide_eq_long decide_long_def
    by (auto simp: decision_defs allow_loop_args_distinct split: option.split)
  ultimately show ?thesis
    using r(1) s m unmet_lacking [OF why sc] unfolding matches_names by blast
qed

definition scoped_policy :: "(string \<times> json) list \<Rightarrow> Policy" where
  "scoped_policy args =
     \<lparr>pol_DefaultDecision = ''deny'',
      pol_Rules =
        [\<lparr>pr_ID = ''deploy'',
          pr_Subjects = Some \<lparr>ps_Groups = [], ps_Subs = [], ps_Issuers = [], ps_Claims = [],
                              ps_Scopes = [''write'']\<rparr>,
          pr_Allow = [(example_allow ''ops'' [''deploy''])\<lparr>pa_Args := args\<rparr>], pr_Deny = [],
          pr_MaxItems = 0\<rparr>],
      pol_ServerInitiatedDecision = ''deny''\<rparr>"

definition example_principal :: Principal where
  "example_principal =
     \<lparr>p_Subject = ''ada'', p_Issuer = ''idp'', p_Groups = [], p_Scopes = [''read''], p_Token = '''',
      p_Expiry = 0, p_Claims = fmempty\<rparr>"

lemmas engine_eval = decide_def New_engine_def compileRule_def compileClauses_def compileClause_def
  compileKind_def subjectsMatchWhy_def subjectsMatch_def claimsMatch_def missingScopes_def matches_def clause_names_def
  globAny_def compileGlob_def glob_match_def matchesArgs_def argsSatisfied_def lookupPath_def
  decision_defs Let_def

theorem missing_scopes_sound_witness:
  "''write'' \<notin> set (p_Scopes example_principal) \<and>
   MissingScopes (DecideCall (New_engine (Some (scoped_policy []))) (Some example_principal) ''ops''
     ''tools/call'' ''deploy'' no_evidence) = [''write'']"
proof -
  let ?d = "DecideCall (New_engine (Some (scoped_policy []))) (Some example_principal) ''ops''
     ''tools/call'' ''deploy'' no_evidence"
  have d: "MissingScopes ?d = [''write'']"
    by (simp add: DecideCall_def engine_eval scoped_policy_def example_allow_def example_principal_def)
  with missing_scopes_sound [OF refl, of "''write''" "scoped_policy []" example_principal "''ops''"
      "''tools/call''" "''deploy''" no_evidence]
  show ?thesis by simp
qed

lemma allow_loop_args_collects:
  assumes "r \<in> set rs" and "contributes r p u mth name sc" and "hasScopes e" and "mode = argEnforce"
    and "\<not> Allowed (allow_loop_args e blocked short rs p u mth name ev mode)"
  shows "sc \<in> set (MissingScopes (allow_loop_args e blocked short rs p u mth name ev mode))"
proof -
  have mono: "set short \<subseteq> set (MissingScopes (allow_loop_args e blocked short rs p u mth name ev mode))"
    if "\<not> Allowed (allow_loop_args e blocked short rs p u mth name ev mode)" for blocked short rs
    using that
  proof (induction rs arbitrary: blocked short)
    case (Cons r rs)
    then show ?case
      by (fastforce simp: decision_defs shortfall_add_set split: prod.splits if_splits)
  qed (simp add: decision_defs)
  from assms show ?thesis
  proof (induction rs arbitrary: blocked short)
    case (Cons r' rs)
    obtain ok unmet where why: "subjectsMatchWhy (r_subjects r') p = (ok, unmet)" by fastforce
    show ?case
    proof (cases "r = r'")
      case True
      with Cons.prems why have "\<not> ok" "unmet \<noteq> []" "matches (r_allow r') u mth name" "sc \<in> set unmet"
        by (auto simp: contributes_def)
      with Cons.prems why
      have "\<not> Allowed (allow_loop_args e blocked (shortfall_add short unmet) rs p u mth name ev mode)"
        "allow_loop_args e blocked short (r' # rs) p u mth name ev mode =
         allow_loop_args e blocked (shortfall_add short unmet) rs p u mth name ev mode"
        by simp_all
      with mono [OF this(1)] \<open>sc \<in> set unmet\<close> show ?thesis by (auto simp: shortfall_add_set)
    next
      case False
      with Cons.prems have "r \<in> set rs" by simp
      with Cons why show ?thesis
        by (auto simp: decision_defs split: prod.splits if_splits)
    qed
  qed simp
qed

lemma plain_clause_spec:
  "pa_Args a = [] \<Longrightarrow> pa_ToolKind a = '''' \<Longrightarrow>
     clause_spec a u mth name ev mode = clause_names (compileClause a) u mth name"
  by (simp add: clause_spec_def clause_names_spec kind_spec_def)

text \<open>
  The advice works where names are all that rules look at: under a document with no argument
  and no annotation gates, a caller refused with a list of scopes and holding those scopes on the
  next attempt is allowed, unless a rule then denies it explicitly.
\<close>

theorem missing_scopes_suffice:
  assumes "\<forall>r \<in> set (pol_Rules c). \<forall>a \<in> set (pr_Allow r). pa_Args a = [] \<and> pa_ToolKind a = ''''"
    and "d = DecideCall (New_engine (Some c)) (Some p) u mth name ev" and "\<not> Allowed d"
    and "MissingScopes d \<noteq> []"
    and "\<forall>r \<in> set (pol_Rules c). \<not> denies r (Some (with_scopes p (MissingScopes d))) u mth name ev argEnforce"
  shows "Allowed (DecideCall (New_engine (Some c)) (Some (with_scopes p (MissingScopes d))) u mth name ev)"
proof -
  let ?e = "New_engine (Some c)"
  from assms(4) obtain sc where sc: "sc \<in> set (MissingScopes d)" by (cases "MissingScopes d") auto
  with assms(2) DecideCall_missing obtain r where r: "r \<in> set (pol_Rules c)"
    "contributes (compileRule r) (Some p) u mth name sc" by blast
  then obtain unmet where why: "subjectsMatchWhy (pr_Subjects r) (Some p) = (False, unmet)"
    "sc \<in> set unmet" "matches (compileClauses (pr_Allow r)) u mth name"
    by (auto simp: contributes_def compileRule_def)
  then obtain s where s: "pr_Subjects r = Some s" "sc \<in> set (ps_Scopes s)" using unmet_named by blast
  have d: "d = allow_loop_args ?e '''' [] (map compileRule (pol_Rules c)) (Some p) u mth name ev argEnforce"
    using sc unfolding assms(2)
    by (auto simp: DecideCall_def decide_eq_long decide_long_def decision_defs split: option.splits)
  have "hasScopes ?e" using r(1) s
    by (force simp: New_engine_def Let_def list_ex_iff compileRule_def)
  moreover have "contributes (compileRule r) (Some p) u mth name x" if "x \<in> set unmet" for x
    using why that by (auto simp: contributes_def compileRule_def)
  ultimately have "set unmet \<subseteq> set (MissingScopes d)"
    using r(1) assms(3) unfolding d by (intro subsetI allow_loop_args_collects [where r = "compileRule r"]) auto
  moreover have "unmet \<noteq> []" using why(2) by auto
  ultimately have "covers r (Some (with_scopes p (MissingScopes d)))"
    using unmet_suffices [of s p unmet "MissingScopes d"] why(1) s(1)
    by (simp add: subjectsMatch_covers [symmetric])
  moreover obtain a where "a \<in> set (pr_Allow r)" "clause_names (compileClause a) u mth name"
    using why(3) by (auto simp: matches_names)
  ultimately have "grants r (Some (with_scopes p (MissingScopes d))) u mth name ev argEnforce"
    using assms(1) r(1) by (auto simp: grants_def plain_clause_spec)
  with r(1) assms(5) show ?thesis by (auto simp: DecideCall_def decide_permits permits_def)
qed

theorem missing_scopes_suffice_witness:
  "Allowed (DecideCall (New_engine (Some (scoped_policy [])))
     (Some (with_scopes example_principal [''write''])) ''ops'' ''tools/call'' ''deploy'' no_evidence)"
proof -
  let ?d = "DecideCall (New_engine (Some (scoped_policy []))) (Some example_principal) ''ops''
     ''tools/call'' ''deploy'' no_evidence"
  have d: "MissingScopes ?d = [''write'']" "\<not> Allowed ?d"
    by (simp_all add: DecideCall_def engine_eval scoped_policy_def example_allow_def example_principal_def)
  have "Allowed (DecideCall (New_engine (Some (scoped_policy [])))
      (Some (with_scopes example_principal (MissingScopes ?d))) ''ops'' ''tools/call'' ''deploy'' no_evidence)"
    by (rule missing_scopes_suffice [OF _ refl])
      (simp_all only: d, simp_all add: scoped_policy_def example_allow_def denies_def)
  then show ?thesis by (simp add: d)
qed

text \<open>
  With argument constraints the advice can be empty: there is a document, a caller and a call
  that is refused naming a scope, although the caller would be refused just the same holding it,
  because the one rule that asks for the scope also constrains an argument the call does not meet.
\<close>

theorem missing_scopes_need_not_suffice:
  "\<exists>c p ev. let d = DecideCall (New_engine (Some c)) (Some p) ''ops'' ''tools/call'' ''deploy'' ev
     in \<not> Allowed d \<and> MissingScopes d = [''write''] \<and>
        \<not> Allowed (DecideCall (New_engine (Some c)) (Some (with_scopes p (MissingScopes d))) ''ops''
            ''tools/call'' ''deploy'' ev)"
proof -
  let ?c = "scoped_policy [(''env'', JStr ''staging'')]"
  let ?ev = "\<lparr>ev_Args = Some (Some (fmupd ''env'' (JStr ''prod'') fmempty)), ev_Tool = None\<rparr>"
  have "\<not> Allowed (DecideCall (New_engine (Some ?c)) (Some example_principal) ''ops'' ''tools/call'' ''deploy'' ?ev)"
    and "MissingScopes (DecideCall (New_engine (Some ?c)) (Some example_principal) ''ops'' ''tools/call'' ''deploy'' ?ev)
      = [''write'']"
    and "\<not> Allowed (DecideCall (New_engine (Some ?c)) (Some (with_scopes example_principal [''write'']))
      ''ops'' ''tools/call'' ''deploy'' ?ev)"
    by (simp_all add: DecideCall_def engine_eval scoped_policy_def example_allow_def
        example_principal_def with_scopes_def)
  then show ?thesis unfolding Let_def by metis
qed

end
