(* ===== verification/Calendar.thy ===== *)
theory Calendar
  imports Fold_Prelude
begin

section \<open>The calendar of package time\<close>

text \<open>
  The parts of Go's package \<open>time\<close> that the budget periods use: the UTC date of an instant
  (\<open>Time.Date\<close>), the instant of a date with out-of-range months normalised (\<open>time.Date\<close> and
  \<open>AddDate\<close>), truncation to the hour, and the numeric layouts of \<open>Format\<close>. Days are counted from
  1 January of year 1, where the zero time lies, in the proleptic Gregorian calendar.

  The lemmas show that dates and day numbers are inverse to each other (\<open>date_to_days_of_days\<close>,
  \<open>days_to_date_inj\<close>) and that zero-padded decimals determine the number (\<open>pad_inj\<close>).
\<close>

abbreviation day :: duration where
  "day \<equiv> 24 * hour"

subsection \<open>Dates\<close>

definition leap_year :: "int \<Rightarrow> bool" where
  "leap_year y \<longleftrightarrow> y mod 4 = 0 \<and> (y mod 100 \<noteq> 0 \<or> y mod 400 = 0)"

definition days_before_year :: "int \<Rightarrow> int" where
  "days_before_year y = 365 * (y - 1) + (y - 1) div 4 - (y - 1) div 100 + (y - 1) div 400"

text \<open>The year and the zero-based day of the year of a day number.\<close>

definition year_yday :: "int \<Rightarrow> int \<times> int" where
  "year_yday d =
     (let a = d div 146097; r = d mod 146097;
          c = min 3 (r div 36524); r2 = r - 36524 * c;
          q = r2 div 1461; r3 = r2 mod 1461;
          n = min 3 (r3 div 365)
      in (400 * a + 100 * c + 4 * q + n + 1, r3 - 365 * n))"

text \<open>The days of a year before the given month, 1 to 12.\<close>

definition days_before_month :: "bool \<Rightarrow> int \<Rightarrow> int" where
  "days_before_month leap m =
     [0, 31, 59, 90, 120, 151, 181, 212, 243, 273, 304, 334] ! nat (m - 1)
       + (if leap \<and> 2 < m then 1 else 0)"

definition month_of_yday :: "bool \<Rightarrow> int \<Rightarrow> int" where
  "month_of_yday leap yd =
     (if yd < days_before_month leap 2 then 1 else if yd < days_before_month leap 3 then 2
      else if yd < days_before_month leap 4 then 3 else if yd < days_before_month leap 5 then 4
      else if yd < days_before_month leap 6 then 5 else if yd < days_before_month leap 7 then 6
      else if yd < days_before_month leap 8 then 7 else if yd < days_before_month leap 9 then 8
      else if yd < days_before_month leap 10 then 9 else if yd < days_before_month leap 11 then 10
      else if yd < days_before_month leap 12 then 11 else 12)"

definition days_to_date :: "int \<Rightarrow> int \<times> int \<times> int" where
  "days_to_date d =
     (let (y, yd) = year_yday d; m = month_of_yday (leap_year y) yd
      in (y, m, yd - days_before_month (leap_year y) m + 1))"

definition date_to_days :: "int \<Rightarrow> int \<Rightarrow> int \<Rightarrow> int" where
  "date_to_days y m d =
     (let y' = y + (m - 1) div 12; m' = (m - 1) mod 12 + 1
      in days_before_year y' + days_before_month (leap_year y') m' + (d - 1))"

lemma year_yday_parts:
  fixes a c q n r3 :: int
  assumes "0 \<le> c" "c \<le> 3" "0 \<le> q" "q \<le> 24" "0 \<le> n" "n \<le> 3"
  shows "days_before_year (400 * a + 100 * c + 4 * q + n + 1) = 146097 * a + 36524 * c + 1461 * q + 365 * n"
proof -
  have "(400 * a + 100 * c + 4 * q + n) div 4 = 100 * a + 25 * c + q"
    using assms by (intro int_div_pos_eq [of _ _ _ n]) auto
  moreover have "(400 * a + 100 * c + 4 * q + n) div 100 = 4 * a + c"
    using assms by (intro int_div_pos_eq [of _ _ _ "4 * q + n"]) auto
  moreover have "(400 * a + 100 * c + 4 * q + n) div 400 = a"
    using assms by (intro int_div_pos_eq [of _ _ _ "100 * c + 4 * q + n"]) auto
  ultimately show ?thesis by (simp add: days_before_year_def)
qed

lemma year_yday_spec:
  assumes "year_yday d = (y, yd)"
  shows "d = days_before_year y + yd" "0 \<le> yd" "yd < 365 + (if leap_year y then 1 else 0)"
proof -
  define a r where "a = d div 146097" and "r = d mod 146097"
  define c where "c = min 3 (r div 36524)"
  define r2 where "r2 = r - 36524 * c"
  define q r3 where "q = r2 div 1461" and "r3 = r2 mod 1461"
  define n where "n = min 3 (r3 div 365)"
  have y: "y = 400 * a + 100 * c + 4 * q + n + 1" and yd: "yd = r3 - 365 * n"
    using assms unfolding year_yday_def Let_def a_def [symmetric] r_def [symmetric] c_def [symmetric]
      r2_def [symmetric] q_def [symmetric] r3_def [symmetric] n_def [symmetric] prod.inject by (elim conjE, simp)+
  have d: "d = 146097 * a + r" and r: "0 \<le> r" "r < 146097" by (simp_all add: a_def r_def)
  have c: "0 \<le> c" "c \<le> 3" using r by (simp_all add: c_def min_def pos_imp_zdiv_nonneg_iff)
  have r2: "0 \<le> r2" "r2 \<le> 36524" "c < 3 \<longrightarrow> r2 < 36524"
    using r by (auto simp: r2_def c_def min_def)
  have q: "0 \<le> q" "q \<le> 24" and r2': "r2 = 1461 * q + r3" and r3: "0 \<le> r3" "r3 < 1461"
    using r2 by (simp_all add: q_def r3_def)
  have n: "0 \<le> n" "n \<le> 3" using r3 by (simp_all add: n_def min_def pos_imp_zdiv_nonneg_iff)
  have "r = 36524 * c + r2" by (simp add: r2_def)
  then show "d = days_before_year y + yd"
    using year_yday_parts [OF c q n] by (simp add: y yd d r2')
  show "0 \<le> yd" using r3 by (auto simp: yd n_def min_def)
  have "yd \<le> 365" "yd = 365 \<longrightarrow> n = 3" using r3 by (auto simp: yd n_def min_def)
  moreover have "leap_year y" if "yd = 365"
  proof -
    have "n = 3" "r3 = 1460" using that \<open>yd = 365 \<longrightarrow> n = 3\<close> by (simp_all add: yd)
    then have "q = 24 \<longrightarrow> c = 3" using r2(3) r2' c by auto
    moreover have y4: "y = 4 * (100 * a + 25 * c + q + 1)" using \<open>n = 3\<close> by (simp add: y)
    moreover have "y mod 100 = 4 * q + 4" if "q \<noteq> 24"
      using q that \<open>n = 3\<close> by (intro int_mod_pos_eq [of _ _ "4 * a + c"]) (auto simp: y)
    moreover have "y mod 400 = 0" if "q = 24" "c = 3"
      using that \<open>n = 3\<close> by (intro int_mod_pos_eq [of _ _ "a + 1"]) (auto simp: y)
    ultimately show ?thesis using q unfolding leap_year_def by (cases "q = 24") auto
  qed
  ultimately show "yd < 365 + (if leap_year y then 1 else 0)" by (cases "yd = 365") auto
qed

lemma div_pred:
  fixes y k :: int
  assumes "1 < k"
  shows "y div k = (y - 1) div k + (if y mod k = 0 then 1 else 0)"
proof -
  have y: "y = k * (y div k) + y mod k" by simp
  show ?thesis
  proof (cases "y mod k = 0")
    case True
    then have "(y - 1) div k = y div k - 1"
      using assms y by (intro int_div_pos_eq [of _ _ _ "k - 1"]) (auto simp: algebra_simps)
    then show ?thesis using True by simp
  next
    case False
    moreover have "0 \<le> y mod k" "y mod k < k" using assms by simp_all
    ultimately have "0 < y mod k" "y mod k < k" by linarith+
    then have "(y - 1) div k = y div k"
      using y by (intro int_div_pos_eq [of _ _ _ "y mod k - 1"]) (auto simp: algebra_simps)
    then show ?thesis using False by simp
  qed
qed

lemma mod_zero_mono: "k dvd l \<Longrightarrow> y mod l = 0 \<longrightarrow> y mod k = 0" for y k l :: int
  by (metis dvd_trans mod_0_imp_dvd mod_eq_0_iff_dvd)

lemma leap_days:
  fixes y a b c :: int
  assumes "r \<longrightarrow> q" "q \<longrightarrow> p"
  shows "365 * y + (a + (if p then 1 else 0)) - (b + (if q then 1 else 0)) + (c + (if r then 1 else 0))
       = 365 * (y - 1) + a - b + c + 365 + (if p \<and> (\<not> q \<or> r) then 1 else 0)"
  using assms by (cases p; cases q; cases r; simp add: algebra_simps)

lemma leap_len: "days_before_year (y + 1) = days_before_year y + 365 + (if leap_year y then 1 else 0)"
proof -
  have d: "y div 4 = (y - 1) div 4 + (if y mod 4 = 0 then 1 else 0)"
    "y div 100 = (y - 1) div 100 + (if y mod 100 = 0 then 1 else 0)"
    "y div 400 = (y - 1) div 400 + (if y mod 400 = 0 then 1 else 0)" by (rule div_pred, simp)+
  have m: "y mod 400 = 0 \<longrightarrow> y mod 100 = 0" "y mod 100 = 0 \<longrightarrow> y mod 4 = 0"
    by (rule mod_zero_mono, simp)+
  have "days_before_year (y + 1) = 365 * y + y div 4 - y div 100 + y div 400"
    by (simp add: days_before_year_def)
  also have "\<dots> = days_before_year y + 365 + (if leap_year y then 1 else 0)"
    unfolding d days_before_year_def leap_year_def by (rule leap_days [OF m])
  finally show ?thesis .
qed

lemma months_nth:
  "days_before_month l 1 = 0" "days_before_month l 2 = 31"
  "days_before_month l 3 = 59 + (if l then 1 else 0)" "days_before_month l 4 = 90 + (if l then 1 else 0)"
  "days_before_month l 5 = 120 + (if l then 1 else 0)" "days_before_month l 6 = 151 + (if l then 1 else 0)"
  "days_before_month l 7 = 181 + (if l then 1 else 0)" "days_before_month l 8 = 212 + (if l then 1 else 0)"
  "days_before_month l 9 = 243 + (if l then 1 else 0)" "days_before_month l 10 = 273 + (if l then 1 else 0)"
  "days_before_month l 11 = 304 + (if l then 1 else 0)" "days_before_month l 12 = 334 + (if l then 1 else 0)"
  by (simp_all add: days_before_month_def numeral_nat eval_nat_numeral)

lemma month_of_yday_range: "1 \<le> month_of_yday l yd" "month_of_yday l yd \<le> 12"
  by (simp_all add: month_of_yday_def)

lemma month_of_yday_start: "0 \<le> yd \<Longrightarrow> days_before_month l (month_of_yday l yd) \<le> yd"
  by (simp add: month_of_yday_def months_nth)

text \<open>The first day after the month that holds day \<open>yd\<close> of the year.\<close>

definition month_end :: "bool \<Rightarrow> int \<Rightarrow> int" where
  "month_end leap m = (if m = 12 then 365 + (if leap then 1 else 0) else days_before_month leap (m + 1))"

lemma month_of_yday_end:
  "yd < 365 + (if l then 1 else 0) \<Longrightarrow> yd < month_end l (month_of_yday l yd)"
  by (cases l) (simp_all add: month_of_yday_def month_end_def months_nth)

lemma month_range: "1 \<le> m \<Longrightarrow> m \<le> 12 \<Longrightarrow> m \<in> {1, 2, 3, 4, 5, 6, 7, 8, 9, 10, 11, 12}" for m :: int
  by (simp; presburger)

lemma month_of_yday_unique:
  "1 \<le> m \<Longrightarrow> m \<le> 12 \<Longrightarrow> days_before_month l m \<le> yd \<Longrightarrow> yd < month_end l m \<Longrightarrow> month_of_yday l yd = m"
proof -
  assume m: "1 \<le> m" "m \<le> 12" and b: "days_before_month l m \<le> yd" "yd < month_end l m"
  note month_range [OF m]
  with b show ?thesis by (cases l) (auto simp: month_of_yday_def month_end_def months_nth)
qed

lemma date_to_days_of_days:
  "days_to_date d = (y, m, dd) \<Longrightarrow> date_to_days y m dd = d"
  using month_of_yday_range [of "leap_year (fst (year_yday d))" "snd (year_yday d)"]
    year_yday_spec(1) [of d]
  by (auto simp: days_to_date_def date_to_days_def Let_def split: prod.splits)

lemma days_to_date_inj: "days_to_date d = days_to_date d' \<longleftrightarrow> d = d'"
  by (metis date_to_days_of_days prod_cases3)

lemma days_to_date_month: "days_to_date d = (y, m, dd) \<Longrightarrow> 1 \<le> m \<and> m \<le> 12"
  using month_of_yday_range by (auto simp: days_to_date_def Let_def split: prod.splits)

lemma first_of_month_le: "days_to_date d = (y, m, dd) \<Longrightarrow> date_to_days y m 1 \<le> d \<and> 1 \<le> dd"
proof -
  assume a: "days_to_date d = (y, m, dd)"
  then have "1 \<le> dd"
    using year_yday_spec(2) [of d] month_of_yday_start
    by (force simp: days_to_date_def Let_def split: prod.splits)
  with date_to_days_of_days [OF a] show ?thesis by (simp add: date_to_days_def Let_def)
qed

lemma first_of_next_month:
  assumes "1 \<le> m" "m \<le> 12"
  shows "date_to_days y (m + 1) 1 = days_before_year y + month_end (leap_year y) m"
proof (cases "m = 12")
  case True
  then show ?thesis by (simp add: date_to_days_def month_end_def Let_def leap_len months_nth)
next
  case False
  then have "m div 12 = 0" "m mod 12 = m" using assms by auto
  then show ?thesis using False by (simp add: date_to_days_def month_end_def Let_def)
qed

lemma next_month_gt: "days_to_date d = (y, m, dd) \<Longrightarrow> d < date_to_days y (m + 1) 1"
  using first_of_next_month [of m y] days_to_date_month [of d y m dd]
    year_yday_spec [of d] month_of_yday_end
  by (force simp: days_to_date_def Let_def split: prod.splits)


lemma days_before_year_mono: "y \<le> y' \<Longrightarrow> days_before_year y \<le> days_before_year y'"
proof (induction y' rule: int_ge_induct)
  case (step i)
  then show ?case using leap_len [of i] by simp
qed simp

lemma year_unique:
  assumes "days_before_year y \<le> d" "d < days_before_year (y + 1)"
    and "days_before_year y' \<le> d" "d < days_before_year (y' + 1)"
  shows "y' = y"
proof (rule ccontr)
  assume "y' \<noteq> y"
  then have "y + 1 \<le> y' \<or> y' + 1 \<le> y" by linarith
  then show False using days_before_year_mono [of "y + 1" y'] days_before_year_mono [of "y' + 1" y] assms
    by linarith
qed

lemma month_end_le: "1 \<le> m \<Longrightarrow> m \<le> 12 \<Longrightarrow> month_end l m \<le> 365 + (if l then 1 else 0)"
proof -
  assume m: "1 \<le> m" "m \<le> 12"
  note month_range [OF m]
  then show ?thesis by (cases l) (auto simp: month_end_def months_nth)
qed

lemma month_len: "1 \<le> m \<Longrightarrow> m \<le> 12 \<Longrightarrow> month_end l m \<le> days_before_month l m + 31"
proof -
  assume m: "1 \<le> m" "m \<le> 12"
  note month_range [OF m]
  then show ?thesis by (cases l) (auto simp: month_end_def months_nth)
qed

subsection \<open>Decimal fields\<close>

definition digit_char :: "nat \<Rightarrow> char" where
  "digit_char n = char_of (48 + n)"

fun dec :: "nat \<Rightarrow> string" where
  "dec n = (if n < 10 then [digit_char n] else dec (n div 10) @ [digit_char (n mod 10)])"

declare dec.simps [simp del]

definition pad :: "nat \<Rightarrow> int \<Rightarrow> string" where
  "pad w n = replicate (w - length (dec (nat n))) CHR ''0'' @ dec (nat n)"

definition undec :: "string \<Rightarrow> nat" where
  "undec s = fold (\<lambda>c acc. 10 * acc + (of_char c - 48)) s 0"

lemma undec_snoc: "undec (s @ [c]) = 10 * undec s + (of_char c - 48)"
  by (simp add: undec_def)

lemma of_char_digit: "n < 10 \<Longrightarrow> of_char (digit_char n) = (48 + n :: nat)"
  by (simp add: digit_char_def of_char_of)

lemma undec_dec: "undec (dec n) = n"
proof (induction n rule: dec.induct)
  case (1 n)
  show ?case
  proof (cases "n < 10")
    case True
    then show ?thesis by (simp add: dec.simps [of n] of_char_digit undec_def)
  next
    case False
    then show ?thesis using 1 by (simp add: dec.simps [of n] undec_snoc of_char_digit)
  qed
qed

lemma undec_zeros: "undec (replicate k CHR ''0'' @ s) = undec s"
  by (induction k) (simp_all add: undec_def)

lemma pad_inj: "0 \<le> m \<Longrightarrow> 0 \<le> n \<Longrightarrow> pad w m = pad w n \<longleftrightarrow> m = n"
  by (metis eq_nat_nat_iff pad_def undec_dec undec_zeros)

lemma length_dec: "length (dec n) \<le> k \<longleftrightarrow> n < 10 ^ k" if "0 < k"
  using that
proof (induction n arbitrary: k rule: dec.induct)
  case (1 n)
  show ?case
  proof (cases "n < 10")
    case True
    then have "n < 10 ^ k" using 1(2) power_increasing [of 1 k "10 :: nat"] by simp
    then show ?thesis using True 1(2) by (simp add: dec.simps [of n])
  next
    case False
    show ?thesis
    proof (cases "k = 1")
      case True
      then show ?thesis using False by (simp add: dec.simps [of n] dec.simps [of "n div 10"])
    next
      case k: False
      then obtain j where j: "k = Suc j" "0 < j" using 1(2) by (cases k) auto
      have "length (dec n) \<le> k \<longleftrightarrow> length (dec (n div 10)) \<le> j"
        using False by (simp add: dec.simps [of n] j)
      also have "\<dots> \<longleftrightarrow> n div 10 < 10 ^ j" using 1(1) [OF False j(2)] .
      also have "\<dots> \<longleftrightarrow> n < 10 ^ k" by (simp add: j div_less_iff_less_mult mult.commute)
      finally show ?thesis .
    qed
  qed
qed

lemma length_pad2: "0 \<le> n \<Longrightarrow> n < 100 \<Longrightarrow> length (pad 2 n) = 2"
  using length_dec [of 2 "nat n"] by (simp add: pad_def)

end
