(* ===== verification/Budget.thy ===== *)
theory Budget
  imports Calendar
begin

section \<open>Consumption budgets (src/internal/state/budget.go)\<close>

text \<open>
  A budget is an allowance over a calendar window (UTC hour, day or month). The clock reading
  \<open>b.now()\<close> of a call is an argument. Each call holds the counter's mutex while it reads and writes
  it, so a run is a sequence of whole calls. The counter is a 64-bit integer: the additions wrap.
\<close>

subsection \<open>Periods\<close>

type_synonym Period = string

definition Valid_period :: "Period \<Rightarrow> bool" where
  "Valid_period p \<longleftrightarrow> p = ''hour'' \<or> p = ''day'' \<or> p = ''month''"

definition period_key :: "Period \<Rightarrow> time \<Rightarrow> string" where
  "period_key p t =
     (let (y, m, d) = days_to_date (t div day) in
      if p = ''hour'' then pad 4 y @ ''-'' @ pad 2 m @ ''-'' @ pad 2 d @ ''T'' @ pad 2 (t mod day div hour)
      else if p = ''day'' then pad 4 y @ ''-'' @ pad 2 m @ ''-'' @ pad 2 d
      else pad 4 y @ ''-'' @ pad 2 m)"

definition period_next :: "Period \<Rightarrow> time \<Rightarrow> time" where
  "period_next p t =
     (if p = ''hour'' then t - t mod hour + hour
      else if p = ''day''
      then (case days_to_date (t div day) of (y, m, d) \<Rightarrow> (date_to_days y m d + 1) * day)
      else (case days_to_date (t div day) of (y, m, d) \<Rightarrow> date_to_days y (m + 1) 1 * day))"

definition period_ttl :: "Period \<Rightarrow> time \<Rightarrow> duration" where
  "period_ttl p now = wrap64 (time_sub (period_next p now) now + hour)"

subsection \<open>Counters\<close>

record BudgetResult =
  br_Allowed :: bool
  br_Used :: int
  br_Limit :: int
  br_Resets :: time
  br_Degraded :: bool

record memBudget =
  mb_period :: Period
  mb_limit :: int
  mb_windowEnd :: time
  mb_used :: int

datatype Budget = unlimitedBudget | MemBudget memBudget

definition newMemBudget :: "Period \<Rightarrow> int \<Rightarrow> Budget" where
  "newMemBudget period limit =
     (if limit \<le> 0 then unlimitedBudget
      else MemBudget \<lparr>mb_period = (if Valid_period period then period else ''month''),
                      mb_limit = limit, mb_windowEnd = 0, mb_used = 0\<rparr>)"

definition roll :: "memBudget \<Rightarrow> time \<Rightarrow> memBudget" where
  "roll b now =
     (if \<not> now < mb_windowEnd b
      then b\<lparr>mb_windowEnd := period_next (mb_period b) now, mb_used := 0\<rparr> else b)"

definition Add_mem :: "memBudget \<Rightarrow> int \<Rightarrow> time \<Rightarrow> BudgetResult \<times> memBudget" where
  "Add_mem b0 n now =
     (let b = roll b0 now in
      if mb_limit b < wrap64 (mb_used b + n)
      then (\<lparr>br_Allowed = False, br_Used = mb_used b, br_Limit = mb_limit b,
             br_Resets = mb_windowEnd b, br_Degraded = False\<rparr>, b)
      else let b' = b\<lparr>mb_used := wrap64 (mb_used b + n)\<rparr>
           in (\<lparr>br_Allowed = True, br_Used = mb_used b', br_Limit = mb_limit b',
                br_Resets = mb_windowEnd b', br_Degraded = False\<rparr>, b'))"

definition Used_mem :: "memBudget \<Rightarrow> time \<Rightarrow> BudgetResult \<times> memBudget" where
  "Used_mem b0 now =
     (let b = roll b0 now
      in (\<lparr>br_Allowed = mb_used b < mb_limit b, br_Used = mb_used b, br_Limit = mb_limit b,
           br_Resets = mb_windowEnd b, br_Degraded = False\<rparr>, b))"

definition unlimited_result :: BudgetResult where
  "unlimited_result = \<lparr>br_Allowed = True, br_Used = 0, br_Limit = 0, br_Resets = 0, br_Degraded = False\<rparr>"

text \<open>The interface \<open>Budget\<close>, dispatching on the implementation.\<close>

definition Add_budget :: "Budget \<Rightarrow> int \<Rightarrow> time \<Rightarrow> BudgetResult \<times> Budget" where
  "Add_budget b n now =
     (case b of unlimitedBudget \<Rightarrow> (unlimited_result, unlimitedBudget)
      | MemBudget m \<Rightarrow> (let (r, m') = Add_mem m n now in (r, MemBudget m')))"

definition Used_budget :: "Budget \<Rightarrow> time \<Rightarrow> BudgetResult \<times> Budget" where
  "Used_budget b now =
     (case b of unlimitedBudget \<Rightarrow> (unlimited_result, unlimitedBudget)
      | MemBudget m \<Rightarrow> (let (r, m') = Used_mem m now in (r, MemBudget m')))"

subsection \<open>Windows\<close>

lemma next_day: "(case days_to_date (t div day) of (y, m, d) \<Rightarrow> (date_to_days y m d + 1) * day) = (t div day + 1) * day"
  using date_to_days_of_days [of "t div day"] by (auto split: prod.splits)

lemma day_bound: "t < (t div day + 1) * day"
proof -
  have "t = t div day * day + t mod day" "t mod day < day" by (simp only: div_mult_mod_eq, simp)
  then show ?thesis unfolding distrib_right mult_1 by linarith
qed

lemma next_month_bound: "days_to_date (t div day) = (y, m, d) \<Longrightarrow> t < date_to_days y (m + 1) 1 * day"
proof -
  assume "days_to_date (t div day) = (y, m, d)"
  then have "t div day + 1 \<le> date_to_days y (m + 1) 1" using next_month_gt by fastforce
  then have "(t div day + 1) * day \<le> date_to_days y (m + 1) 1 * day" by (rule mult_right_mono) simp
  then show ?thesis using day_bound by (rule less_le_trans [rotated])
qed

lemma period_next_hour: "period_next ''hour'' t = (t div hour + 1) * hour"
proof -
  have "t - t mod hour = t div hour * hour" by (rule minus_mod_eq_div_mult)
  then show ?thesis unfolding period_next_def distrib_right mult_1 by (simp only: if_True simp_thms)
qed

lemma period_next_day: "period_next ''day'' t = (t div day + 1) * day"
  unfolding period_next_def next_day by simp

lemma period_next_month:
  "p \<noteq> ''hour'' \<Longrightarrow> p \<noteq> ''day'' \<Longrightarrow> days_to_date (t div day) = (y, m, d) \<Longrightarrow>
   period_next p t = date_to_days y (m + 1) 1 * day"
  unfolding period_next_def by simp

lemma next_gt: "t < period_next p t"
proof -
  obtain y m d where ymd: "days_to_date (t div day) = (y, m, d)" by (metis prod_cases3)
  consider "p = ''hour''" | "p = ''day''" | "p \<noteq> ''hour''" "p \<noteq> ''day''" by blast
  then show ?thesis
  proof cases
    case 1
    then show ?thesis by (simp add: period_next_hour)
  next
    case 2
    then show ?thesis using day_bound by (simp only: period_next_day)
  next
    case 3
    then show ?thesis using next_month_bound [OF ymd] by (simp only: period_next_month [OF 3 ymd])
  qed
qed

text \<open>Every instant from \<open>t\<close> up to the reset of its window has the same reset.\<close>

lemma month_stable:
  assumes "days_to_date d = (y, m, dd)" "d \<le> d'" "d' < date_to_days y (m + 1) 1"
    "days_to_date d' = (y', m', dd')"
  shows "y' = y \<and> m' = m"
proof -
  obtain yd where yd: "year_yday d = (y, yd)" "m = month_of_yday (leap_year y) yd"
    using assms(1) by (auto simp: days_to_date_def Let_def split: prod.splits)
  obtain yd' where yd': "year_yday d' = (y', yd')" "m' = month_of_yday (leap_year y') yd'"
    using assms(4) by (auto simp: days_to_date_def Let_def split: prod.splits)
  note s = year_yday_spec [OF yd(1)] and s' = year_yday_spec [OF yd'(1)]
  have mr: "1 \<le> m" "m \<le> 12" using days_to_date_month [OF assms(1)] by auto
  have lt: "d' < days_before_year y + month_end (leap_year y) m"
    using assms(3) by (simp add: first_of_next_month [OF mr])
  have "month_end (leap_year y) m \<le> 365 + (if leap_year y then 1 else 0)"
    by (rule month_end_le [OF mr])
  then have "days_before_year y \<le> d'" "d' < days_before_year (y + 1)"
    using s assms(2) lt by (simp_all add: leap_len)
  then have y: "y' = y" using s' by (intro year_unique [of y d' y']) (simp_all add: leap_len)
  have "days_before_month (leap_year y) m \<le> yd'"
    using month_of_yday_start [OF s(2), of "leap_year y"] s(1) s'(1) assms(2) y yd(2) by simp
  then have "month_of_yday (leap_year y) yd' = m"
    using lt s'(1) y by (intro month_of_yday_unique [OF mr]) simp_all
  with y yd'(2) show ?thesis by simp
qed

lemma div_lt_mult: "0 < k \<Longrightarrow> t < q * k \<Longrightarrow> t div k < q" for t k q :: int
proof (rule ccontr)
  assume k: "0 < k" and t: "t < q * k" and "\<not> t div k < q"
  then have "q * k \<le> t div k * k" by (intro mult_right_mono) auto
  also have "\<dots> = t - t mod k" by (rule minus_mod_eq_div_mult [symmetric])
  also have "\<dots> \<le> t" using pos_mod_sign [OF k, of t] by linarith
  finally show False using t by linarith
qed

lemma div_stable: "0 < k \<Longrightarrow> t \<le> t' \<Longrightarrow> t' < (t div k + 1) * k \<Longrightarrow> t' div k = t div k" for t t' k :: int
proof -
  assume k: "0 < k" and t: "t \<le> t'" "t' < (t div k + 1) * k"
  then have "t' div k < t div k + 1" by (intro div_lt_mult)
  with zdiv_mono1 [OF t(1) k] show ?thesis by linarith
qed

lemma next_stable:
  assumes "t \<le> t'" "t' < period_next p t"
  shows "period_next p t' = period_next p t"
proof -
  obtain y m d where ymd: "days_to_date (t div day) = (y, m, d)" by (metis prod_cases3)
  obtain y' m' d' where ymd': "days_to_date (t' div day) = (y', m', d')" by (metis prod_cases3)
  consider "p = ''hour''" | "p = ''day''" | "p \<noteq> ''hour''" "p \<noteq> ''day''" by blast
  then show ?thesis
  proof cases
    case 1
    then show ?thesis using assms div_stable [of hour t t'] by (simp only: period_next_hour)
  next
    case 2
    then show ?thesis using assms div_stable [of day t t'] by (simp only: period_next_day)
  next
    case 3
    have "t' < date_to_days y (m + 1) 1 * day" using assms(2) by (simp only: period_next_month [OF 3 ymd])
    then have "t' div day < date_to_days y (m + 1) 1" by (rule div_lt_mult [rotated]) simp
    moreover have "t div day \<le> t' div day" using assms(1) by (rule zdiv_mono1) simp
    ultimately have "y' = y \<and> m' = m" using month_stable [OF ymd _ _ ymd'] by blast
    then show ?thesis by (simp only: period_next_month [OF 3 ymd] period_next_month [OF 3 ymd'])
  qed
qed


subsection \<open>A window's key names the window\<close>

lemma append_fixed: "length u = length u' \<Longrightarrow> s @ u = s' @ u' \<longleftrightarrow> s = s' \<and> u = u'"
  by auto

lemma date_fields:
  assumes "0 \<le> t" "days_to_date (t div day) = (y, m, d)"
  shows "0 \<le> y" "0 \<le> m" "m < 100" "0 \<le> d" "d < 100"
proof -
  obtain yd where yd: "year_yday (t div day) = (y, yd)" "m = month_of_yday (leap_year y) yd"
      "d = yd - days_before_month (leap_year y) m + 1"
    using assms(2) by (auto simp: days_to_date_def Let_def split: prod.splits)
  note s = year_yday_spec [OF yd(1)]
  have "0 \<le> t div day" using assms(1) by simp
  moreover have "t div day < days_before_year (y + 1)" unfolding leap_len using s(1,3) by linarith
  ultimately have "days_before_year 1 < days_before_year (y + 1)" by (simp add: days_before_year_def)
  then show "0 \<le> y" using days_before_year_mono [of "y + 1" 1] by linarith
  show m: "0 \<le> m" "m < 100" using month_of_yday_range [of "leap_year y" yd] by (simp_all add: yd(2))
  show "0 \<le> d" using first_of_month_le [OF assms(2)] by simp
  have "yd < month_end (leap_year y) m" using month_of_yday_end [OF s(3)] by (simp add: yd(2))
  moreover have "month_end (leap_year y) m \<le> days_before_month (leap_year y) m + 31"
    using days_to_date_month [OF assms(2)] by (intro month_len) auto
  ultimately show "d < 100" by (simp add: yd(3))
qed

lemma mod_div_digit:
  fixes t k :: int
  assumes "0 < k"
  shows "t mod (24 * k) div k = t div k - 24 * (t div (24 * k))"
proof -
  have "t mod (24 * k) = k * (t div k mod 24) + t mod k"
    using zmod_zmult2_eq [of 24 t k] by (simp add: mult.commute)
  then have "t mod (24 * k) div k = t div k mod 24" using assms by simp
  moreover have "t div (24 * k) = t div k div 24"
    using zdiv_zmult2_eq [of 24 t k] by (simp add: mult.commute)
  ultimately show ?thesis by (simp add: minus_mult_div_eq_mod [symmetric])
qed

lemma key_hour_day: "t mod day div hour = t div hour - 24 * (t div day)"
  by (rule mod_div_digit) simp

lemma digit_eq:
  fixes q q' :: int
  assumes "r = h - 24 * q" "r' = h' - 24 * q'" "h = h' \<Longrightarrow> q = q'"
  shows "h = h' \<longleftrightarrow> q = q' \<and> r = r'"
  using assms by auto

lemma month_next_eq:
  assumes "p \<noteq> ''hour''" "p \<noteq> ''day''"
    and ymd: "days_to_date (t div day) = (y, m, d)" and ymd': "days_to_date (t' div day) = (y', m', d')"
    and eq: "period_next p t = period_next p t'"
  shows "y' = y \<and> m' = m"
proof -
  have e: "date_to_days y (m + 1) 1 = date_to_days y' (m' + 1) 1"
    using eq period_next_month [OF assms(1,2) ymd] period_next_month [OF assms(1,2) ymd'] by simp
  show ?thesis
  proof (cases "t div day \<le> t' div day")
    case True
    then show ?thesis using month_stable [OF ymd _ _ ymd'] next_month_gt [OF ymd'] e by simp
  next
    case False
    then show ?thesis using month_stable [OF ymd' _ _ ymd] next_month_gt [OF ymd] e by simp
  qed
qed

lemma date_key_eq:
  assumes "0 \<le> t" "0 \<le> t'"
    and ymd: "days_to_date (t div day) = (y, m, d)" and ymd': "days_to_date (t' div day) = (y', m', d')"
  shows "pad 4 y @ ''-'' @ pad 2 m @ ''-'' @ pad 2 d = pad 4 y' @ ''-'' @ pad 2 m' @ ''-'' @ pad 2 d'
         \<longleftrightarrow> t div day = t' div day"
    and "pad 4 y @ ''-'' @ pad 2 m = pad 4 y' @ ''-'' @ pad 2 m' \<longleftrightarrow> y = y' \<and> m = m'"
proof -
  note f = date_fields [OF assms(1) ymd] and f' = date_fields [OF assms(2) ymd']
  note len = length_pad2 [OF f(2,3)] length_pad2 [OF f(4,5)] length_pad2 [OF f'(2,3)] length_pad2 [OF f'(4,5)]
  have "t div day = t' div day \<longleftrightarrow> y = y' \<and> m = m' \<and> d = d'"
    by (simp only: days_to_date_inj [symmetric] ymd ymd' prod.inject)
  moreover have "pad 4 y @ ''-'' @ pad 2 m @ ''-'' @ pad 2 d = pad 4 y' @ ''-'' @ pad 2 m' @ ''-'' @ pad 2 d'
      \<longleftrightarrow> y = y' \<and> m = m' \<and> d = d'"
    using len f f' by (subst append_fixed; simp add: pad_inj)
  ultimately show "pad 4 y @ ''-'' @ pad 2 m @ ''-'' @ pad 2 d = pad 4 y' @ ''-'' @ pad 2 m' @ ''-'' @ pad 2 d'
      \<longleftrightarrow> t div day = t' div day" by simp
  show "pad 4 y @ ''-'' @ pad 2 m = pad 4 y' @ ''-'' @ pad 2 m' \<longleftrightarrow> y = y' \<and> m = m'"
    using len f f' by (subst append_fixed; simp add: pad_inj)
qed

lemma hour_key_eq:
  assumes "0 \<le> t" "0 \<le> t'"
    and ymd: "days_to_date (t div day) = (y, m, d)" and ymd': "days_to_date (t' div day) = (y', m', d')"
  shows "(pad 4 y @ ''-'' @ pad 2 m @ ''-'' @ pad 2 d) @ ''T'' @ pad 2 (t mod day div hour)
         = (pad 4 y' @ ''-'' @ pad 2 m' @ ''-'' @ pad 2 d') @ ''T'' @ pad 2 (t' mod day div hour)
         \<longleftrightarrow> t div hour = t' div hour"
proof -
  have h: "0 \<le> t mod day div hour" "t mod day div hour < 100" for t :: int by simp_all
  have "t div day = t' div day" if "t div hour = t' div hour"
  proof -
    have "t div (hour * 24) = t' div (hour * 24)" by (simp only: zdiv_zmult2_eq [of 24] that)
    then show ?thesis by (simp only: mult.commute)
  qed
  then have "t div hour = t' div hour \<longleftrightarrow> t div day = t' div day \<and> t mod day div hour = t' mod day div hour"
    by (intro digit_eq key_hour_day)
  moreover have "''T'' @ pad 2 (t mod day div hour) = ''T'' @ pad 2 (t' mod day div hour)
      \<longleftrightarrow> t mod day div hour = t' mod day div hour"
    using h by (simp only: append_eq_append_conv pad_inj simp_thms)
  ultimately show ?thesis
    using date_key_eq(1) [OF assms] length_pad2 [OF h, of t] length_pad2 [OF h, of t']
    by (subst append_fixed) simp_all
qed


lemma period_key_next:
  assumes "0 \<le> t" "0 \<le> t'"
  shows "period_key p t = period_key p t' \<longleftrightarrow> period_next p t = period_next p t'"
proof -
  obtain y m d where ymd: "days_to_date (t div day) = (y, m, d)" by (metis prod_cases3)
  obtain y' m' d' where ymd': "days_to_date (t' div day) = (y', m', d')" by (metis prod_cases3)
  have k0: "0 < hour" "0 < day" by simp_all
  have cancel: "(a + 1) * k = (b + 1) * k \<longleftrightarrow> a = b" if "0 < k" for a b k :: int using that by simp
  consider "p = ''hour''" | "p = ''day''" | "p \<noteq> ''hour''" "p \<noteq> ''day''" by blast
  then show ?thesis
  proof cases
    case 1
    then show ?thesis
      using hour_key_eq [OF assms ymd ymd']
      by (simp only: 1 period_next_hour cancel [OF k0(1)])
        (simp only: period_key_def Let_def ymd ymd' prod.case simp_thms if_True append_assoc)
  next
    case 2
    then show ?thesis
      using date_key_eq(1) [OF assms ymd ymd']
      by (simp only: 2 period_next_day cancel [OF k0(2)])
        (unfold period_key_def Let_def ymd ymd', simp)
  next
    case 3
    then have "period_key p t = period_key p t' \<longleftrightarrow> y = y' \<and> m = m'"
      using date_key_eq(2) [OF assms ymd ymd'] by (unfold period_key_def Let_def ymd ymd') simp
    moreover have "period_next p t = period_next p t' \<longleftrightarrow> y = y' \<and> m = m'"
      using month_next_eq [OF 3 ymd ymd']
      by (metis period_next_month [OF 3 ymd] period_next_month [OF 3 ymd'])
    ultimately show ?thesis by simp
  qed
qed

subsection \<open>The counter implements a ledger\<close>

text \<open>
  The specification: every admitted charge is written in a ledger; a charge fits when what the
  ledger holds for the calendar window of its instant, plus the charge, is within the allowance.
  Windows are told apart by their key, which is how the shared-state implementation names them.
\<close>

type_synonym ledger = "(time \<times> int) list"

definition spent :: "Period \<Rightarrow> ledger \<Rightarrow> time \<Rightarrow> int" where
  "spent p led t = sum_list (map snd (filter (\<lambda>(t', n). period_key p t' = period_key p t) led))"

datatype budget_op = Charge int | Inspect

fun ledger_run :: "Period \<Rightarrow> int \<Rightarrow> ledger \<Rightarrow> (time \<times> budget_op) list \<Rightarrow> BudgetResult list" where
  "ledger_run p l led [] = []"
| "ledger_run p l led ((t, Charge n) # ops) =
     (let ok = (spent p led t + n \<le> l); led' = (if ok then (t, n) # led else led)
      in \<lparr>br_Allowed = ok, br_Used = spent p led' t, br_Limit = l, br_Resets = period_next p t,
          br_Degraded = False\<rparr> # ledger_run p l led' ops)"
| "ledger_run p l led ((t, Inspect) # ops) =
     \<lparr>br_Allowed = spent p led t < l, br_Used = spent p led t, br_Limit = l,
      br_Resets = period_next p t, br_Degraded = False\<rparr> # ledger_run p l led ops"

fun budget_run :: "Budget \<Rightarrow> (time \<times> budget_op) list \<Rightarrow> BudgetResult list" where
  "budget_run b [] = []"
| "budget_run b ((t, Charge n) # ops) = (let (r, b') = Add_budget b n t in r # budget_run b' ops)"
| "budget_run b ((t, Inspect) # ops) = (let (r, b') = Used_budget b t in r # budget_run b' ops)"

text \<open>The coupling: the counter holds what the ledger holds for the window it is in.\<close>

definition window_current :: "Period \<Rightarrow> time \<Rightarrow> time \<Rightarrow> bool" where
  "window_current p now w \<longleftrightarrow> (\<forall>t. now \<le> t \<and> t < w \<longrightarrow> period_next p t = w)"

lemma window_current_next: "window_current p t (period_next p t)"
  using next_stable by (auto simp: window_current_def)

lemma window_currentD: "window_current p now w \<Longrightarrow> now \<le> t \<Longrightarrow> t < w \<Longrightarrow> period_next p t = w"
  by (auto simp: window_current_def)

lemma window_current_mono: "window_current p now w \<Longrightarrow> now \<le> t \<Longrightarrow> window_current p t w"
  by (auto simp: window_current_def)

definition ledger_rel :: "Period \<Rightarrow> int \<Rightarrow> time \<Rightarrow> memBudget \<Rightarrow> ledger \<Rightarrow> bool" where
  "ledger_rel p l now b led \<longleftrightarrow>
     mb_period b = p \<and> mb_limit b = l \<and> 0 \<le> now \<and> 0 \<le> mb_used b \<and> mb_used b \<le> l \<and>
     (\<forall>(t, n) \<in> set led. 0 \<le> t \<and> period_next p t \<le> mb_windowEnd b) \<and>
     mb_used b = sum_list (map snd (filter (\<lambda>(t, n). period_next p t = mb_windowEnd b) led)) \<and>
     window_current p now (mb_windowEnd b)"

lemma ledger_rel_init:
  "0 < l \<Longrightarrow> newMemBudget p l = MemBudget b \<Longrightarrow> Valid_period p \<Longrightarrow> ledger_rel p l 0 b []"
  by (auto simp: ledger_rel_def newMemBudget_def window_current_def)

lemma spent_next:
  "0 \<le> t \<Longrightarrow> \<forall>(t', n) \<in> set led. 0 \<le> t' \<Longrightarrow>
   spent p led t = sum_list (map snd (filter (\<lambda>(t', n). period_next p t' = period_next p t) led))"
  unfolding spent_def
  by (intro arg_cong [where f = "\<lambda>xs. sum_list (map snd xs)"] filter_cong) (auto simp: period_key_next)

lemma roll_rel:
  assumes r: "ledger_rel p l now b led" and t: "now \<le> t"
  shows "ledger_rel p l t (roll b t) led" and "mb_windowEnd (roll b t) = period_next p t"
    and "mb_used (roll b t) = spent p led t"
proof -
  have t0: "0 \<le> t" using r t by (auto simp: ledger_rel_def)
  have "(ledger_rel p l t (roll b t) led \<and> mb_windowEnd (roll b t) = period_next p t)"
  proof (cases "t < mb_windowEnd b")
    case True
    moreover have "window_current p now (mb_windowEnd b)" using r by (simp add: ledger_rel_def)
    ultimately show ?thesis
      using r t t0 window_currentD window_current_mono by (auto simp: roll_def ledger_rel_def)
  next
    case False
    have lt: "\<forall>(t', n) \<in> set led. period_next p t' < period_next p t"
      using r False next_gt [of t p] by (fastforce simp: ledger_rel_def)
    then have "filter (\<lambda>(t', n). period_next p t' = period_next p t) led = []"
      by (fastforce simp: filter_empty_conv)
    moreover have "0 \<le> l" using r by (auto simp: ledger_rel_def)
    ultimately show ?thesis
      using r t0 False lt window_current_next by (fastforce simp: roll_def ledger_rel_def)
  qed
  then show *: "ledger_rel p l t (roll b t) led" "mb_windowEnd (roll b t) = period_next p t" by auto
  show "mb_used (roll b t) = spent p led t"
    using * t0 by (subst spent_next) (auto simp: ledger_rel_def)
qed


lemma ledger_rel_charge:
  assumes "ledger_rel p l t b led" and w: "mb_windowEnd b = period_next p t" and n: "0 \<le> n" "mb_used b + n \<le> l"
  shows "ledger_rel p l t (b\<lparr>mb_used := mb_used b + n\<rparr>) ((t, n) # led)"
proof -
  have "mb_used b + n = sum_list (map snd (filter (\<lambda>(t, n). period_next p t = mb_windowEnd b) ((t, n) # led)))"
    using assms(1) by (simp add: w ledger_rel_def)
  then show ?thesis using assms by (auto simp: ledger_rel_def)
qed

lemma Add_rel:
  assumes r: "ledger_rel p l now b led" and t: "now \<le> t" and n: "0 \<le> n" "n \<le> max_int64 - l"
    and a: "Add_mem b n t = (res, b')"
  defines "ok \<equiv> spent p led t + n \<le> l"
  defines "led' \<equiv> (if ok then (t, n) # led else led)"
  shows "ledger_rel p l t b' led'"
    and "res = \<lparr>br_Allowed = ok, br_Used = spent p led' t, br_Limit = l,
                br_Resets = period_next p t, br_Degraded = False\<rparr>"
proof -
  note rr = roll_rel [OF r t]
  have b: "0 \<le> mb_used (roll b t)" "mb_used (roll b t) \<le> l" "mb_limit (roll b t) = l"
    using rr(1) by (auto simp: ledger_rel_def)
  have w: "wrap64 (mb_used (roll b t) + n) = spent p led t + n"
    using b n rr(3) less_imp_le [OF int64_bounds(1)] by (subst wrap64_id) linarith+
  have s: "spent p led' t = (if ok then n + spent p led t else spent p led t)"
    by (simp add: led'_def spent_def)
  show "ledger_rel p l t b' led'"
  proof (cases ok)
    case True
    then have "b' = (roll b t)\<lparr>mb_used := spent p led t + n\<rparr>"
      using a w b(3) by (simp add: Add_mem_def Let_def ok_def)
    then show ?thesis
      using ledger_rel_charge [OF rr(1,2) n(1)] True rr(3) by (simp add: led'_def ok_def)
  next
    case False
    then have "b' = roll b t" using a w b(3) by (simp add: Add_mem_def Let_def ok_def)
    then show ?thesis using False rr(1) by (simp add: led'_def)
  qed
  show "res = \<lparr>br_Allowed = ok, br_Used = spent p led' t, br_Limit = l,
                br_Resets = period_next p t, br_Degraded = False\<rparr>"
    using a rr(2,3) b w s by (auto simp: Add_mem_def Let_def ok_def split: if_splits)
qed

text \<open>An operation a caller may make: its charge is not negative and cannot overflow the counter.\<close>

definition fair_op :: "int \<Rightarrow> time \<times> budget_op \<Rightarrow> bool" where
  "fair_op l op = (case snd op of Charge n \<Rightarrow> 0 \<le> n \<and> n \<le> max_int64 - l | Inspect \<Rightarrow> True)"

lemma budget_run_ledger:
  "ledger_rel p l now b led \<Longrightarrow> sorted (map fst ops) \<Longrightarrow> \<forall>op \<in> set ops. now \<le> fst op \<Longrightarrow>
   list_all (fair_op l) ops \<Longrightarrow> budget_run (MemBudget b) ops = ledger_run p l led ops"
proof (induction ops arbitrary: now b led)
  case (Cons op ops)
  obtain t o' where op: "op = (t, o')" by force
  have t: "now \<le> t" and ts: "\<forall>op \<in> set ops. t \<le> fst op" using Cons.prems by (auto simp: op)
  show ?case
  proof (cases o')
    case (Charge n)
    obtain res b' where a: "Add_mem b n t = (res, b')" by force
    have n: "0 \<le> n" "n \<le> max_int64 - l" using Cons.prems(4) by (auto simp: op Charge fair_op_def)
    note ar = Add_rel [OF Cons.prems(1) t n a]
    show ?thesis
      using Cons.IH [OF ar(1)] ts Cons.prems(2,4) ar(2) by (simp add: op Charge Add_budget_def a Let_def)
  next
    case Inspect
    note rr = roll_rel [OF Cons.prems(1) t]
    have "mb_limit (roll b t) = l" using rr(1) by (simp add: ledger_rel_def)
    then show ?thesis
      using Cons.IH [OF rr(1)] ts Cons.prems(2,4) rr(2,3)
      by (simp add: op Inspect Used_budget_def Used_mem_def Let_def)
  qed
qed simp

text \<open>
  C30. The in-memory budget is the ledger: for every valid period and positive allowance, and every
  sequence of charges and inspections at non-decreasing instants whose charges do not overflow, each
  answer (admitted or not, what is used, when it resets) is the one the ledger of admitted charges
  gives for the calendar window of that instant. So what is admitted within one window never exceeds
  the allowance, a refused charge records nothing, and a new window starts from zero.
\<close>

theorem budget_is_ledger:
  assumes "Valid_period p" "0 < l" "l \<le> max_int64"
    and "sorted (map fst ops)" "\<forall>op \<in> set ops. 0 \<le> fst op" "list_all (fair_op l) ops"
  shows "budget_run (newMemBudget p l) ops = ledger_run p l [] ops"
proof -
  obtain b where b: "newMemBudget p l = MemBudget b" using assms(2) by (simp add: newMemBudget_def)
  show ?thesis
    using budget_run_ledger [OF ledger_rel_init [OF assms(2) b assms(1)] assms(4,5,6)] b by simp
qed

theorem budget_is_ledger_witness:
  "map br_Allowed (budget_run (newMemBudget ''hour'' 2) [(0, Charge 2), (1, Charge 1), (hour, Charge 1)])
     = [True, False, True]"
proof -
  have k: "period_key ''hour'' 0 = period_key ''hour'' 1" "period_key ''hour'' 0 \<noteq> period_key ''hour'' hour"
    by (simp_all add: period_key_next period_next_hour)
  have "budget_run (newMemBudget ''hour'' 2) [(0, Charge 2), (1, Charge 1), (hour, Charge 1)]
      = ledger_run ''hour'' 2 [] [(0, Charge 2), (1, Charge 1), (hour, Charge 1)]"
    by (rule budget_is_ledger) (simp_all add: Valid_period_def fair_op_def max_int64_def)
  then show ?thesis using k by (simp add: spent_def Let_def)
qed

text \<open>
  The two ways of telling windows apart agree: two instants have the same window key, by which
  shared state counts, exactly when they have the same reset instant, by which the in-memory counter
  rolls. In particular the end of a month, of a leap February and of a year fall where the key changes.
\<close>

theorem window_key_iff_reset:
  assumes "0 \<le> t" "0 \<le> t'"
  shows "period_key p t = period_key p t' \<longleftrightarrow> period_next p t = period_next p t'"
  by (rule period_key_next [OF assms])

theorem window_key_iff_reset_witness:
  "(period_key ''day'' 0 = period_key ''day'' 1) \<and> (period_key ''day'' 0 \<noteq> period_key ''day'' day)"
  using window_key_iff_reset [of 0 1 "''day''"] window_key_iff_reset [of 0 day "''day''"]
  by (simp add: period_next_day)

end
