(* ===== verification/Float64.thy ===== *)
theory Float64
  imports Fold_Prelude "HOL-Library.Log_Nat"
begin

section \<open>Rounding of float64 results\<close>

text \<open>
  A Go \<open>float64\<close> operation delivers the exact result rounded to 53 significant bits, ties to even.
  \<open>fl\<close> is that rounding on rationals; the exponent range is left unbounded, which is exact for the
  magnitudes the rate limiter computes with (between \<open>2 ^ -97\<close>, the smallest difference that can
  arise, and \<open>2 ^ 64\<close>). The facts its clients use are those of the locale \<open>float_rounding\<close>:
  rounding is monotone and leaves every integer of at most 53 bits alone. The interpretation \<open>f64\<close>
  discharges them for \<open>fl\<close>.
\<close>

subsection \<open>The interface\<close>

locale float_rounding =
  fixes rnd :: "rat \<Rightarrow> rat"
  assumes mono: "x \<le> y \<Longrightarrow> rnd x \<le> rnd y"
    and exact: "\<bar>n\<bar> \<le> 2 ^ 53 \<Longrightarrow> rnd (of_int n) = of_int n"
begin

lemma rnd_0: "rnd 0 = 0"
  using exact [of 0] by simp

lemma rnd_1: "rnd 1 = 1"
  using exact [of 1] by simp

lemma nonneg: "0 \<le> x \<Longrightarrow> 0 \<le> rnd x"
  using mono [of 0 x] by (simp add: rnd_0)

lemma ge_int: "\<bar>n\<bar> \<le> 2 ^ 53 \<Longrightarrow> of_int n \<le> x \<Longrightarrow> of_int n \<le> rnd x"
  using mono [of "of_int n" x] by (simp add: exact)

lemma le_int: "\<bar>n\<bar> \<le> 2 ^ 53 \<Longrightarrow> x \<le> of_int n \<Longrightarrow> rnd x \<le> of_int n"
  using mono [of x "of_int n"] by (simp add: exact)

end

subsection \<open>Round to nearest, ties to even\<close>

definition rne :: "rat \<Rightarrow> int" where
  "rne x = (let f = \<lfloor>x\<rfloor>; d = x - of_int f in
            if d < 1 / 2 then f else if 1 / 2 < d then f + 1 else if even f then f else f + 1)"

text \<open>The exponent of a positive rational: the \<open>e\<close> with \<open>2 ^ e \<le> x < 2 ^ (e + 1)\<close>.\<close>

definition expo :: "rat \<Rightarrow> int" where
  "expo x = (let (p, q) = quotient_of x; e = bitlen p - bitlen q
             in if 2 powi e \<le> x then e else e - 1)"

definition fl_pos :: "rat \<Rightarrow> rat" where
  "fl_pos x = (let u = 2 powi (expo x - 52) in of_int (rne (x / u)) * u)"

definition fl :: "rat \<Rightarrow> rat" where
  "fl x = (if x = 0 then 0 else if 0 < x then fl_pos x else - fl_pos (- x))"

lemma rne_int [simp]: "rne (of_int n) = n"
  by (simp add: rne_def)

lemma rne_mono: "x \<le> y \<Longrightarrow> rne x \<le> rne y"
proof -
  assume xy: "x \<le> y"
  show ?thesis
  proof (cases "\<lfloor>x\<rfloor> = \<lfloor>y\<rfloor>")
    case True
    then show ?thesis using xy by (auto simp: rne_def Let_def)
  next
    case False
    then have "\<lfloor>x\<rfloor> + 1 \<le> \<lfloor>y\<rfloor>" using floor_mono [OF xy] by linarith
    moreover have "rne x \<le> \<lfloor>x\<rfloor> + 1" "\<lfloor>y\<rfloor> \<le> rne y" by (auto simp: rne_def Let_def)
    ultimately show ?thesis by linarith
  qed
qed

lemma bitlen_powi: "0 < p \<Longrightarrow> 2 powi (bitlen p - 1) \<le> (of_int p :: rat) \<and> of_int p < (2 :: rat) powi bitlen p"
proof -
  assume p: "0 < p"
  define k where "k = nat (bitlen p - 1)"
  have b: "bitlen p = int k + 1" using p bitlen_eq_zero_iff [of p] bitlen_nonneg [of p] by (simp add: k_def)
  have "nat (bitlen p - 1) = k" "nat (bitlen p) = k + 1" by (simp_all add: b)
  then have "2 ^ k \<le> p" "p < 2 ^ (k + 1)" using bitlen_bounds [OF p] by simp_all
  then have "(of_int (2 ^ k) :: rat) \<le> of_int p" "of_int p < (of_int (2 ^ (k + 1)) :: rat)"
    by (simp_all only: of_int_le_iff of_int_less_iff)
  then show ?thesis by (simp add: b power_int_add)
qed

lemma expo_bounds:
  assumes "0 < x"
  shows "2 powi expo x \<le> x" "x < 2 powi (expo x + 1)"
proof -
  obtain p q where pq: "quotient_of x = (p, q)" by force
  have q: "0 < q" and x: "x = of_int p / of_int q"
    using quotient_of_denom_pos [OF pq] quotient_of_div [OF pq] by auto
  have p: "0 < p" using assms q by (simp add: x zero_less_divide_iff)
  define e where "e = bitlen p - bitlen q"
  have ex: "expo x = (if 2 powi e \<le> x then e else e - 1)" by (simp add: expo_def pq e_def)
  note bp = bitlen_powi [OF p] and bq = bitlen_powi [OF q]
  have q0: "(0 :: rat) < of_int q" using q by simp
  have "2 powi (e - 1) * of_int q \<le> 2 powi (e - 1) * (2 :: rat) powi bitlen q"
    using bq by (intro mult_left_mono) auto
  also have "\<dots> = 2 powi (bitlen p - 1)" by (simp add: e_def flip: power_int_add)
  also have "\<dots> \<le> of_int p" using bp by simp
  finally have lo: "2 powi (e - 1) \<le> x" using q0 by (simp add: x pos_le_divide_eq)
  have "of_int p < (2 :: rat) powi bitlen p" using bp by simp
  also have "\<dots> = 2 powi (e + 1) * 2 powi (bitlen q - 1)" by (simp add: e_def flip: power_int_add)
  also have "\<dots> \<le> 2 powi (e + 1) * of_int q" using bq by (intro mult_left_mono) auto
  finally have hi: "x < 2 powi (e + 1)" using q0 by (simp add: x pos_divide_less_eq)
  show "2 powi expo x \<le> x" "x < 2 powi (expo x + 1)" using lo hi by (auto simp: ex)
qed

subsection \<open>The laws hold for the rounding\<close>

lemma powi_scale: "(2 :: rat) powi e = of_int (2 ^ k) * 2 powi (e - int k)"
  using power_int_add [of "2 :: rat" "int k" "e - int k"] by simp

lemma scaled_bounds:
  assumes "0 < x"
  defines "z \<equiv> x / 2 powi (expo x - 52)"
  shows "of_int (2 ^ 52) \<le> z" "z \<le> of_int (2 ^ 53)"
proof -
  have u: "(0 :: rat) < 2 powi (expo x - 52)" by simp
  have "(2 :: rat) ^ 52 * 2 powi (expo x - 52) = 2 powi expo x"
    "(2 :: rat) ^ 53 * 2 powi (expo x - 52) = 2 powi (expo x + 1)"
    using powi_scale [of "expo x" 52] powi_scale [of "expo x + 1" 53] by simp_all
  with expo_bounds [OF assms(1)] show "of_int (2 ^ 52) \<le> z" "z \<le> of_int (2 ^ 53)"
    using u by (simp_all add: z_def pos_le_divide_eq pos_divide_le_eq)
qed

lemma fl_pos_bounds:
  assumes "0 < x"
  shows "2 powi expo x \<le> fl_pos x" "fl_pos x \<le> 2 powi (expo x + 1)"
proof -
  have r: "2 ^ 52 \<le> rne (x / 2 powi (expo x - 52))" "rne (x / 2 powi (expo x - 52)) \<le> 2 ^ 53"
    using rne_mono [OF scaled_bounds(1) [OF assms]] rne_mono [OF scaled_bounds(2) [OF assms]]
    by (simp_all only: rne_int)
  have e: "2 powi expo x = of_int (2 ^ 52) * (2 :: rat) powi (expo x - 52)"
    "2 powi (expo x + 1) = of_int (2 ^ 53) * (2 :: rat) powi (expo x - 52)"
    using powi_scale [of "expo x" 52] powi_scale [of "expo x + 1" 53] by simp_all
  show "2 powi expo x \<le> fl_pos x" "fl_pos x \<le> 2 powi (expo x + 1)"
    unfolding fl_pos_def Let_def e using r by (intro mult_right_mono; simp only: of_int_le_iff; simp)+
qed

lemma expo_mono: "0 < x \<Longrightarrow> x \<le> y \<Longrightarrow> expo x \<le> expo y"
proof (rule ccontr)
  assume x: "0 < x" and xy: "x \<le> y" and "\<not> expo x \<le> expo y"
  then have "(2 :: rat) powi (expo y + 1) \<le> 2 powi expo x" by (intro power_int_increasing) auto
  moreover have "y < 2 powi (expo y + 1)" using expo_bounds(2) [of y] x xy by simp
  ultimately show False using expo_bounds(1) [OF x] xy by linarith
qed

lemma fl_pos_mono: "0 < x \<Longrightarrow> x \<le> y \<Longrightarrow> fl_pos x \<le> fl_pos y"
proof -
  assume x: "0 < x" and xy: "x \<le> y"
  then have y: "0 < y" by simp
  show ?thesis
  proof (cases "expo x = expo y")
    case True
    have "rne (x / 2 powi (expo y - 52)) \<le> rne (y / 2 powi (expo y - 52))"
      using xy by (intro rne_mono divide_right_mono) auto
    then show ?thesis unfolding fl_pos_def Let_def True by (intro mult_right_mono) auto
  next
    case False
    then have "expo x + 1 \<le> expo y" using expo_mono [OF x xy] by simp
    then have "(2 :: rat) powi (expo x + 1) \<le> 2 powi expo y" by (intro power_int_increasing) auto
    then show ?thesis using fl_pos_bounds(2) [OF x] fl_pos_bounds(1) [OF y] by linarith
  qed
qed

lemma fl_pos_nonneg: "0 < x \<Longrightarrow> 0 \<le> fl_pos x"
  by (rule order_trans [OF _ fl_pos_bounds(1)]) simp_all

lemma fl_mono: "x \<le> y \<Longrightarrow> fl x \<le> fl y"
proof -
  assume xy: "x \<le> y"
  consider "0 < x" | "y < 0" | "x \<le> 0" "0 \<le> y" by linarith
  then show ?thesis
  proof cases
    case 1
    then show ?thesis using xy fl_pos_mono by (simp add: fl_def)
  next
    case 2
    then show ?thesis using xy fl_pos_mono [of "- y" "- x"] by (simp add: fl_def)
  next
    case 3
    have "fl x \<le> 0" using 3 fl_pos_nonneg [of "- x"] by (cases "x = 0") (simp_all add: fl_def)
    also have "0 \<le> fl y" using 3 fl_pos_nonneg [of y] by (cases "y = 0") (simp_all add: fl_def)
    finally show ?thesis .
  qed
qed

lemma fl_pos_int:
  assumes "0 < n" "n \<le> 2 ^ 53"
  shows "fl_pos (of_int n) = of_int n"
proof -
  define e where "e = expo (of_int n)"
  have n0: "(0 :: rat) < of_int n" using assms by simp
  have lo: "2 powi e \<le> (of_int n :: rat)" using expo_bounds(1) [OF n0] by (simp add: e_def)
  have hi: "(of_int n :: rat) < 2 powi (e + 1)" using expo_bounds(2) [OF n0] by (simp add: e_def)
  have nn: "(of_int n :: rat) \<le> 2 ^ 53" using assms(2) by (metis of_int_le_iff of_int_numeral of_int_power)
  have "\<exists>z. (of_int n :: rat) / 2 powi (e - 52) = of_int z"
  proof (cases "e \<le> 52")
    case True
    have "(2 :: rat) powi (e - 52) * 2 ^ nat (52 - e) = 1"
      using True power_int_add [of "2 :: rat" "e - 52" "52 - e"] by (simp add: power_int_def)
    then have "(of_int n :: rat) / 2 powi (e - 52) = of_int (n * 2 ^ nat (52 - e))"
      by (simp add: field_simps)
    then show ?thesis by blast
  next
    case False
    then have "(2 :: rat) powi 53 \<le> 2 powi e" by (intro power_int_increasing) auto
    then have n53: "(of_int n :: rat) = 2 ^ 53" using lo nn by (simp add: power_int_def)
    have "e < 54"
    proof (rule ccontr)
      assume "\<not> e < 54"
      then have "(2 :: rat) powi 54 \<le> 2 powi e" by (intro power_int_increasing) auto
      then show False using lo n53 by (simp add: power_int_def)
    qed
    with False have "e = 53" by simp
    then have "(of_int n :: rat) / 2 powi (e - 52) = of_int (2 ^ 52)" using n53 by simp
    then show ?thesis by blast
  qed
  then obtain z where z: "(of_int n :: rat) / 2 powi (e - 52) = of_int z" by blast
  then have "of_int z * 2 powi (e - 52) = (of_int n :: rat)" by (simp add: field_simps)
  then show ?thesis by (simp add: fl_pos_def Let_def z flip: e_def)
qed

interpretation f64: float_rounding fl
proof
  fix x y :: rat
  show "x \<le> y \<Longrightarrow> fl x \<le> fl y" by (rule fl_mono)
next
  fix n :: int
  assume n: "\<bar>n\<bar> \<le> 2 ^ 53"
  show "fl (of_int n) = of_int n"
  proof (cases "0 \<le> n")
    case True
    then show ?thesis using n fl_pos_int [of n] by (cases "n = 0") (auto simp: fl_def)
  next
    case False
    then show ?thesis using n fl_pos_int [of "- n"] by (auto simp: fl_def)
  qed
qed

end
