(* ===== verification/Rate_Limit.thy ===== *)
theory Rate_Limit
  imports Float64
begin

section \<open>The rate limiter (src/internal/ratelimit/ratelimit.go)\<close>

text \<open>
  A two-bucket sliding window: the count of the current minute plus the count of the previous one
  weighted by how much of it still overlaps. The clock reading is an argument; \<open>Allow\<close> holds the
  limiter's mutex throughout. The weighting is \<open>float64\<close> arithmetic, rounded by \<open>fl\<close>; the argument
  \<open>fma\<close> says whether the compiler fused the product and the sum, which the Go specification permits
  and which differs between targets, so a theorem for both values holds on every target.
\<close>

record Limiter =
  rpm :: int
  window :: duration
  curStart :: time
  curCount :: int
  l_prev :: int

definition New_limiter :: "int \<Rightarrow> Limiter option" where
  "New_limiter n =
     (if n \<le> 0 then None
      else Some \<lparr>rpm = n, window = minute, curStart = 0, curCount = 0, l_prev = 0\<rparr>)"

text \<open>The loop that moves the buckets forward; not returning would be \<open>None\<close>.\<close>

partial_function (option) advance :: "Limiter \<Rightarrow> time \<Rightarrow> Limiter option" where
  "advance l now =
     (if window l \<le> time_sub now (curStart l)
      then if 2 * window l \<le> time_sub now (curStart l)
           then Some (l\<lparr>l_prev := 0, curCount := 0, curStart := now\<rparr>)
           else advance (l\<lparr>l_prev := curCount l, curCount := 0, curStart := curStart l + window l\<rparr>) now
      else Some l)"

definition effective :: "bool \<Rightarrow> Limiter \<Rightarrow> time \<Rightarrow> rat" where
  "effective fma l now =
     (let elapsed = fl (fl (of_int (time_sub now (curStart l))) / fl (of_int (window l)));
          p = fl (of_int (l_prev l)); w = fl (1 - elapsed); c = fl (of_int (curCount l))
      in if fma then fl (p * w + c) else fl (fl (p * w) + c))"

definition Allow_limiter :: "bool \<Rightarrow> Limiter \<Rightarrow> time \<Rightarrow> (bool \<times> duration \<times> Limiter) option" where
  "Allow_limiter fma l0 now =
     (let l1 = (if curStart l0 = 0 then l0\<lparr>curStart := now\<rparr> else l0) in
      case advance l1 now of
        None \<Rightarrow> None
      | Some l \<Rightarrow>
          (if fl (of_int (rpm l)) < fl (effective fma l now + 1)
           then Some (False, window l - time_sub now (curStart l), l)
           else Some (True, 0, l\<lparr>curCount := curCount l + 1\<rparr>)))"

definition Allow_limiter_nil :: "bool \<Rightarrow> Limiter option \<Rightarrow> time \<Rightarrow> (bool \<times> duration \<times> Limiter option) option" where
  "Allow_limiter_nil fma ol now =
     (case ol of None \<Rightarrow> Some (True, 0, None)
      | Some l \<Rightarrow> map_option (\<lambda>(ok, d, l'). (ok, d, Some l')) (Allow_limiter fma l now))"

subsection \<open>Invariant\<close>

definition limiter_inv :: "Limiter \<Rightarrow> bool" where
  "limiter_inv l \<longleftrightarrow> 0 < rpm l \<and> rpm l < 2 ^ 53 \<and> window l = minute \<and>
     0 \<le> curCount l \<and> curCount l \<le> rpm l \<and> 0 \<le> l_prev l \<and> l_prev l \<le> rpm l"

lemma minute_bounds: "min_int64 < minute" "minute \<le> max_int64" "min_int64 < 2 * minute" "2 * minute \<le> max_int64"
  by (simp_all add: min_int64_def max_int64_def)

lemma time_sub_minute:
  "minute \<le> time_sub a b \<longleftrightarrow> b + minute \<le> a" "2 * minute \<le> time_sub a b \<longleftrightarrow> b + 2 * minute \<le> a"
  by (rule time_sub_ge_iff, rule minute_bounds, rule minute_bounds)+

text \<open>The loop ends after at most one round.\<close>

lemma advance_eq:
  assumes "window l = minute"
  shows "advance l now = Some
    (if now < curStart l + minute then l
     else if curStart l + 2 * minute \<le> now then l\<lparr>l_prev := 0, curCount := 0, curStart := now\<rparr>
     else l\<lparr>l_prev := curCount l, curCount := 0, curStart := curStart l + minute\<rparr>)"
proof -
  define l' where "l' = l\<lparr>l_prev := curCount l, curCount := 0, curStart := curStart l + window l\<rparr>"
  have w: "window l' = minute" "curStart l' = curStart l + minute" using assms by (simp_all add: l'_def)
  have "advance l' now = Some l'" if "now < curStart l + 2 * minute"
    using that time_sub_minute(1) [of now "curStart l'"] by (subst advance.simps) (simp add: w)
  then show ?thesis
    using time_sub_minute [of now "curStart l"] assms
    by (subst advance.simps) (auto simp flip: l'_def, auto simp: l'_def)
qed

lemma advance_inv: "limiter_inv l \<Longrightarrow> advance l now = Some l' \<Longrightarrow> limiter_inv l' \<and> rpm l' = rpm l"
  using advance_eq [of l now] by (auto simp: limiter_inv_def split: if_splits)

lemma advance_window:
  assumes "window l = minute" "curStart l \<le> now" "advance l now = Some l'"
  shows "curStart l' \<le> now" "now < curStart l' + minute"
  using advance_eq [OF assms(1), of now] assms(2,3) by (auto split: if_splits)

lemma effective_ge:
  assumes i: "limiter_inv l" and s: "curStart l \<le> now" "now < curStart l + minute"
  shows "of_int (curCount l) \<le> effective fma l now"
proof -
  have d: "time_sub now (curStart l) = now - curStart l" "0 \<le> now - curStart l" "now - curStart l \<le> minute"
    using s by (auto simp: time_sub_def min_int64_def max_int64_def)
  have fd: "fl (of_int (now - curStart l)) = of_int (now - curStart l)" using d by (intro f64.exact) auto
  have fw: "fl (of_int minute) = of_int minute" by (intro f64.exact) auto
  define q where "q = (of_int (now - curStart l) / of_int minute :: rat)"
  have "q \<le> 1" unfolding q_def using d(3) by (simp add: divide_le_eq)
  then have "fl q \<le> 1" using f64.le_int [of 1 q] by simp
  then have w: "0 \<le> fl (1 - fl q)" by (intro f64.nonneg) simp
  have c: "\<bar>curCount l\<bar> \<le> 2 ^ 53" using i by (auto simp: limiter_inv_def)
  have p: "0 \<le> fl (of_int (l_prev l))" using i by (intro f64.nonneg) (auto simp: limiter_inv_def)
  have pw: "0 \<le> fl (of_int (l_prev l)) * fl (1 - fl q)" using p w by simp
  have "window l = minute" using i by (simp add: limiter_inv_def)
  then have e: "effective fma l now = (let p = fl (of_int (l_prev l)); w = fl (1 - fl q); c = of_int (curCount l)
      in if fma then fl (p * w + c) else fl (fl (p * w) + c))"
    by (simp only: effective_def Let_def d(1) fd fw q_def f64.exact [OF c])
  show ?thesis unfolding e Let_def using pw f64.nonneg [OF pw] f64.ge_int [OF c] by simp
qed

lemma Allow_inv_limiter:
  assumes i: "limiter_inv l" and s: "curStart l \<le> now" and a: "Allow_limiter fma l now = Some (ok, d, l')"
  shows "limiter_inv l'" "curStart l' \<le> now" "now < curStart l' + minute" "rpm l' = rpm l"
proof -
  define l1 where "l1 = (if curStart l = 0 then l\<lparr>curStart := now\<rparr> else l)"
  have i1: "limiter_inv l1" "curStart l1 \<le> now" "window l1 = minute" "rpm l1 = rpm l"
    using i s by (auto simp: l1_def limiter_inv_def)
  obtain l2 where l2: "advance l1 now = Some l2" using advance_eq [OF i1(3)] by blast
  note i2 = advance_inv [OF i1(1) l2] advance_window [OF i1(3,2) l2]
  have r: "fl (of_int (rpm l2)) = of_int (rpm l2)" using i2(1) by (intro f64.exact) (auto simp: limiter_inv_def)
  have "curCount l2 < rpm l2" if "\<not> fl (of_int (rpm l2)) < fl (effective fma l2 now + 1)"
  proof -
    have "\<bar>curCount l2 + 1\<bar> \<le> 2 ^ 53" using i2(1) by (auto simp: limiter_inv_def)
    then have "of_int (curCount l2 + 1) \<le> fl (effective fma l2 now + 1)"
      using effective_ge [OF _ i2(2,3), of fma] i2(1) by (intro f64.ge_int) auto
    then have "(of_int (curCount l2 + 1) :: rat) \<le> of_int (rpm l2)" using that r by simp
    then show ?thesis by (simp only: of_int_le_iff)
  qed
  then show "limiter_inv l'" "curStart l' \<le> now" "now < curStart l' + minute" "rpm l' = rpm l"
    using a i2 i1(4) by (auto simp: Allow_limiter_def Let_def l2 limiter_inv_def simp flip: l1_def split: if_splits)
qed

subsection \<open>Runs\<close>

fun limiter_run :: "bool \<Rightarrow> Limiter \<Rightarrow> time list \<Rightarrow> (bool \<times> duration) list option" where
  "limiter_run fma l [] = Some []"
| "limiter_run fma l (t # ts) =
     (case Allow_limiter fma l t of
        None \<Rightarrow> None
      | Some (ok, d, l') \<Rightarrow> map_option ((#) (ok, d)) (limiter_run fma l' ts))"

definition admitted :: "time list \<Rightarrow> (bool \<times> duration) list \<Rightarrow> time list" where
  "admitted ts rs = map fst (filter (\<lambda>(t, ok, d). ok) (zip ts rs))"

definition in_window :: "time \<Rightarrow> time list \<Rightarrow> int" where
  "in_window from hs = int (length (filter (\<lambda>t. from \<le> t \<and> t < from + minute) hs))"

text \<open>What the two counters say about the requests admitted so far.\<close>

definition limiter_hist :: "Limiter \<Rightarrow> time \<Rightarrow> time list \<Rightarrow> bool" where
  "limiter_hist l now hs \<longleftrightarrow> limiter_inv l \<and> 0 \<le> curStart l \<and> curStart l \<le> now \<and> (\<forall>t \<in> set hs. t \<le> now) \<and>
     (if curStart l = 0 then hs = [] \<and> curCount l = 0 \<and> l_prev l = 0
      else (\<forall>t \<in> set hs. t < curStart l + minute) \<and>
           in_window (curStart l) hs = curCount l \<and>
           in_window (curStart l - minute) hs = l_prev l) \<and>
     (\<forall>from. in_window from hs \<le> 2 * rpm l)"

lemma in_window_nil [simp]: "in_window from [] = 0"
  by (simp add: in_window_def)

lemma in_window_cons:
  "in_window from (t # hs) = (if from \<le> t \<and> t < from + minute then 1 else 0) + in_window from hs"
  by (simp add: in_window_def)

lemma in_window_zero: "\<forall>t \<in> set hs. t < from \<Longrightarrow> in_window from hs = 0"
  by (force simp: in_window_def filter_empty_conv)

lemma in_window_split: "in_window from hs \<le> in_window (s - minute) hs + in_window s hs"
  if "s - minute \<le> from" "\<forall>t \<in> set hs. t < s + minute"
  using that(2) by (induction hs) (use that(1) in \<open>auto simp: in_window_cons\<close>)

lemma advance_hist:
  assumes h: "limiter_hist l now hs" and t: "0 < t" "now \<le> t"
    and a: "advance (if curStart l = 0 then l\<lparr>curStart := t\<rparr> else l) t = Some l'"
  shows "limiter_hist l' t hs" "curStart l' \<noteq> 0" "t < curStart l' + minute" "rpm l' = rpm l"
proof -
  have i: "limiter_inv l" "window l = minute" "curStart l \<le> t" "\<forall>u \<in> set hs. u \<le> t"
    using h t by (auto simp: limiter_hist_def limiter_inv_def)
  define l1 where "l1 = (if curStart l = 0 then l\<lparr>curStart := t\<rparr> else l)"
  have i1: "limiter_inv l1" "window l1 = minute" "0 < curStart l1" "curStart l1 \<le> t" "rpm l1 = rpm l"
    using i t h by (auto simp: l1_def limiter_inv_def limiter_hist_def)
  have a1: "advance l1 t = Some l'" using a by (simp add: l1_def)
  show "rpm l' = rpm l" "t < curStart l' + minute"
    using advance_inv [OF i1(1) a1] advance_window [OF i1(2,4) a1] i1(5) by simp_all
  show c: "curStart l' \<noteq> 0"
    using a1 advance_eq [OF i1(2), of t] i1(3,4) by (auto split: if_splits)
  show "limiter_hist l' t hs"
  proof (cases "curStart l = 0")
    case True
    then show ?thesis using a advance_eq [of "l\<lparr>curStart := t\<rparr>" t] h t
      by (auto simp: limiter_hist_def limiter_inv_def)
  next
    case False
    then have hs: "\<forall>u \<in> set hs. u < curStart l + minute" using h by (simp add: limiter_hist_def)
    consider "t < curStart l + minute" | "curStart l + 2 * minute \<le> t"
      | "curStart l + minute \<le> t" "t < curStart l + 2 * minute" by linarith
    then show ?thesis
    proof cases
      case 1
      then show ?thesis using a advance_eq [of l t] h i False by (auto simp: limiter_hist_def)
    next
      case 2
      then have "in_window t hs = 0" "in_window (t - minute) hs = 0"
        using hs by (auto intro!: in_window_zero)
      then show ?thesis using 2 a advance_eq [of l t] h i False hs
        by (fastforce simp: limiter_hist_def limiter_inv_def)
    next
      case 3
      then have "in_window (curStart l + minute) hs = 0" using hs by (auto intro!: in_window_zero)
      then show ?thesis using 3 a advance_eq [of l t] h i False hs t
        by (fastforce simp: limiter_hist_def limiter_inv_def)
    qed
  qed
qed

lemma Allow_hist:
  assumes h: "limiter_hist l now hs" and t: "0 < t" "now \<le> t"
    and a: "Allow_limiter fma l t = Some (ok, d, l')"
  shows "limiter_hist l' t (if ok then t # hs else hs)" and "rpm l' = rpm l"
    and "ok \<or> (0 < d \<and> d \<le> minute)"
proof -
  define l1 where "l1 = (if curStart l = 0 then l\<lparr>curStart := t\<rparr> else l)"
  obtain l2 where l2: "advance l1 t = Some l2" using a by (auto simp: Allow_limiter_def Let_def l1_def split: option.splits)
  note h2 = advance_hist [OF h t, folded l1_def, OF l2]
  have s: "curStart l \<le> t" "limiter_inv l" using h t by (auto simp: limiter_hist_def)
  note i' = Allow_inv_limiter [OF s(2,1) a]
  have c2: "curStart l2 \<le> t" using h2(1) by (simp add: limiter_hist_def)
  have d2: "time_sub t (curStart l2) = t - curStart l2"
    using c2 h2(3) by (auto simp: time_sub_def min_int64_def max_int64_def)
  have w2: "window l2 = minute" using h2(1) by (simp add: limiter_hist_def limiter_inv_def)
  show "rpm l' = rpm l" by (rule i'(4))
  show "ok \<or> (0 < d \<and> d \<le> minute)"
    using a c2 h2(3) by (auto simp: Allow_limiter_def Let_def l2 d2 w2 simp flip: l1_def split: if_splits)
  show "limiter_hist l' t (if ok then t # hs else hs)"
  proof (cases ok)
    case True
    then have l': "l' = l2\<lparr>curCount := curCount l2 + 1\<rparr>"
      using a by (auto simp: Allow_limiter_def Let_def l2 simp flip: l1_def split: if_splits)
    have hs: "\<forall>u \<in> set hs. u < curStart l2 + minute" "in_window (curStart l2) hs = curCount l2"
        "in_window (curStart l2 - minute) hs = l_prev l2" "\<forall>from. in_window from hs \<le> 2 * rpm l2"
      using h2(1,2) by (simp_all add: limiter_hist_def)
    have b: "l_prev l2 \<le> rpm l2" "curCount l2 + 1 \<le> rpm l2" using i'(1) l' by (simp_all add: limiter_inv_def)
    have "in_window from (t # hs) \<le> 2 * rpm l2" for "from"
    proof (cases "from \<le> t \<and> t < from + minute")
      case True
      then have "curStart l2 - minute \<le> from" using c2 by simp
      then have "in_window from hs \<le> l_prev l2 + curCount l2" using in_window_split [OF _ hs(1)] hs(2,3) by simp
      then show ?thesis using b by (simp add: in_window_cons)
    qed (use hs(4) in \<open>auto simp: in_window_cons\<close>)
    then show ?thesis
      using True i'(1) h2 hs c2 by (auto simp: limiter_hist_def l' in_window_cons)
  next
    case False
    then have "l' = l2" using a by (auto simp: Allow_limiter_def Let_def l2 simp flip: l1_def split: if_splits)
    then show ?thesis using False h2(1) by simp
  qed
qed


lemma Allow_returns: "limiter_inv l \<Longrightarrow> \<exists>ok d l'. Allow_limiter fma l t = Some (ok, d, l')"
  using advance_eq [of l t] advance_eq [of "l\<lparr>curStart := t\<rparr>" t]
  by (auto simp: Allow_limiter_def Let_def limiter_inv_def)

lemma limiter_run_hist:
  "limiter_hist l now hs \<Longrightarrow> sorted ts \<Longrightarrow> \<forall>t \<in> set ts. 0 < t \<and> now \<le> t \<Longrightarrow>
   \<exists>rs. limiter_run fma l ts = Some rs \<and> length rs = length ts \<and>
     (\<forall>(ok, d) \<in> set rs. ok \<or> 0 < d \<and> d \<le> minute) \<and>
     (\<forall>from. in_window from (rev (admitted ts rs) @ hs) \<le> 2 * rpm l)"
proof (induction ts arbitrary: l now hs)
  case Nil
  then show ?case by (simp add: admitted_def limiter_hist_def)
next
  case (Cons t ts)
  have t: "0 < t" "now \<le> t" using Cons.prems by auto
  obtain ok d l' where a: "Allow_limiter fma l t = Some (ok, d, l')"
    using Allow_returns Cons.prems(1) by (meson limiter_hist_def)
  note h = Allow_hist [OF Cons.prems(1) t a]
  have "\<forall>u \<in> set ts. 0 < u \<and> t \<le> u" "sorted ts" using Cons.prems(2) t by auto
  from Cons.IH [OF h(1) this(2,1)] obtain rs where
    rs: "limiter_run fma l' ts = Some rs" "length rs = length ts"
      "\<forall>(ok, d) \<in> set rs. ok \<or> 0 < d \<and> d \<le> minute"
      "\<forall>from. in_window from (rev (admitted ts rs) @ (if ok then t # hs else hs)) \<le> 2 * rpm l'" by blast
  then show ?case using a h(2,3) by (auto simp: admitted_def split: if_splits)
qed

lemma New_hist: "New_limiter n = Some l \<Longrightarrow> n < 2 ^ 53 \<Longrightarrow> limiter_hist l 0 [] \<and> rpm l = n"
  by (auto simp: New_limiter_def limiter_hist_def limiter_inv_def split: if_splits)

lemma in_window_rev: "in_window from (rev hs) = in_window from hs"
  by (simp add: in_window_def flip: rev_filter)

text \<open>
  C31. The limiter bounds every minute: for every rate below 2^53 and every sequence of requests at
  non-decreasing instants, each call returns (the bucket loop ends), no rolling minute, wherever it
  starts, sees more than twice the rate admitted, and every refusal names a wait of more than zero
  and at most one minute.
\<close>

theorem limiter_rolling_bound:
  assumes "New_limiter n = Some l" "n < 2 ^ 53" "sorted ts" "\<forall>t \<in> set ts. 0 < t"
  shows "\<exists>rs. limiter_run fma l ts = Some rs \<and> length rs = length ts \<and>
     (\<forall>(ok, d) \<in> set rs. ok \<or> 0 < d \<and> d \<le> minute) \<and>
     (\<forall>from. in_window from (admitted ts rs) \<le> 2 * n)"
proof -
  have l: "limiter_hist l 0 []" "rpm l = n" using New_hist [OF assms(1,2)] by auto
  obtain rs where rs: "limiter_run fma l ts = Some rs" "length rs = length ts"
      "\<forall>(ok, d) \<in> set rs. ok \<or> 0 < d \<and> d \<le> minute"
      "\<forall>from. in_window from (rev (admitted ts rs) @ []) \<le> 2 * rpm l"
    using limiter_run_hist [OF l(1) assms(3), of fma] assms(4) by fastforce
  have "in_window from (admitted ts rs) \<le> 2 * n" for "from"
    using rs(4) l(2) by (simp add: in_window_rev)
  with rs show ?thesis by blast
qed

theorem limiter_rolling_bound_witness:
  "\<exists>rs. limiter_run True \<lparr>rpm = 1, window = minute, curStart = 0, curCount = 0, l_prev = 0\<rparr> [1, 2] = Some rs \<and>
     length rs = 2 \<and> in_window 1 (admitted [1, 2] rs) \<le> 2"
proof -
  have "New_limiter 1 = Some \<lparr>rpm = 1, window = minute, curStart = 0, curCount = 0, l_prev = 0\<rparr>"
    by (simp add: New_limiter_def)
  from limiter_rolling_bound [OF this, of "[1, 2]" True] show ?thesis by force
qed

subsection \<open>Within one minute the limit is exact\<close>

lemma effective_no_prev:
  assumes "limiter_inv l" "l_prev l = 0"
  shows "effective fma l now = of_int (curCount l)"
proof -
  have c: "fl (of_int (curCount l)) = of_int (curCount l)"
    using assms(1) by (intro f64.exact) (auto simp: limiter_inv_def)
  show ?thesis by (simp add: effective_def Let_def assms(2) f64.rnd_0 c)
qed

lemma Allow_no_prev:
  assumes i: "limiter_inv l" "l_prev l = 0" and s: "curStart l = 0 \<or> t < curStart l + minute"
  shows "Allow_limiter fma l t =
    (let l1 = (if curStart l = 0 then l\<lparr>curStart := t\<rparr> else l) in
     if curCount l < rpm l then Some (True, 0, l1\<lparr>curCount := curCount l + 1\<rparr>)
     else Some (False, minute - time_sub t (curStart l1), l1))"
proof -
  define l1 where "l1 = (if curStart l = 0 then l\<lparr>curStart := t\<rparr> else l)"
  have i1: "limiter_inv l1" "l_prev l1 = 0" "window l1 = minute" "curCount l1 = curCount l" "rpm l1 = rpm l"
    using i by (auto simp: l1_def limiter_inv_def)
  have a: "advance l1 t = Some l1" using advance_eq [OF i1(3), of t] s by (auto simp: l1_def)
  have "fl (of_int (curCount l1) + 1) = of_int (curCount l1 + 1)" "fl (of_int (rpm l1)) = of_int (rpm l1)"
    using f64.exact [of "curCount l1 + 1"] f64.exact [of "rpm l1"] i1(1) by (auto simp: limiter_inv_def)
  moreover have "(of_int (rpm l1) :: rat) < of_int (curCount l1 + 1) \<longleftrightarrow> rpm l1 < curCount l1 + 1"
    by (simp only: of_int_less_iff)
  ultimately show ?thesis
    using i1 by (auto simp: Allow_limiter_def Let_def a effective_no_prev [OF i1(1,2)] simp flip: l1_def)
qed


lemma run_no_prev:
  "limiter_inv l \<Longrightarrow> l_prev l = 0 \<Longrightarrow> sorted ts \<Longrightarrow>
   \<forall>t \<in> set ts. 0 < t \<and> t < hd ts + minute \<and> (curStart l = 0 \<or> t < curStart l + minute) \<Longrightarrow>
   0 \<le> curStart l \<Longrightarrow>
   map_option (map fst) (limiter_run fma l ts) =
     Some (map (\<lambda>k. curCount l + int k < rpm l) [0..<length ts])"
proof (induction ts arbitrary: l)
  case (Cons t ts)
  define l1 where "l1 = (if curStart l = 0 then l\<lparr>curStart := t\<rparr> else l)"
  define l2 where "l2 = (if curCount l < rpm l then l1\<lparr>curCount := curCount l + 1\<rparr> else l1)"
  have t: "0 < t" "curStart l = 0 \<or> t < curStart l + minute" using Cons.prems(4) by auto
  have a: "\<exists>d. Allow_limiter fma l t = Some (curCount l < rpm l, d, l2)"
    using Allow_no_prev [OF Cons.prems(1,2) t(2)] by (auto simp: Let_def l1_def l2_def)
  have i2: "limiter_inv l2" "l_prev l2 = 0" "0 \<le> curStart l2" "rpm l2 = rpm l" "curCount l \<le> rpm l"
      "curStart l2 = (if curStart l = 0 then t else curStart l)"
      "curCount l2 = (if curCount l < rpm l then curCount l + 1 else curCount l)"
    using Cons.prems(1,2,5) t by (auto simp: l1_def l2_def limiter_inv_def)
  have "\<forall>u \<in> set ts. 0 < u \<and> u < hd ts + minute \<and> (curStart l2 = 0 \<or> u < curStart l2 + minute)"
    using Cons.prems(3,4) i2(6) by (cases ts) (fastforce split: if_splits)+
  then have "map_option (map fst) (limiter_run fma l2 ts) =
      Some (map (\<lambda>k. curCount l2 + int k < rpm l) [0..<length ts])"
    using Cons.IH [OF i2(1,2) _ _ i2(3)] Cons.prems(3) i2(4) by simp
  moreover have "(curCount l2 + int k < rpm l) = (curCount l + int (Suc k) < rpm l)" for k
    using i2(5,7) by (auto split: if_splits)
  ultimately show ?case
    using a by (auto simp: upt_conv_Cons map_Suc_upt [symmetric] simp del: upt_Suc)
qed simp

text \<open>
  C28. A fresh limiter admits exactly its rate in its first minute: of requests at non-decreasing
  instants within one minute of the first, the first \<open>n\<close> are admitted and every later one is refused.
\<close>

theorem limiter_first_minute:
  assumes "New_limiter n = Some l" "n < 2 ^ 53" "sorted ts" "\<forall>t \<in> set ts. 0 < t \<and> t < hd ts + minute"
  shows "map_option (map fst) (limiter_run fma l ts) = Some (map (\<lambda>k. int k < n) [0..<length ts])"
proof -
  have "limiter_inv l" "l_prev l = 0" "curStart l = 0" "curCount l = 0" "rpm l = n"
    using assms(1,2) by (auto simp: New_limiter_def limiter_inv_def split: if_splits)
  then show ?thesis using run_no_prev [of l ts fma] assms(3,4) by simp
qed

theorem limiter_first_minute_witness:
  "map_option (map fst) (limiter_run False \<lparr>rpm = 2, window = minute, curStart = 0, curCount = 0, l_prev = 0\<rparr>
     [5, 6, 7]) = Some [True, True, False]"
  using limiter_first_minute [of 2 "\<lparr>rpm = 2, window = minute, curStart = 0, curCount = 0, l_prev = 0\<rparr>" "[5, 6, 7]" False]
  by (simp add: New_limiter_def upt_rec)

subsection \<open>A rolling minute can see more than the rate\<close>

lemma fl_half: "fl (1 / 2) = 1 / 2"
  by code_simp

definition burst :: "time list" where
  "burst = [1, 59000000001, 59000000001, 59000000001, 90000000001, 90000000001]"

lemma fl_ints: "fl 0 = 0" "fl 1 = 1" "fl (numeral k) = numeral k" if "numeral k \<le> (2 ^ 53 :: int)"
  using f64.exact [of 0] f64.exact [of 1] f64.exact [of "numeral k"] that by simp_all

definition lim4 :: "time \<Rightarrow> int \<Rightarrow> int \<Rightarrow> Limiter" where
  "lim4 s c p = \<lparr>rpm = 4, window = minute, curStart = s, curCount = c, l_prev = p\<rparr>"

lemma burst_first: "Allow_limiter fma (lim4 0 0 0) 1 = Some (True, 0, lim4 1 1 0)"
  by (subst Allow_no_prev) (simp_all add: lim4_def limiter_inv_def)

lemma burst_second:
  "0 \<le> c \<Longrightarrow> c < 4 \<Longrightarrow> Allow_limiter fma (lim4 1 c 0) 59000000001 = Some (True, 0, lim4 1 (c + 1) 0)"
  by (subst Allow_no_prev) (simp_all add: lim4_def limiter_inv_def)

lemma burst_half:
  "effective fma (lim4 60000000001 c 4) 90000000001 = fl (2 + fl (of_int c))"
  using fl_ints(3) [of "num.Bit0 num.One"] fl_ints(3) [of "num.Bit0 (num.Bit0 num.One)"]
    f64.exact [of "30 * second"] f64.exact [of minute]
  by (simp add: fl_half effective_def Let_def lim4_def time_sub_def min_int64_def max_int64_def)

lemma burst_shift: "advance (lim4 1 4 0) 90000000001 = Some (lim4 60000000001 0 4)"
  by (subst advance_eq) (simp_all add: lim4_def)

lemma burst_stay: "advance (lim4 60000000001 c 4) 90000000001 = Some (lim4 60000000001 c 4)"
  by (subst advance_eq) (simp_all add: lim4_def)

lemma lim4_sel [simp]: "rpm (lim4 s c p) = 4" "curCount (lim4 s c p) = c" "curStart (lim4 s c p) = s"
    "(lim4 s c p)\<lparr>curCount := c'\<rparr> = lim4 s c' p"
  by (simp_all add: lim4_def)

lemma burst_third:
  "Allow_limiter fma (lim4 1 4 0) 90000000001 = Some (True, 0, lim4 60000000001 1 4)"
  "Allow_limiter fma (lim4 60000000001 1 4) 90000000001 = Some (True, 0, lim4 60000000001 2 4)"
  using f64.exact [of 0] f64.exact [of 1] f64.exact [of 2] f64.exact [of 3] f64.exact [of 4]
  by (simp_all add: Allow_limiter_def burst_shift burst_stay burst_half)

text \<open>
  C24. The bound of twice the rate is not slack in the analysis: a limiter of four a minute, asked
  once, three times 59 seconds later and twice 31 seconds after that, admits all six, five of them
  within one rolling minute. The constructor's promise of at most \<open>rpm\<close> per rolling minute holds only
  for minutes aligned with the buckets.
\<close>

theorem rolling_minute_exceeds_rate:
  "New_limiter 4 = Some (lim4 0 0 0) \<and>
   map_option (map fst) (limiter_run fma (lim4 0 0 0) burst) = Some [True, True, True, True, True, True] \<and>
   in_window 59000000001 burst = 5"
proof (intro conjI)
  show "New_limiter 4 = Some (lim4 0 0 0)" by (simp add: New_limiter_def lim4_def)
  show "in_window 59000000001 burst = 5" by (simp add: in_window_def burst_def)
  show "map_option (map fst) (limiter_run fma (lim4 0 0 0) burst) = Some [True, True, True, True, True, True]"
    using burst_second [of 1 fma] burst_second [of 2 fma] burst_second [of 3 fma]
    by (simp add: burst_def burst_first burst_third)
qed

end
