(* ===== verification/Wire_Errors.thy ===== *)
theory Wire_Errors
  imports Budget
begin

section \<open>The errors a client sees\<close>

text \<open>
  Every error value the gateway builds, one constructor per construction site with the arguments of
  its message, and the JSON-RPC code it carries (src/gateway/upstream.go, constants of lines 49 to 54,
  src/gateway/tasks.go for the task code and, in the comment on it, the protocol's code for a missing
  resource, and the standard JSON-RPC codes). \<open>OutcomeNone\<close> is the empty audit outcome. An error
  an upstream answered with is passed through verbatim as \<open>FromUpstream\<close>.
\<close>

datatype wire_error =
    InvalidParams string
  | InternalPanic
  | UnknownNamespace string
  | AllUpstreamsDown "string list"
  | OutsideSubset string string string string
  | AmbiguousTenant string "string list"
  | PolicyDenied string string string "string list"
  | HookDenied string string string string
  | RateLimited string duration
  | CircuitOpen string
  | ConnectFailed string
  | RequestFailed string
  | BudgetExhausted string BudgetResult
  | BadCursor
  | TaskNotFound string
  | ResourceNotFound string
  | FromUpstream int string

definition codeRateLimited :: int where "codeRateLimited = -31040"
definition codeUpstreamDown :: int where "codeUpstreamDown = -31041"
definition codeDenied :: int where "codeDenied = -31042"
definition codeUnknownNamespace :: int where "codeUnknownNamespace = -31043"
definition codeBudgetExhausted :: int where "codeBudgetExhausted = -31044"
definition codeTaskNotFound :: int where "codeTaskNotFound = -31045"
definition CodeInvalidParams :: int where "CodeInvalidParams = -32602"
definition CodeInternalError :: int where "CodeInternalError = -32603"
definition CodeResourceNotFound :: int where "CodeResourceNotFound = -32002"

lemmas code_defs = codeRateLimited_def codeUpstreamDown_def codeDenied_def codeUnknownNamespace_def
  codeBudgetExhausted_def codeTaskNotFound_def CodeInvalidParams_def CodeInternalError_def
  CodeResourceNotFound_def

fun code :: "wire_error \<Rightarrow> int" where
  "code (InvalidParams _) = CodeInvalidParams"
| "code InternalPanic = CodeInternalError"
| "code (UnknownNamespace _) = codeUnknownNamespace"
| "code (AllUpstreamsDown _) = codeUpstreamDown"
| "code (OutsideSubset _ _ _ _) = codeDenied"
| "code (AmbiguousTenant _ _) = CodeInternalError"
| "code (PolicyDenied _ _ _ _) = codeDenied"
| "code (HookDenied _ _ _ _) = codeDenied"
| "code (RateLimited _ _) = codeRateLimited"
| "code (CircuitOpen _) = codeUpstreamDown"
| "code (ConnectFailed _) = codeUpstreamDown"
| "code (RequestFailed _) = codeUpstreamDown"
| "code (BudgetExhausted _ _) = codeBudgetExhausted"
| "code BadCursor = CodeInvalidParams"
| "code (TaskNotFound _) = codeTaskNotFound"
| "code (ResourceNotFound _) = CodeResourceNotFound"
| "code (FromUpstream c _) = c"

datatype Outcome =
  OutcomeNone | OutcomeOK | OutcomeError | OutcomeDenied | OutcomeRateLimited | OutcomeUnauthenticated
  | OutcomeUpstreamDown | OutcomeForbidden | OutcomeBudgetExhausted | OutcomeWarned | OutcomeHookDenied

definition classify :: "wire_error \<Rightarrow> Outcome" where
  "classify e =
     (if code e = codeRateLimited then OutcomeRateLimited
      else if code e = codeUpstreamDown then OutcomeUpstreamDown
      else if code e = codeDenied then OutcomeDenied
      else if code e = codeBudgetExhausted then OutcomeBudgetExhausted
      else OutcomeError)"

end
