(* ===== verification/Tenancy.thy ===== *)
theory Tenancy
  imports Policy_Engine Rate_Limit Wire_Errors "HOL-Library.Multiset"
begin

section \<open>Tenants (src/gateway/tenant.go)\<close>

text \<open>
  A tenant groups principals by a selector and gives the group one budget and one rate-limit bucket.
  Tenants are rebuilt on every reload. They are shared by pointer: \<open>t_addr\<close> is the identity of the
  object within its snapshot, which is what the pointer comparisons of \<open>considerTenant\<close> look at. The
  budgets and buckets are mutable objects as well; \<open>gw_heap\<close> holds those the in-memory state provider
  has created, and a tenant refers to its own by index, so that carrying an object over and creating
  an equal fresh one are different things. A Go map the code looks keys up in is a function; the one
  it ranges over (\<open>byClaim\<close>) is an association list, and \<open>resolveTenant\<close> takes the order in which the
  iteration visits it as an argument.
\<close>

subsection \<open>Configuration\<close>

record BudgetCfg =
  bc_Period :: string
  bc_UpstreamCalls :: int

definition ResolvedPeriod :: "BudgetCfg option \<Rightarrow> string" where
  "ResolvedPeriod b = (case b of None \<Rightarrow> ''month'' | Some c \<Rightarrow> if bc_Period c = '''' then ''month'' else bc_Period c)"

definition Allowance :: "BudgetCfg option \<Rightarrow> int" where
  "Allowance b = (case b of None \<Rightarrow> 0 | Some c \<Rightarrow> if bc_UpstreamCalls c < 0 then 0 else bc_UpstreamCalls c)"

datatype budget_invalid = BadPeriod | NotPositive

definition validate_budget :: "BudgetCfg option \<Rightarrow> budget_invalid option" where
  "validate_budget b =
     (case b of None \<Rightarrow> None
      | Some c \<Rightarrow>
          if bc_Period c \<notin> {'''', ''hour'', ''day'', ''month''} then Some BadPeriod
          else if bc_UpstreamCalls c \<le> 0 then Some NotPositive
          else None)"

record RateLimitCfg =
  RequestsPerMinute :: int
  PerPrincipalPerMinute :: int

record TenantCfg =
  tc_ID :: string
  tc_Subjects :: "PolicySubjects option"
  tc_Budget :: "BudgetCfg option"
  tc_RateLimit :: "RateLimitCfg option"
  tc_Upstreams :: "string list"

subsection \<open>State\<close>

record gw_heap =
  h_budgets :: "Budget list"
  h_limiters :: "Limiter option list"

definition provider_Budget :: "gw_heap \<Rightarrow> string \<Rightarrow> Period \<Rightarrow> int \<Rightarrow> nat \<times> gw_heap" where
  "provider_Budget h scope period limit =
     (length (h_budgets h), h\<lparr>h_budgets := h_budgets h @ [newMemBudget period limit]\<rparr>)"

definition provider_Limiter :: "gw_heap \<Rightarrow> string \<Rightarrow> int \<Rightarrow> nat \<times> gw_heap" where
  "provider_Limiter h scope n =
     (length (h_limiters h), h\<lparr>h_limiters := h_limiters h @ [New_limiter n]\<rparr>)"

record tenant =
  t_addr :: nat
  t_cfg :: TenantCfg
  t_upstreams :: "string set"
  t_budget :: nat
  t_limiter :: nat

record tenantSet =
  ts_byClaim :: "(string \<times> (json \<Rightarrow> tenant list)) list"
  ts_byScope :: "string \<Rightarrow> tenant list"
  ts_byGroup :: "string \<Rightarrow> tenant list"
  ts_scan :: "tenant list"
  ts_byID :: "string \<Rightarrow> tenant option"
  ts_total :: nat

definition no_tenants :: tenantSet where
  "no_tenants = \<lparr>ts_byClaim = [], ts_byScope = (\<lambda>_. []), ts_byGroup = (\<lambda>_. []), ts_scan = [],
                 ts_byID = (\<lambda>_. None), ts_total = 0\<rparr>"

definition tenants_count :: "tenantSet \<Rightarrow> nat" where
  "tenants_count ts = ts_total ts"

subsection \<open>Building a snapshot\<close>

fun is_scalar :: "json \<Rightarrow> bool" where
  "is_scalar (JStr _) = True"
| "is_scalar (JNum _) = True"
| "is_scalar (JBool _) = True"
| "is_scalar _ = False"

definition indexableClaim :: "PolicySubjects option \<Rightarrow> (string \<times> json) option" where
  "indexableClaim so =
     (case so of None \<Rightarrow> None
      | Some s \<Rightarrow>
          if length (ps_Claims s) \<noteq> 1 \<or> ps_Issuers s \<noteq> [] \<or> ps_Subs s \<noteq> [] \<or> ps_Groups s \<noteq> [] \<or> ps_Scopes s \<noteq> []
          then None
          else (case ps_Claims s of
                  (key, val) # _ \<Rightarrow> if is_scalar val then Some (key, val) else None
                | [] \<Rightarrow> None))"

definition indexableGroups :: "PolicySubjects option \<Rightarrow> bool" where
  "indexableGroups so =
     (case so of None \<Rightarrow> False
      | Some s \<Rightarrow> ps_Groups s \<noteq> [] \<and> ps_Claims s = [] \<and> ps_Issuers s = [] \<and> ps_Subs s = [] \<and> ps_Scopes s = [])"

definition indexableScope :: "PolicySubjects option \<Rightarrow> string option" where
  "indexableScope so =
     (case so of None \<Rightarrow> None
      | Some s \<Rightarrow>
          if length (ps_Scopes s) \<noteq> 1 \<or> ps_Claims s \<noteq> [] \<or> ps_Issuers s \<noteq> [] \<or> ps_Subs s \<noteq> [] \<or> ps_Groups s \<noteq> []
          then None else Some (hd (ps_Scopes s)))"

definition indexKey :: "json \<Rightarrow> json" where
  "indexKey v = (if is_scalar v then v else JNull)"

definition claim_bucket :: "(string \<times> (json \<Rightarrow> tenant list)) list \<Rightarrow> string \<Rightarrow> json \<Rightarrow> tenant list" where
  "claim_bucket bc key = (case map_of bc key of None \<Rightarrow> (\<lambda>_. []) | Some byValue \<Rightarrow> byValue)"

text \<open>The assignment to a key of the outer map: in place when the key is there, else a new entry.\<close>

fun put_claim :: "string \<Rightarrow> (json \<Rightarrow> tenant list) \<Rightarrow> (string \<times> (json \<Rightarrow> tenant list)) list
    \<Rightarrow> (string \<times> (json \<Rightarrow> tenant list)) list" where
  "put_claim key b [] = [(key, b)]"
| "put_claim key b ((k, b0) # rest) = (if k = key then (key, b) # rest else (k, b0) # put_claim key b rest)"

definition index :: "tenantSet \<Rightarrow> tenant \<Rightarrow> tenantSet" where
  "index ts t =
     (let s = tc_Subjects (t_cfg t) in
      case indexableClaim s of
        Some (key, val) \<Rightarrow>
          (let byValue = claim_bucket (ts_byClaim ts) key
           in ts\<lparr>ts_byClaim := put_claim key (byValue(val := byValue val @ [t])) (ts_byClaim ts)\<rparr>)
      | None \<Rightarrow>
          if indexableGroups s
          then ts\<lparr>ts_byGroup := fold (\<lambda>g m. m(g := m g @ [t])) (ps_Groups (the s)) (ts_byGroup ts)\<rparr>
          else (case indexableScope s of
                  Some sc \<Rightarrow> ts\<lparr>ts_byScope := (ts_byScope ts)(sc := ts_byScope ts sc @ [t])\<rparr>
                | None \<Rightarrow> ts\<lparr>ts_scan := ts_scan ts @ [t]\<rparr>))"

definition wire :: "gw_heap \<Rightarrow> tenant \<Rightarrow> tenant option \<Rightarrow> tenant \<times> gw_heap" where
  "wire h t prev =
     (let scope = ''tenant:'' @ tc_ID (t_cfg t);
          (b, h1) = (case prev of
              Some p \<Rightarrow>
                if tc_Budget (t_cfg p) = tc_Budget (t_cfg t) then (t_budget p, h)
                else provider_Budget h scope (ResolvedPeriod (tc_Budget (t_cfg t))) (Allowance (tc_Budget (t_cfg t)))
            | None \<Rightarrow>
                provider_Budget h scope (ResolvedPeriod (tc_Budget (t_cfg t))) (Allowance (tc_Budget (t_cfg t))));
          n = (case tc_RateLimit (t_cfg t) of None \<Rightarrow> 0 | Some rl \<Rightarrow> RequestsPerMinute rl);
          (l, h2) = (case prev of
              Some p \<Rightarrow>
                if tc_RateLimit (t_cfg p) = tc_RateLimit (t_cfg t) then (t_limiter p, h1)
                else provider_Limiter h1 scope n
            | None \<Rightarrow> provider_Limiter h1 scope n)
      in (t\<lparr>t_budget := b, t_limiter := l\<rparr>, h2))"

definition blank_tenant :: "nat \<Rightarrow> TenantCfg \<Rightarrow> tenant" where
  "blank_tenant i tc =
     \<lparr>t_addr = i, t_cfg = tc, t_upstreams = set (tc_Upstreams tc), t_budget = 0, t_limiter = 0\<rparr>"

fun build_loop :: "gw_heap \<Rightarrow> tenantSet \<Rightarrow> tenantSet \<Rightarrow> nat \<Rightarrow> TenantCfg list \<Rightarrow> tenantSet \<times> gw_heap" where
  "build_loop h prev ts i [] = (ts, h)"
| "build_loop h prev ts i (tc # tcs) =
     (let (t, h') = wire h (blank_tenant i tc) (ts_byID prev (tc_ID tc));
          ts1 = ts\<lparr>ts_byID := (ts_byID ts)(tc_ID tc \<mapsto> t), ts_total := ts_total ts + 1\<rparr>
      in build_loop h' prev (index ts1 t) (i + 1) tcs)"

definition buildTenants :: "TenantCfg list \<Rightarrow> gw_heap \<Rightarrow> tenantSet \<Rightarrow> tenantSet \<times> gw_heap" where
  "buildTenants tcs h prev = build_loop h prev no_tenants 0 tcs"

subsection \<open>Resolution\<close>

definition considerTenant :: "tenant \<Rightarrow> tenant option \<times> tenant list \<Rightarrow> tenant option \<times> tenant list" where
  "considerTenant t fa =
     (case fa of (found, also) \<Rightarrow>
        (case found of
           None \<Rightarrow> (Some t, also)
         | Some f \<Rightarrow>
             if t_addr f = t_addr t \<or> t_addr t \<in> t_addr ` set also then (found, also)
             else (found, also @ [t])))"

definition considerTenants ::
  "tenant list \<Rightarrow> Principal \<Rightarrow> tenant option \<times> tenant list \<Rightarrow> tenant option \<times> tenant list" where
  "considerTenants candidates p fa =
     fold (\<lambda>t fa. if \<not> MatchSubjects (tc_Subjects (t_cfg t)) (Some p) then fa else considerTenant t fa)
       candidates fa"

definition claim_step ::
  "Principal \<Rightarrow> string \<times> (json \<Rightarrow> tenant list) \<Rightarrow> tenant option \<times> tenant list \<Rightarrow> tenant option \<times> tenant list" where
  "claim_step p kb fa =
     (case kb of (key, byValue) \<Rightarrow>
        (case fmlookup (p_Claims p) key of
           None \<Rightarrow> fa
         | Some (JArr arr) \<Rightarrow> fold (\<lambda>v. considerTenants (byValue (indexKey v)) p) arr fa
         | Some got \<Rightarrow> considerTenants (byValue (indexKey got)) p fa))"

definition resolveTenant ::
  "(string \<times> (json \<Rightarrow> tenant list)) list \<Rightarrow> tenantSet \<Rightarrow> Principal option \<Rightarrow> wire_error + tenant option" where
  "resolveTenant order ts po =
     (case po of None \<Rightarrow> Inr None
      | Some p \<Rightarrow>
     if ts_total ts = 0 then Inr None
     else
       let fa1 = fold (claim_step p) order (None, []);
           fa2 = fold (\<lambda>g. considerTenants (ts_byGroup ts g) p) (p_Groups p) fa1;
           fa3 = fold (\<lambda>sc. considerTenants (ts_byScope ts sc) p) (p_Scopes p) fa2;
           (found, also) = considerTenants (ts_scan ts) p fa3
       in if also \<noteq> []
          then Inl (AmbiguousTenant (p_Subject p)
                      (sort (tc_ID (t_cfg (the found)) # map (\<lambda>t. tc_ID (t_cfg t)) also)))
          else Inr found)"

subsection \<open>What a tenant may see\<close>

definition tenant_id :: "tenant option \<Rightarrow> string" where
  "tenant_id ot = (case ot of None \<Rightarrow> '''' | Some t \<Rightarrow> tc_ID (t_cfg t))"

definition sees :: "tenant option \<Rightarrow> string \<Rightarrow> bool" where
  "sees ot u = (case ot of None \<Rightarrow> True | Some t \<Rightarrow> t_upstreams t = {} \<or> u \<in> t_upstreams t)"

definition visibleUpstreams :: "('u \<Rightarrow> string) \<Rightarrow> tenant option \<Rightarrow> 'u list \<Rightarrow> 'u list" where
  "visibleUpstreams id_of ot ups =
     (case ot of None \<Rightarrow> ups
      | Some t \<Rightarrow> if t_upstreams t = {} then ups else filter (\<lambda>u. id_of u \<in> t_upstreams t) ups)"

definition errOutsideSubset :: "tenant option \<Rightarrow> string \<Rightarrow> string \<Rightarrow> string \<Rightarrow> wire_error" where
  "errOutsideSubset ot mth name u = OutsideSubset mth name u (tenant_id ot)"

lemma visibleUpstreams_sees: "visibleUpstreams id_of ot ups = filter (\<lambda>u. sees ot (id_of u)) ups"
  by (auto simp: visibleUpstreams_def sees_def split: option.splits)


subsection \<open>Resolution collects each matching tenant once\<close>

abbreviation matching :: "Principal \<Rightarrow> tenant \<Rightarrow> bool" where
  "matching p t \<equiv> MatchSubjects (tc_Subjects (t_cfg t)) (Some p)"

definition seen_list :: "tenant option \<times> tenant list \<Rightarrow> tenant list" where
  "seen_list fa = (case fst fa of None \<Rightarrow> [] | Some f \<Rightarrow> f # snd fa)"

definition seen_wf :: "tenant option \<times> tenant list \<Rightarrow> bool" where
  "seen_wf fa \<longleftrightarrow> (fst fa = None \<longrightarrow> snd fa = []) \<and> distinct (map t_addr (seen_list fa))"

lemma considerTenant_list:
  "seen_wf fa \<Longrightarrow> seen_list (considerTenant t fa) =
     (if t_addr t \<in> t_addr ` set (seen_list fa) then seen_list fa else seen_list fa @ [t])"
  by (cases fa) (auto simp: considerTenant_def seen_list_def seen_wf_def image_iff split: option.splits)

lemma considerTenant_wf [inv_intros]: "seen_wf fa \<Longrightarrow> seen_wf (considerTenant t fa)"
  using considerTenant_list [of fa t]
  by (cases fa) (auto simp: seen_wf_def considerTenant_def split: option.splits if_splits)

lemma considerTenants_spec:
  "seen_wf fa \<Longrightarrow> inj_on t_addr (set xs \<union> set (seen_list fa)) \<Longrightarrow>
   seen_wf (considerTenants xs p fa) \<and>
   set (seen_list (considerTenants xs p fa)) = set (seen_list fa) \<union> set (filter (matching p) xs)"
proof (induction xs arbitrary: fa)
  case (Cons t xs)
  define fa' where "fa' = (if matching p t then considerTenant t fa else fa)"
  have wf: "seen_wf fa'" using Cons.prems(1) considerTenant_wf by (simp add: fa'_def)
  have set: "set (seen_list fa') = set (seen_list fa) \<union> (if matching p t then {t} else {})"
    using considerTenant_list [OF Cons.prems(1), of t] Cons.prems(2)
    by (auto simp: fa'_def inj_on_def)
  have "inj_on t_addr (set xs \<union> set (seen_list fa'))"
    by (rule inj_on_subset [OF Cons.prems(2)]) (auto simp: set split: if_splits)
  moreover have "considerTenants (t # xs) p fa = considerTenants xs p fa'"
    by (simp add: considerTenants_def fa'_def)
  ultimately show ?case using Cons.IH [OF wf] set by auto
qed (simp add: considerTenants_def)

lemma considerTenants_append: "considerTenants (xs @ ys) p fa = considerTenants ys p (considerTenants xs p fa)"
  by (simp add: considerTenants_def)

lemma considerTenants_concat: "fold (\<lambda>x. considerTenants (f x) p) xs fa = considerTenants (concat (map f xs)) p fa"
  by (induction xs arbitrary: fa) (simp_all add: considerTenants_append, simp add: considerTenants_def)

definition claim_cands :: "Principal \<Rightarrow> string \<times> (json \<Rightarrow> tenant list) \<Rightarrow> tenant list" where
  "claim_cands p kb =
     (case fmlookup (p_Claims p) (fst kb) of
        None \<Rightarrow> []
      | Some (JArr arr) \<Rightarrow> concat (map (\<lambda>v. snd kb (indexKey v)) arr)
      | Some got \<Rightarrow> snd kb (indexKey got))"

lemma claim_step_cands: "claim_step p kb fa = considerTenants (claim_cands p kb) p fa"
  by (cases kb) (simp add: claim_step_def claim_cands_def considerTenants_concat
      split: option.split json.split, simp add: considerTenants_def)

lemma claim_steps: "fold (claim_step p) order fa = considerTenants (concat (map (claim_cands p) order)) p fa"
  unfolding considerTenants_concat [symmetric] by (rule fold_cong) (auto simp: claim_step_cands fun_eq_iff)

definition reach :: "(string \<times> (json \<Rightarrow> tenant list)) list \<Rightarrow> tenantSet \<Rightarrow> Principal \<Rightarrow> tenant list" where
  "reach order ts p = concat (map (claim_cands p) order) @ concat (map (ts_byGroup ts) (p_Groups p))
     @ concat (map (ts_byScope ts) (p_Scopes p)) @ ts_scan ts"

lemma resolve_reach:
  "0 < ts_total ts \<Longrightarrow> resolveTenant order ts (Some p) =
     (case considerTenants (reach order ts p) p (None, []) of (found, also) \<Rightarrow>
        if also \<noteq> []
        then Inl (AmbiguousTenant (p_Subject p)
               (sort (tc_ID (t_cfg (the found)) # map (\<lambda>t. tc_ID (t_cfg t)) also)))
        else Inr found)"
  by (simp add: resolveTenant_def Let_def claim_steps considerTenants_concat reach_def considerTenants_append)

text \<open>Resolution depends only on which tenants are reached and match.\<close>

lemma resolve_of_matches:
  assumes inj: "inj_on t_addr (set (reach order ts p))" and d: "distinct (map t_addr ms)"
    and set: "set ms = set (filter (matching p) (reach order ts p))" and tot: "0 < ts_total ts"
  shows "resolveTenant order ts (Some p) =
    (case ms of [] \<Rightarrow> Inr None | [t] \<Rightarrow> Inr (Some t)
     | _ \<Rightarrow> Inl (AmbiguousTenant (p_Subject p) (sort (map (\<lambda>t. tc_ID (t_cfg t)) ms))))"
proof -
  obtain f a where fa: "considerTenants (reach order ts p) p (None, []) = (f, a)" by force
  have w0: "seen_wf (None, [])" "seen_list (None, []) = []" by (simp_all add: seen_wf_def seen_list_def)
  have wf: "seen_wf (f, a)" and s: "set (seen_list (f, a)) = set ms"
    using considerTenants_spec [OF w0(1), of "reach order ts p" p] inj set w0(2) by (simp_all add: fa)
  have "mset (seen_list (f, a)) = mset ms"
    using s wf d by (intro set_eq_iff_mset_eq_distinct [THEN iffD1]) (auto simp: seen_wf_def dest: distinct_map [THEN iffD1])
  then have len: "length (seen_list (f, a)) = length ms"
    and ids: "sort (map (\<lambda>t. tc_ID (t_cfg t)) (seen_list (f, a))) = sort (map (\<lambda>t. tc_ID (t_cfg t)) ms)"
    by (metis size_mset, metis mset_map sorted_list_of_multiset_mset)
  have r: "resolveTenant order ts (Some p) = (if a \<noteq> [] then Inl (AmbiguousTenant (p_Subject p)
      (sort (tc_ID (t_cfg (the f)) # map (\<lambda>t. tc_ID (t_cfg t)) a))) else Inr f)"
    using resolve_reach [OF tot] by (simp add: fa)
  show ?thesis
  proof (cases f)
    case None
    then have "a = []" "ms = []" using wf s by (auto simp: seen_wf_def seen_list_def)
    then show ?thesis using r None by simp
  next
    case (Some t)
    then have sl: "seen_list (f, a) = t # a" by (simp add: seen_list_def)
    show ?thesis
    proof (cases a)
      case Nil
      then have "ms = [t]" using sl len s by (cases ms) auto
      then show ?thesis using r Some Nil by simp
    next
      case (Cons t' a')
      then obtain m1 m2 m where ms: "ms = m1 # m2 # m" using sl len by (cases ms; cases "tl ms") auto
      show ?thesis using r ids sl Some Cons ms by simp
    qed
  qed
qed


subsection \<open>The index files every tenant where resolution looks\<close>

definition placed :: "tenantSet \<Rightarrow> tenant \<Rightarrow> bool" where
  "placed ts t =
     (let s = tc_Subjects (t_cfg t) in
      case indexableClaim s of
        Some (key, val) \<Rightarrow> t \<in> set (claim_bucket (ts_byClaim ts) key val)
      | None \<Rightarrow>
          if indexableGroups s then \<forall>g \<in> set (ps_Groups (the s)). t \<in> set (ts_byGroup ts g)
          else (case indexableScope s of Some sc \<Rightarrow> t \<in> set (ts_byScope ts sc)
                | None \<Rightarrow> t \<in> set (ts_scan ts)))"

definition members :: "tenantSet \<Rightarrow> tenant set" where
  "members ts = (\<Union>kb \<in> set (ts_byClaim ts). \<Union>v. set (snd kb v)) \<union> (\<Union>g. set (ts_byGroup ts g))
     \<union> (\<Union>sc. set (ts_byScope ts sc)) \<union> set (ts_scan ts)"

definition set_inv :: "tenantSet \<Rightarrow> tenant list \<Rightarrow> bool" where
  "set_inv ts ls \<longleftrightarrow> distinct (map fst (ts_byClaim ts)) \<and> members ts \<subseteq> set ls \<and>
     (\<forall>t \<in> set ls. placed ts t) \<and> ts_total ts = length ls"

lemma put_claim_keys: "set (map fst (put_claim key b bc)) = insert key (set (map fst bc))"
  by (induction key b bc rule: put_claim.induct) auto

lemma put_claim_distinct: "distinct (map fst bc) \<Longrightarrow> distinct (map fst (put_claim key b bc))"
proof (induction key b bc rule: put_claim.induct)
  case (2 key b k b0 rest)
  then show ?case using put_claim_keys [of key b rest] by (auto simp: image_iff)
qed simp

lemma put_claim_bucket: "claim_bucket (put_claim key b bc) k = (if k = key then b else claim_bucket bc k)"
  by (induction key b bc rule: put_claim.induct) (auto simp: claim_bucket_def)

lemma put_claim_set: "kb \<in> set (put_claim key b bc) \<Longrightarrow> kb = (key, b) \<or> kb \<in> set bc"
  by (induction key b bc rule: put_claim.induct) (auto split: if_splits)

lemma claim_bucket_mem: "t \<in> set (claim_bucket bc key v) \<Longrightarrow> \<exists>kb \<in> set bc. fst kb = key \<and> t \<in> set (snd kb v)"
  by (force simp: claim_bucket_def dest!: map_of_SomeD split: option.splits)

lemma claim_bucket_lookup: "distinct (map fst bc) \<Longrightarrow> t \<in> set (claim_bucket bc key v) \<Longrightarrow>
   \<exists>b. (key, b) \<in> set bc \<and> t \<in> set (b v)"
  using claim_bucket_mem by fastforce

lemma fold_groups_set:
  "set (fold (\<lambda>g m. m(g := m g @ [t])) gs m g') = set (m g') \<union> (if g' \<in> set gs then {t} else {})"
  by (induction gs arbitrary: m) auto

text \<open>What \<open>index\<close> does to each of the four partitions.\<close>

lemma index_buckets:
  fixes ts :: tenantSet and t :: tenant
  defines "s \<equiv> tc_Subjects (t_cfg t)"
  shows "set (claim_bucket (ts_byClaim (index ts t)) key v) = set (claim_bucket (ts_byClaim ts) key v)
           \<union> (if indexableClaim s = Some (key, v) then {t} else {})"
    and "set (ts_byGroup (index ts t) g) = set (ts_byGroup ts g)
           \<union> (if indexableClaim s = None \<and> indexableGroups s \<and> g \<in> set (ps_Groups (the s)) then {t} else {})"
    and "set (ts_byScope (index ts t) sc) = set (ts_byScope ts sc)
           \<union> (if indexableClaim s = None \<and> \<not> indexableGroups s \<and> indexableScope s = Some sc then {t} else {})"
    and "set (ts_scan (index ts t)) = set (ts_scan ts)
           \<union> (if indexableClaim s = None \<and> \<not> indexableGroups s \<and> indexableScope s = None then {t} else {})"
    and "ts_total (index ts t) = ts_total ts" "ts_byID (index ts t) = ts_byID ts"
    and "distinct (map fst (ts_byClaim ts)) \<Longrightarrow> distinct (map fst (ts_byClaim (index ts t)))"
  by (auto simp: index_def Let_def put_claim_bucket fold_groups_set put_claim_distinct
      simp flip: s_def split: option.splits)

lemma members_index: "members (index ts t) \<subseteq> insert t (members ts)"
proof -
  have claim: "x = t \<or> x \<in> members ts"
    if kb: "kb \<in> set (ts_byClaim (index ts t))" "x \<in> set (snd kb v)" for kb v x
  proof (cases "indexableClaim (tc_Subjects (t_cfg t))")
    case None
    then have "ts_byClaim (index ts t) = ts_byClaim ts"
      by (auto simp: index_def Let_def split: option.splits)
    then show ?thesis using kb by (auto simp: members_def)
  next
    case (Some kv)
    obtain key val where kv: "kv = (key, val)" by force
    define b where "b = claim_bucket (ts_byClaim ts) key"
    have "ts_byClaim (index ts t) = put_claim key (b(val := b val @ [t])) (ts_byClaim ts)"
      by (simp add: index_def Let_def Some kv b_def)
    then consider "kb = (key, b(val := b val @ [t]))" | "kb \<in> set (ts_byClaim ts)"
      using kb(1) put_claim_set [of kb key "b(val := b val @ [t])" "ts_byClaim ts"] by auto
    then show ?thesis
    proof cases
      case 1
      then have "x = t \<or> x \<in> set (b v)" using kb(2) by (auto split: if_splits)
      then show ?thesis using claim_bucket_mem by (fastforce simp: b_def members_def)
    next
      case 2
      then show ?thesis using kb(2) by (auto simp: members_def)
    qed
  qed
  show ?thesis
  proof
    fix x
    assume "x \<in> members (index ts t)"
    then consider kb v where "kb \<in> set (ts_byClaim (index ts t))" "x \<in> set (snd kb v)"
      | g where "x \<in> set (ts_byGroup (index ts t) g)" | sc where "x \<in> set (ts_byScope (index ts t) sc)"
      | "x \<in> set (ts_scan (index ts t))"
      by (auto simp: members_def)
    then show "x \<in> insert t (members ts)"
      by cases (use claim in \<open>auto simp: index_buckets members_def split: if_splits\<close>)
  qed
qed

lemma placed_mono: "placed ts u \<Longrightarrow> placed (index ts t) u"
  by (auto simp: placed_def Let_def index_buckets split: option.splits if_splits)

lemma placed_self: "placed (index ts t) t"
  by (auto simp: placed_def Let_def index_buckets split: option.splits)

lemma set_inv_index: "set_inv ts ls \<Longrightarrow> set_inv (index (ts\<lparr>ts_byID := m, ts_total := ts_total ts + 1\<rparr>) t) (ls @ [t])"
proof -
  define ts1 where "ts1 = ts\<lparr>ts_byID := m, ts_total := ts_total ts + 1\<rparr>"
  assume i: "set_inv ts ls"
  have same: "members ts1 = members ts" "placed ts1 u = placed ts u" for u
    by (auto simp: ts1_def members_def placed_def Let_def split: option.splits)
  have "distinct (map fst (ts_byClaim (index ts1 t)))"
    using i by (intro index_buckets(7)) (simp add: set_inv_def ts1_def)
  moreover have "members (index ts1 t) \<subseteq> set (ls @ [t])"
    using i members_index [of ts1 t] same(1) by (auto simp: set_inv_def)
  moreover have "\<forall>u \<in> set (ls @ [t]). placed (index ts1 t) u"
    using i placed_mono [of ts1 _ t] placed_self [of ts1 t] same(2) by (auto simp: set_inv_def)
  moreover have "ts_total (index ts1 t) = length (ls @ [t])"
    using i by (simp add: index_buckets(5) set_inv_def ts1_def)
  ultimately show ?thesis by (simp add: set_inv_def ts1_def)
qed


subsection \<open>What a rebuild yields\<close>

fun built :: "gw_heap \<Rightarrow> tenantSet \<Rightarrow> nat \<Rightarrow> TenantCfg list \<Rightarrow> tenant list" where
  "built h prev i [] = []"
| "built h prev i (tc # tcs) =
     (let w = wire h (blank_tenant i tc) (ts_byID prev (tc_ID tc))
      in fst w # built (snd w) prev (i + 1) tcs)"

lemma wire_keeps [simp]:
  "t_addr (fst (wire h t prev)) = t_addr t" "t_cfg (fst (wire h t prev)) = t_cfg t"
  "t_upstreams (fst (wire h t prev)) = t_upstreams t"
  by (simp_all add: wire_def Let_def split: prod.splits)

lemma blank_tenant_sel [simp]:
  "t_addr (blank_tenant i tc) = i" "t_cfg (blank_tenant i tc) = tc"
  "t_upstreams (blank_tenant i tc) = set (tc_Upstreams tc)"
  by (simp_all add: blank_tenant_def)

lemma built_cfg: "map t_cfg (built h prev i tcs) = tcs"
  by (induction h prev i tcs rule: built.induct) (simp_all add: Let_def)

lemma built_addr: "map t_addr (built h prev i tcs) = [i..<i + length tcs]"
  by (induction h prev i tcs rule: built.induct) (simp_all add: Let_def upt_conv_Cons del: upt_Suc)

lemma built_upstreams: "t \<in> set (built h prev i tcs) \<Longrightarrow> t_upstreams t = set (tc_Upstreams (t_cfg t))"
  by (induction h prev i tcs rule: built.induct) (auto simp: Let_def)

lemma build_loop_Cons:
  fixes h prev i tc
  defines "w \<equiv> wire h (blank_tenant i tc) (ts_byID prev (tc_ID tc))"
  shows "build_loop h prev ts i (tc # tcs) =
    build_loop (snd w) prev
      (index (ts\<lparr>ts_byID := (ts_byID ts)(tc_ID tc \<mapsto> fst w), ts_total := ts_total ts + 1\<rparr>) (fst w)) (i + 1) tcs"
  by (simp add: Let_def case_prod_beta w_def)

declare build_loop.simps(2) [simp del]

lemma build_loop_inv:
  "set_inv ts ls \<Longrightarrow> set_inv (fst (build_loop h prev ts i tcs)) (ls @ built h prev i tcs)"
proof (induction tcs arbitrary: h ts i ls)
  case (Cons tc tcs)
  from Cons.IH [OF set_inv_index [OF Cons.prems]] show ?case by (simp add: build_loop_Cons Let_def)
qed simp

lemma no_tenants_inv: "set_inv no_tenants []"
  by (simp add: set_inv_def no_tenants_def members_def)

lemma buildTenants_inv: "buildTenants tcs h prev = (ts, h') \<Longrightarrow> set_inv ts (built h prev 0 tcs)"
  using build_loop_inv [OF no_tenants_inv, of h prev 0 tcs] by (simp add: buildTenants_def)

subsection \<open>Every match is reached\<close>

lemma indexableClaimD:
  "indexableClaim so = Some (k, v) \<Longrightarrow>
   \<exists>s. so = Some s \<and> ps_Claims s = [(k, v)] \<and> ps_Issuers s = [] \<and> ps_Subs s = [] \<and> ps_Groups s = [] \<and>
       ps_Scopes s = [] \<and> is_scalar v"
  by (auto simp: indexableClaim_def length_Suc_conv split: option.splits if_splits list.splits)

lemma claimEqual_scalar: "is_scalar v \<Longrightarrow> claimEqual got v \<longleftrightarrow> got = v"
  by (cases v) (auto simp: claimEqual_def split: json.splits)

lemma indexKey_scalar [simp]: "is_scalar v \<Longrightarrow> indexKey v = v"
  by (simp add: indexKey_def)

lemma match_claim:
  assumes c: "indexableClaim s = Some (k, v)" and m: "MatchSubjects s (Some p)" and kb: "t \<in> set (b v)"
  shows "t \<in> set (claim_cands p (k, b))"
proof -
  have v: "is_scalar v" and ok: "claim_ok (p_Claims p) k v"
    using indexableClaimD [OF c] m
    by (auto simp: MatchSubjects_def subjectsMatch_def subjectsMatchWhy_def claimsMatch_def split: if_splits)
  then show ?thesis
    using kb indexKey_scalar [OF v]
    by (auto simp: claim_ok_def claim_cands_def claimEqual_scalar list_ex_iff
        split: option.splits json.splits intro!: bexI [of _ v])
qed

lemma match_groups:
  "indexableGroups s \<Longrightarrow> MatchSubjects s (Some p) \<Longrightarrow> \<exists>g \<in> set (ps_Groups (the s)). g \<in> set (p_Groups p)"
  by (auto simp: indexableGroups_def MatchSubjects_def subjectsMatch_def subjectsMatchWhy_def Let_def
      list_ex_iff split: option.splits if_splits)

lemma match_scope: "indexableScope s = Some sc \<Longrightarrow> MatchSubjects s (Some p) \<Longrightarrow> sc \<in> set (p_Scopes p)"
  by (auto simp: indexableScope_def MatchSubjects_def subjectsMatch_def subjectsMatchWhy_def Let_def
      missingScopes_def length_Suc_conv split: option.splits if_splits)

lemma placed_reached:
  assumes i: "set_inv ts ls" and o: "mset order = mset (ts_byClaim ts)" and pl: "placed ts t" and m: "matching p t"
  shows "t \<in> set (reach order ts p)"
proof (cases "indexableClaim (tc_Subjects (t_cfg t))")
  case (Some kv)
  obtain k v where kv: "kv = (k, v)" by force
  have "t \<in> set (claim_bucket (ts_byClaim ts) k v)" using pl by (simp add: placed_def Let_def Some kv)
  then obtain b where b: "(k, b) \<in> set (ts_byClaim ts)" "t \<in> set (b v)"
    using i claim_bucket_lookup [of "ts_byClaim ts" t k v] by (auto simp: set_inv_def)
  then have "(k, b) \<in> set order" using o by (metis mset_eq_setD)
  then show ?thesis using match_claim [OF Some [unfolded kv] m, of t b] b by (auto simp: reach_def)
next
  case None
  then show ?thesis
    using pl m match_groups match_scope
    by (cases "indexableGroups (tc_Subjects (t_cfg t))"; cases "indexableScope (tc_Subjects (t_cfg t))")
      (fastforce simp: placed_def Let_def reach_def)+
qed

lemma reach_members: "mset order = mset (ts_byClaim ts) \<Longrightarrow> set (reach order ts p) \<subseteq> members ts"
proof -
  assume "mset order = mset (ts_byClaim ts)"
  then have o: "set order = set (ts_byClaim ts)" by (rule mset_eq_setD)
  have "set (claim_cands p kb) \<subseteq> (\<Union>v. set (snd kb v))" for kb
    by (cases "fmlookup (p_Claims p) (fst kb)"; cases "the (fmlookup (p_Claims p) (fst kb))")
      (auto simp: claim_cands_def)
  then show ?thesis using o by (fastforce simp: reach_def members_def)
qed

text \<open>
  C27. The index never changes whom a caller belongs to: for every list of tenant declarations, every
  previous snapshot and every order in which the claim index is visited, a caller covered by no
  declaration resolves to no tenant, one covered by exactly one resolves to that one, and one covered
  by several is refused with the sorted ids of all of them. What the declarations cover is decided by
  the policy engine's selector matching and nothing else.
\<close>

theorem resolve_matches_document:
  assumes b: "buildTenants tcs h prev = (ts, h')" and o: "mset order = mset (ts_byClaim ts)"
  shows "case filter (\<lambda>tc. MatchSubjects (tc_Subjects tc) (Some p)) tcs of
      [] \<Rightarrow> resolveTenant order ts (Some p) = Inr None
    | [tc] \<Rightarrow> (\<exists>t. resolveTenant order ts (Some p) = Inr (Some t) \<and> t_cfg t = tc)
    | ms \<Rightarrow> resolveTenant order ts (Some p) = Inl (AmbiguousTenant (p_Subject p) (sort (map tc_ID ms)))"
proof -
  define ls where "ls = built h prev 0 tcs"
  note i = buildTenants_inv [OF b, folded ls_def]
  define ms where "ms = filter (matching p) ls"
  have addr: "distinct (map t_addr ls)" by (simp add: ls_def built_addr)
  have sub: "set (reach order ts p) \<subseteq> set ls" using i reach_members [OF o] by (auto simp: set_inv_def)
  have inj: "inj_on t_addr (set (reach order ts p))"
    using addr sub by (auto simp: distinct_map intro: inj_on_subset)
  have set: "set ms = set (filter (matching p) (reach order ts p))"
    using sub i placed_reached [OF i o] by (auto simp: ms_def set_inv_def)
  have d: "distinct (map t_addr ms)" using addr by (simp add: ms_def distinct_map_filter)
  have cfg: "map t_cfg ms = filter (\<lambda>tc. MatchSubjects (tc_Subjects tc) (Some p)) tcs"
  proof -
    have "tcs = map t_cfg ls" by (simp add: ls_def built_cfg)
    then show ?thesis by (simp add: ms_def filter_map o_def)
  qed
  show ?thesis
  proof (cases "ts_total ts = 0")
    case True
    then have "ls = []" using i by (simp add: set_inv_def)
    then show ?thesis using True cfg by (simp add: ms_def resolveTenant_def)
  next
    case False
    then have r: "resolveTenant order ts (Some p) = (case ms of [] \<Rightarrow> Inr None | [t] \<Rightarrow> Inr (Some t)
        | _ \<Rightarrow> Inl (AmbiguousTenant (p_Subject p) (sort (map (\<lambda>t. tc_ID (t_cfg t)) ms))))"
      using resolve_of_matches [OF inj d set] by simp
    show ?thesis unfolding cfg [symmetric] r by (auto simp: o_def split: list.split)
  qed
qed


definition acme :: TenantCfg where
  "acme = \<lparr>tc_ID = ''acme'',
     tc_Subjects = Some \<lparr>ps_Groups = [''eng''], ps_Subs = [], ps_Issuers = [], ps_Claims = [], ps_Scopes = []\<rparr>,
     tc_Budget = None, tc_RateLimit = None, tc_Upstreams = []\<rparr>"

definition globex :: TenantCfg where
  "globex = \<lparr>tc_ID = ''globex'',
     tc_Subjects = Some \<lparr>ps_Groups = [], ps_Subs = [], ps_Issuers = [], ps_Claims = [(''org'', JStr ''globex'')], ps_Scopes = []\<rparr>,
     tc_Budget = None, tc_RateLimit = None, tc_Upstreams = []\<rparr>"

definition both_worlds :: Principal where
  "both_worlds = \<lparr>p_Subject = ''ann'', p_Issuer = '''', p_Groups = [''eng''], p_Scopes = [], p_Token = '''',
     p_Expiry = 0, p_Claims = fmupd ''org'' (JStr ''globex'') fmempty\<rparr>"

lemmas match_eval = MatchSubjects_def subjectsMatch_def subjectsMatchWhy_def claimsMatch_def claim_ok_def
  claimEqual_def missingScopes_def Let_def

theorem resolve_matches_document_witness:
  "\<exists>ts h'. buildTenants [acme, globex] \<lparr>h_budgets = [], h_limiters = []\<rparr> no_tenants = (ts, h') \<and>
     resolveTenant (ts_byClaim ts) ts (Some both_worlds) = Inl (AmbiguousTenant ''ann'' [''acme'', ''globex''])"
proof -
  obtain ts h' where b: "buildTenants [acme, globex] \<lparr>h_budgets = [], h_limiters = []\<rparr> no_tenants = (ts, h')"
    by force
  have "MatchSubjects (tc_Subjects acme) (Some both_worlds)" "MatchSubjects (tc_Subjects globex) (Some both_worlds)"
    by (simp_all add: match_eval acme_def globex_def both_worlds_def)
  moreover have "sort (map tc_ID [acme, globex]) = [''acme'', ''globex'']"
    by (simp add: acme_def globex_def)
  ultimately show ?thesis
    using resolve_matches_document [OF b refl, of both_worlds] b by (simp add: both_worlds_def)
qed

subsection \<open>Reload carries allowances over\<close>

definition heap_ext :: "gw_heap \<Rightarrow> gw_heap \<Rightarrow> bool" where
  "heap_ext h h' \<longleftrightarrow> prefix (h_budgets h) (h_budgets h') \<and> prefix (h_limiters h) (h_limiters h')"

lemma heap_ext_refl: "heap_ext h h"
  by (simp add: heap_ext_def)

lemma heap_ext_trans: "heap_ext h h' \<Longrightarrow> heap_ext h' h'' \<Longrightarrow> heap_ext h h''"
  by (auto simp: heap_ext_def intro: prefix_order.trans)

lemma wire_ext: "heap_ext h (snd (wire h t prev))"
  by (auto simp: wire_def Let_def heap_ext_def provider_Budget_def provider_Limiter_def
      split: prod.splits option.splits if_splits)

lemma wire_reuses:
  "tc_Budget (t_cfg p) = tc_Budget (t_cfg t) \<Longrightarrow> t_budget (fst (wire h t (Some p))) = t_budget p"
  "tc_RateLimit (t_cfg p) = tc_RateLimit (t_cfg t) \<Longrightarrow> t_limiter (fst (wire h t (Some p))) = t_limiter p"
  by (auto simp: wire_def Let_def split: prod.splits)

lemma wire_fresh_budget:
  "(\<forall>p. prev = Some p \<longrightarrow> tc_Budget (t_cfg p) \<noteq> tc_Budget (t_cfg t)) \<Longrightarrow>
   t_budget (fst (wire h t prev)) = length (h_budgets h) \<and>
   h_budgets (snd (wire h t prev)) = h_budgets h @ [newMemBudget (ResolvedPeriod (tc_Budget (t_cfg t))) (Allowance (tc_Budget (t_cfg t)))]"
  by (auto simp: wire_def Let_def provider_Budget_def provider_Limiter_def split: prod.splits option.splits if_splits)

lemma build_loop_ext: "heap_ext h (snd (build_loop h prev ts i tcs))"
proof (induction tcs arbitrary: h ts i)
  case (Cons tc tcs)
  show ?case unfolding build_loop_Cons by (rule heap_ext_trans [OF wire_ext Cons.IH])
qed (simp add: heap_ext_refl)

text \<open>Every declaration is in the snapshot under its id, wired against the heap as it then was.\<close>

lemma build_loop_other:
  "x \<notin> tc_ID ` set tcs \<Longrightarrow> ts_byID (fst (build_loop h prev ts i tcs)) x = ts_byID ts x"
proof (induction tcs arbitrary: h ts i)
  case (Cons tc tcs)
  then show ?case by (simp add: build_loop_Cons index_buckets(6))
qed simp

lemma build_loop_byID:
  "distinct (map tc_ID tcs) \<Longrightarrow> tc \<in> set tcs \<Longrightarrow>
   \<exists>h1 j. heap_ext h h1 \<and>
     ts_byID (fst (build_loop h prev ts i tcs)) (tc_ID tc) =
       Some (fst (wire h1 (blank_tenant j tc) (ts_byID prev (tc_ID tc)))) \<and>
     heap_ext (snd (wire h1 (blank_tenant j tc) (ts_byID prev (tc_ID tc)))) (snd (build_loop h prev ts i tcs))"
proof (induction tcs arbitrary: h ts i)
  case (Cons tc0 tcs)
  define w where "w = wire h (blank_tenant i tc0) (ts_byID prev (tc_ID tc0))"
  define ts1 where "ts1 = index (ts\<lparr>ts_byID := (ts_byID ts)(tc_ID tc0 \<mapsto> fst w), ts_total := ts_total ts + 1\<rparr>) (fst w)"
  have bl: "build_loop h prev ts i (tc0 # tcs) = build_loop (snd w) prev ts1 (i + 1) tcs"
    by (simp add: build_loop_Cons ts1_def w_def)
  show ?case
  proof (cases "tc = tc0")
    case True
    have "ts_byID ts1 (tc_ID tc) = Some (fst w)" by (simp add: ts1_def index_buckets(6) True)
    then have "ts_byID (fst (build_loop (snd w) prev ts1 (i + 1) tcs)) (tc_ID tc) = Some (fst w)"
      using build_loop_other [of "tc_ID tc" tcs] Cons.prems(1) True by simp
    then show ?thesis unfolding bl using True heap_ext_refl [of h] build_loop_ext [of "snd w"] w_def by blast
  next
    case False
    then have "tc \<in> set tcs" "distinct (map tc_ID tcs)" using Cons.prems by auto
    from Cons.IH [OF this(2,1), of "snd w" ts1 "i + 1"] show ?thesis
      unfolding bl using heap_ext_trans [OF wire_ext [of h "blank_tenant i tc0"]] unfolding w_def by blast
  qed
qed simp

text \<open>
  A reload forgets no allowance: whatever else a reload changes, a tenant whose budget section is
  unchanged keeps the very counter it had, with what has been spent from it; the same holds for its
  rate-limit bucket, independently; and a tenant that is new or whose budget section changed gets a
  counter created for it with the configured period and allowance.
\<close>

theorem reload_keeps_allowance:
  assumes b: "buildTenants tcs h prev = (ts, h')" and d: "distinct (map tc_ID tcs)" and tc: "tc \<in> set tcs"
  shows "\<exists>t. ts_byID ts (tc_ID tc) = Some t \<and> t_cfg t = tc \<and>
    (\<forall>p. ts_byID prev (tc_ID tc) = Some p \<longrightarrow>
       (tc_Budget (t_cfg p) = tc_Budget tc \<and> t_budget p < length (h_budgets h) \<longrightarrow>
          t_budget t = t_budget p \<and> h_budgets h' ! t_budget t = h_budgets h ! t_budget p) \<and>
       (tc_RateLimit (t_cfg p) = tc_RateLimit tc \<and> t_limiter p < length (h_limiters h) \<longrightarrow>
          t_limiter t = t_limiter p \<and> h_limiters h' ! t_limiter t = h_limiters h ! t_limiter p)) \<and>
    ((\<forall>p. ts_byID prev (tc_ID tc) = Some p \<longrightarrow> tc_Budget (t_cfg p) \<noteq> tc_Budget tc) \<longrightarrow>
       length (h_budgets h) \<le> t_budget t \<and>
       h_budgets h' ! t_budget t = newMemBudget (ResolvedPeriod (tc_Budget tc)) (Allowance (tc_Budget tc)))"
proof -
  obtain h1 j t where t: "heap_ext h h1" "t = fst (wire h1 (blank_tenant j tc) (ts_byID prev (tc_ID tc)))"
      "ts_byID ts (tc_ID tc) = Some t"
      "heap_ext (snd (wire h1 (blank_tenant j tc) (ts_byID prev (tc_ID tc)))) h'"
    using build_loop_byID [OF d tc, of h prev no_tenants 0] b by (auto simp: buildTenants_def)
  have ext: "heap_ext h h'" using build_loop_ext [of h prev no_tenants 0 tcs] b by (simp add: buildTenants_def)
  have cfg: "t_cfg t = tc" by (simp add: t(2))
  have keep: "h_budgets h' ! k = h_budgets h ! k" if "k < length (h_budgets h)" for k
    using ext that by (auto simp: heap_ext_def prefix_def nth_append)
  have keep': "h_limiters h' ! k = h_limiters h ! k" if "k < length (h_limiters h)" for k
    using ext that by (auto simp: heap_ext_def prefix_def nth_append)
  have fresh: "length (h_budgets h) \<le> t_budget t \<and>
      h_budgets h' ! t_budget t = newMemBudget (ResolvedPeriod (tc_Budget tc)) (Allowance (tc_Budget tc))"
    if "\<forall>p. ts_byID prev (tc_ID tc) = Some p \<longrightarrow> tc_Budget (t_cfg p) \<noteq> tc_Budget tc"
    using wire_fresh_budget [of "ts_byID prev (tc_ID tc)" "blank_tenant j tc" h1] that t(1,2,4)
    by (auto simp: heap_ext_def prefix_def nth_append)
  show ?thesis
    using t(2,3) cfg keep keep' fresh wire_reuses [of _ "blank_tenant j tc" h1] by (intro exI [of _ t]) auto
qed


definition metered :: TenantCfg where
  "metered = acme\<lparr>tc_Budget := Some \<lparr>bc_Period = ''day'', bc_UpstreamCalls = 5\<rparr>\<rparr>"

definition spent_heap :: gw_heap where
  "spent_heap = \<lparr>h_budgets = [MemBudget \<lparr>mb_period = ''day'', mb_limit = 5, mb_windowEnd = day, mb_used = 4\<rparr>],
                 h_limiters = [None]\<rparr>"

definition before_reload :: tenantSet where
  "before_reload = no_tenants\<lparr>ts_byID := [''acme'' \<mapsto> blank_tenant 0 metered]\<rparr>"

theorem reload_keeps_allowance_witness:
  "\<exists>ts h' t. buildTenants [globex, metered] spent_heap before_reload = (ts, h') \<and>
     ts_byID ts ''acme'' = Some t \<and> h_budgets h' ! t_budget t = h_budgets spent_heap ! 0"
proof -
  obtain ts h' where b: "buildTenants [globex, metered] spent_heap before_reload = (ts, h')" by force
  have "tc_ID metered = ''acme''" "tc_ID globex = ''globex''" by (simp_all add: metered_def acme_def globex_def)
  moreover have "ts_byID before_reload ''acme'' = Some (blank_tenant 0 metered)"
    "t_budget (blank_tenant 0 metered) = 0" "length (h_budgets spent_heap) = 1"
    by (simp_all add: before_reload_def blank_tenant_def spent_heap_def)
  ultimately show ?thesis using reload_keeps_allowance [OF b, of metered] b by auto
qed

end
