(* ===== verification/Endpoint_Pool.thy ===== *)
theory Endpoint_Pool
  imports Fold_Prelude "HOL-Library.Multiset"
begin

section \<open>Endpoint balancing (src/gateway/endpoints.go)\<close>

text \<open>
  The replicas of one upstream: round robin over the healthy ones, those ejected after a failed
  connect last. Clock readings are arguments. \<open>candidates\<close> ends with a division by the number of
  endpoints, so an empty pool is a run-time panic, here \<open>None\<close>; the configuration always names one.
\<close>

record endpointPool =
  urls :: "string list"
  cooldown :: duration
  ep_next :: nat
  downUntil :: "string \<rightharpoonup> time"

record endpointStatus =
  es_URL :: string
  es_Healthy :: bool

definition newEndpointPool :: "string list \<Rightarrow> duration \<Rightarrow> endpointPool" where
  "newEndpointPool us cd = \<lparr>urls = us, cooldown = cd, ep_next = 0, downUntil = Map.empty\<rparr>"

text \<open>\<open>p.downUntil[u].After(now)\<close>, where a missing entry reads as the zero time.\<close>

definition cooling :: "endpointPool \<Rightarrow> time \<Rightarrow> string \<Rightarrow> bool" where
  "cooling p now u = (now < (case downUntil p u of None \<Rightarrow> 0 | Some t \<Rightarrow> t))"

fun candidates_loop :: "endpointPool \<Rightarrow> time \<Rightarrow> nat list \<Rightarrow> string list \<Rightarrow> string list \<Rightarrow> string list \<times> string list" where
  "candidates_loop p now [] healthy cold = (healthy, cold)"
| "candidates_loop p now (i # is) healthy cold =
     (let u = urls p ! ((ep_next p + i) mod length (urls p))
      in if cooling p now u then candidates_loop p now is healthy (cold @ [u])
         else candidates_loop p now is (healthy @ [u]) cold)"

definition candidates :: "endpointPool \<Rightarrow> time \<Rightarrow> (string list \<times> endpointPool) option" where
  "candidates p now =
     (case candidates_loop p now [0..<length (urls p)] [] [] of
        (healthy, cold) \<Rightarrow>
          if length (urls p) = 0 then None
          else Some (healthy @ cold, p\<lparr>ep_next := (ep_next p + 1) mod length (urls p)\<rparr>))"

definition markDown :: "endpointPool \<Rightarrow> string \<Rightarrow> time \<Rightarrow> bool \<times> endpointPool" where
  "markDown p url now =
     (\<not> cooling p now url, p\<lparr>downUntil := (downUntil p)(url \<mapsto> now + cooldown p)\<rparr>)"

definition markUp :: "endpointPool \<Rightarrow> string \<Rightarrow> time \<Rightarrow> bool \<times> endpointPool" where
  "markUp p url now = (cooling p now url, p\<lparr>downUntil := (downUntil p)(url := None)\<rparr>)"

definition pool_all :: "endpointPool \<Rightarrow> string list" where
  "pool_all p = urls p"

definition snapshot_pool :: "endpointPool \<Rightarrow> bool \<Rightarrow> time \<Rightarrow> endpointStatus list" where
  "snapshot_pool p includeURL now =
     map (\<lambda>u. \<lparr>es_URL = (if includeURL then u else ''''), es_Healthy = (\<not> cooling p now u)\<rparr>) (urls p)"

subsection \<open>The order of attempts\<close>

lemma candidates_loop_filter:
  "candidates_loop p now is healthy cold =
     (let us = map (\<lambda>i. urls p ! ((ep_next p + i) mod length (urls p))) is
      in (healthy @ filter (\<lambda>u. \<not> cooling p now u) us, cold @ filter (cooling p now) us))"
  by (induction p now "is" healthy cold rule: candidates_loop.induct) (simp_all add: Let_def)

lemma rotated: "map (\<lambda>i. xs ! ((n + i) mod length xs)) [0..<length xs] = rotate n xs"
  by (rule nth_equalityI) (simp_all add: nth_rotate)

lemma candidates_eq:
  "urls p \<noteq> [] \<Longrightarrow> candidates p now =
     Some (filter (\<lambda>u. \<not> cooling p now u) (rotate (ep_next p) (urls p)) @
             filter (cooling p now) (rotate (ep_next p) (urls p)),
           p\<lparr>ep_next := (ep_next p + 1) mod length (urls p)\<rparr>)"
  by (simp add: candidates_def candidates_loop_filter Let_def rotated)

text \<open>
  A connect attempt considers every endpoint exactly as often as it is configured, those in
  rotation before those cooling down: there is no endpoint that is skipped, and none that is cooling
  stands before one that is healthy, whatever the clock, the rotation and the ejections so far. Only
  an empty pool panics.
\<close>

theorem candidates_complete:
  "(candidates p now = None \<longleftrightarrow> urls p = []) \<and>
   (\<forall>us p'. candidates p now = Some (us, p') \<longrightarrow>
      mset us = mset (urls p) \<and> (\<exists>hs cs. us = hs @ cs \<and>
        (\<forall>u \<in> set hs. \<not> cooling p now u) \<and> (\<forall>u \<in> set cs. cooling p now u)))"
proof (cases "urls p = []")
  case True
  then show ?thesis by (simp add: candidates_def)
next
  case False
  have "mset (filter (\<lambda>u. \<not> cooling p now u) xs @ filter (cooling p now) xs) = mset xs" for xs
    by (induction xs) auto
  moreover have "mset (rotate1 xs) = mset xs" for xs :: "string list" by (cases xs) auto
  then have "mset (rotate n xs) = mset xs" for n and xs :: "string list" by (induction n) auto
  ultimately have "mset (filter (\<lambda>u. \<not> cooling p now u) (rotate (ep_next p) (urls p)) @
      filter (cooling p now) (rotate (ep_next p) (urls p))) = mset (urls p)" by metis
  moreover have "\<forall>u \<in> set (filter (\<lambda>u. \<not> cooling p now u) xs). \<not> cooling p now u"
    "\<forall>u \<in> set (filter (cooling p now) xs). cooling p now u" for xs by auto
  ultimately show ?thesis using False unfolding candidates_eq [OF False] option.inject prod.inject by blast
qed

theorem candidates_complete_witness:
  "candidates (newEndpointPool [''a'', ''b''] 5) 1 = None \<longleftrightarrow> urls (newEndpointPool [''a'', ''b''] 5) = []"
  using candidates_complete [of "newEndpointPool [''a'', ''b''] 5" 1] by blast

fun candidates_run :: "endpointPool \<Rightarrow> time list \<Rightarrow> string list option" where
  "candidates_run p [] = Some []"
| "candidates_run p (t # ts) =
     (case candidates p t of
        None \<Rightarrow> None
      | Some (us, p') \<Rightarrow> map_option ((#) (hd us)) (candidates_run p' ts))"

lemma candidates_run_all_healthy:
  "urls p \<noteq> [] \<Longrightarrow> ep_next p < length (urls p) \<Longrightarrow> \<forall>t \<in> set ts. \<forall>u \<in> set (urls p). \<not> cooling p t u \<Longrightarrow>
   candidates_run p ts = Some (map (\<lambda>k. urls p ! ((ep_next p + k) mod length (urls p))) [0..<length ts])"
proof (induction ts arbitrary: p)
  case (Cons t ts)
  define p' where "p' = p\<lparr>ep_next := (ep_next p + 1) mod length (urls p)\<rparr>"
  have "filter (\<lambda>u. \<not> cooling p t u) (rotate (ep_next p) (urls p)) = rotate (ep_next p) (urls p)"
    "filter (cooling p t) (rotate (ep_next p) (urls p)) = []"
    using Cons.prems(3) by (auto simp: filter_empty_conv intro!: filter_True)
  then have c: "candidates p t = Some (rotate (ep_next p) (urls p), p')"
    using candidates_eq [OF Cons.prems(1)] by (simp add: p'_def)
  have h: "hd (rotate (ep_next p) (urls p)) = urls p ! (ep_next p mod length (urls p))"
    using Cons.prems(1) by (simp add: hd_conv_nth nth_rotate)
  have "candidates_run p' ts = Some (map (\<lambda>k. urls p ! ((ep_next p' + k) mod length (urls p))) [0..<length ts])"
    using Cons.IH [of p'] Cons.prems by (simp add: p'_def cooling_def)
  moreover have "(ep_next p' + k) mod length (urls p) = (ep_next p + Suc k) mod length (urls p)" for k
    by (simp add: p'_def mod_simps)
  ultimately show ?case
    using c h by (simp add: upt_conv_Cons map_Suc_upt [symmetric] del: upt_Suc)
qed simp

text \<open>
  Balancing is fair: while no endpoint is cooling down, any number of consecutive connects
  equal to the number of endpoints tries each endpoint first exactly once, in rotation order.
\<close>

theorem round_robin:
  assumes "urls p \<noteq> []" "ep_next p < length (urls p)" "length ts = length (urls p)"
    and "\<forall>t \<in> set ts. \<forall>u \<in> set (urls p). \<not> cooling p t u"
  shows "candidates_run p ts = Some (rotate (ep_next p) (urls p))"
  using candidates_run_all_healthy [OF assms(1,2,4)] by (simp add: assms(3) rotated)

theorem round_robin_witness:
  "candidates_run (newEndpointPool [''a'', ''b''] 5) [1, 2] = Some [''a'', ''b'']"
  using round_robin [of "newEndpointPool [''a'', ''b''] 5" "[1, 2]"]
  by (simp add: newEndpointPool_def cooling_def)

end
