(* ===== verification/List_Cache.thy ===== *)
theory List_Cache
  imports Fold_Prelude
begin

section \<open>The list cache (src/internal/cache/cache.go)\<close>

text \<open>
  A TTL cache whose refreshes are coalesced. \<open>GetOrFill\<close> takes the mutex more than once, so callers
  interleave: a state holds the entries, the channels closed so far and where each caller is, and
  \<open>cache_step\<close> is one critical section (or one blocking operation) of one caller. An entry is shared
  between the map and its filler by pointer; \<open>e_inflight\<close> is the identity of its channel, and the
  filler writes its result into the map's entry exactly when that is still the one it created. What
  \<open>fill\<close> answers is a label of the step that completes it: a value, an error, or a panic, which
  unwinds through \<open>GetOrFill\<close> (no deferred call releases the channel) to whoever recovers it.
\<close>

record 'v centry =
  e_value :: "'v option"
  e_expires :: time
  e_inflight :: "nat option"
  e_err :: "string option"

datatype 'v fill_result = FillOk 'v | FillErr string | FillPanic

datatype 'v caller =
    Idle
  | Filling string duration nat
  | Waiting string duration nat
  | Direct string
  | Returned "'v fill_result"
  | Cancelled

record 'v Cache =
  c_entries :: "string \<Rightarrow> 'v centry option"
  c_closed :: "nat set"
  c_fresh :: nat
  c_callers :: "nat \<Rightarrow> 'v caller"

definition New_cache :: "'v Cache" where
  "New_cache = \<lparr>c_entries = (\<lambda>_. None), c_closed = {}, c_fresh = 0, c_callers = (\<lambda>_. Idle)\<rparr>"

definition at_caller :: "'v Cache \<Rightarrow> nat \<Rightarrow> 'v caller \<Rightarrow> 'v Cache" where
  "at_caller c i p = c\<lparr>c_callers := (c_callers c)(i := p)\<rparr>"

text \<open>An entry that can be served at \<open>now\<close>.\<close>

definition fresh_value :: "'v centry option \<Rightarrow> time \<Rightarrow> 'v option" where
  "fresh_value eo now =
     (case eo of None \<Rightarrow> None
      | Some e \<Rightarrow> if e_inflight e = None \<and> now < e_expires e then e_value e else None)"

text \<open>The first critical section of \<open>GetOrFill\<close>; \<open>start_fill\<close> is its last part.\<close>

definition start_fill :: "'v Cache \<Rightarrow> nat \<Rightarrow> string \<Rightarrow> duration \<Rightarrow> 'v Cache" where
  "start_fill c i key ttl =
     at_caller (c\<lparr>c_entries := (c_entries c)(key \<mapsto>
         \<lparr>e_value = None, e_expires = 0, e_inflight = Some (c_fresh c), e_err = None\<rparr>),
       c_fresh := c_fresh c + 1\<rparr>) i (Filling key ttl (c_fresh c))"

definition enter :: "'v Cache \<Rightarrow> nat \<Rightarrow> string \<Rightarrow> duration \<Rightarrow> time \<Rightarrow> 'v Cache" where
  "enter c i key ttl now =
     (if ttl \<le> 0 then at_caller c i (Direct key)
      else case fresh_value (c_entries c key) now of
        Some v \<Rightarrow> at_caller c i (Returned (FillOk v))
      | None \<Rightarrow>
          (case c_entries c key of
             Some e \<Rightarrow>
               (case e_inflight e of
                  Some ch \<Rightarrow> at_caller c i (Waiting key ttl ch)
                | None \<Rightarrow>
                    start_fill c i key ttl)
           | None \<Rightarrow> start_fill c i key ttl))"

text \<open>The critical section after \<open>fill\<close> has answered.\<close>

definition own_entry :: "'v Cache \<Rightarrow> string \<Rightarrow> nat \<Rightarrow> bool" where
  "own_entry c key ch = (case c_entries c key of None \<Rightarrow> False | Some e \<Rightarrow> e_inflight e = Some ch)"

definition finish_fill :: "'v Cache \<Rightarrow> nat \<Rightarrow> string \<Rightarrow> duration \<Rightarrow> nat \<Rightarrow> 'v fill_result \<Rightarrow> time \<Rightarrow> 'v Cache" where
  "finish_fill c i key ttl ch r now =
     (case r of
        FillOk v \<Rightarrow>
          at_caller (c\<lparr>c_entries := (if own_entry c key ch
              then (c_entries c)(key \<mapsto> \<lparr>e_value = Some v, e_expires = now + ttl, e_inflight = None, e_err = None\<rparr>)
              else c_entries c), c_closed := insert ch (c_closed c)\<rparr>) i (Returned r)
      | FillErr e \<Rightarrow>
          at_caller (c\<lparr>c_entries := (c_entries c)(key := None), c_closed := insert ch (c_closed c)\<rparr>) i (Returned r)
      | FillPanic \<Rightarrow> at_caller c i (Returned r))"

text \<open>The critical section of a waiter whose channel has been closed.\<close>

definition wake :: "'v Cache \<Rightarrow> nat \<Rightarrow> string \<Rightarrow> time \<Rightarrow> 'v Cache" where
  "wake c i key now =
     (case fresh_value (c_entries c key) now of
        Some v \<Rightarrow> at_caller c i (Returned (FillOk v))
      | None \<Rightarrow>
          (case (case c_entries c key of None \<Rightarrow> None | Some e \<Rightarrow> e_err e) of
             Some err \<Rightarrow> at_caller c i (Returned (FillErr err))
           | None \<Rightarrow> at_caller c i (Direct key)))"

definition Invalidate :: "'v Cache \<Rightarrow> string \<Rightarrow> 'v Cache" where
  "Invalidate c pre =
     c\<lparr>c_entries := (\<lambda>k. case c_entries c k of
          Some e \<Rightarrow> if prefix pre k \<and> e_inflight e = None then None else Some e
        | None \<Rightarrow> None)\<rparr>"

inductive cache_step :: "'v Cache \<Rightarrow> 'v Cache \<Rightarrow> bool" where
  enter: "c_callers c i = Idle \<Longrightarrow> cache_step c (enter c i key ttl now)"
| filled: "c_callers c i = Filling key ttl ch \<Longrightarrow> cache_step c (finish_fill c i key ttl ch r now)"
| woken: "c_callers c i = Waiting key ttl ch \<Longrightarrow> ch \<in> c_closed c \<Longrightarrow> cache_step c (wake c i key now)"
| cancelled: "c_callers c i = Waiting key ttl ch \<Longrightarrow> cache_step c (at_caller c i Cancelled)"
| direct: "c_callers c i = Direct key \<Longrightarrow> cache_step c (at_caller c i (Returned r))"
| invalidate: "cache_step c (Invalidate c pre)"

inductive_cases cache_stepE: "cache_step c c'"

inductive cache_reachable :: "'v Cache \<Rightarrow> bool" where
  init: "cache_reachable New_cache"
| step: "cache_reachable c \<Longrightarrow> cache_step c c' \<Longrightarrow> cache_reachable c'"

inductive cache_steps :: "'v Cache \<Rightarrow> 'v Cache \<Rightarrow> bool" where
  refl: "cache_steps c c"
| step: "cache_steps c c' \<Longrightarrow> cache_step c' c'' \<Longrightarrow> cache_steps c c''"

subsection \<open>Invariant\<close>

definition fillers_own :: "'v Cache \<Rightarrow> bool" where
  "fillers_own c \<longleftrightarrow> (\<forall>i key ttl ch. c_callers c i = Filling key ttl ch \<longrightarrow> own_entry c key ch)"

definition fillers_differ :: "'v Cache \<Rightarrow> bool" where
  "fillers_differ c \<longleftrightarrow> (\<forall>i j key key' ttl ttl' ch.
     c_callers c i = Filling key ttl ch \<longrightarrow> c_callers c j = Filling key' ttl' ch \<longrightarrow> i = j)"

definition entries_ok :: "'v Cache \<Rightarrow> bool" where
  "entries_ok c \<longleftrightarrow> (\<forall>key e. c_entries c key = Some e \<longrightarrow>
     e_err e = None \<and> (e_inflight e = None \<longrightarrow> e_value e \<noteq> None))"

definition channels_open :: "'v Cache \<Rightarrow> bool" where
  "channels_open c \<longleftrightarrow> (\<forall>key ch. own_entry c key ch \<longrightarrow> ch < c_fresh c \<and> ch \<notin> c_closed c)"

definition channels_differ :: "'v Cache \<Rightarrow> bool" where
  "channels_differ c \<longleftrightarrow> (\<forall>key key' ch. own_entry c key ch \<longrightarrow> own_entry c key' ch \<longrightarrow> key = key')"

definition closed_old :: "'v Cache \<Rightarrow> bool" where
  "closed_old c \<longleftrightarrow> (\<forall>ch \<in> c_closed c. ch < c_fresh c)"

definition cache_inv :: "'v Cache \<Rightarrow> bool" where
  "cache_inv c \<longleftrightarrow> fillers_own c \<and> fillers_differ c \<and> entries_ok c \<and> channels_open c \<and>
     channels_differ c \<and> closed_old c"

lemmas cache_inv_defs = fillers_own_def fillers_differ_def entries_ok_def channels_open_def
  channels_differ_def closed_old_def

lemma at_caller_simps [simp]:
  "c_entries (at_caller c i p) = c_entries c" "c_closed (at_caller c i p) = c_closed c"
  "c_fresh (at_caller c i p) = c_fresh c" "c_callers (at_caller c i p) = (c_callers c)(i := p)"
  "own_entry (at_caller c i p) = own_entry c"
  by (simp_all add: at_caller_def own_entry_def fun_eq_iff)

lemma own_entry_upd:
  "own_entry (c\<lparr>c_entries := (c_entries c)(key := eo)\<rparr>) key' ch =
     (if key' = key then (case eo of None \<Rightarrow> False | Some e \<Rightarrow> e_inflight e = Some ch) else own_entry c key' ch)"
  by (simp add: own_entry_def)

lemma own_entry_other [simp]:
  "own_entry (c\<lparr>c_closed := x\<rparr>) = own_entry c" "own_entry (c\<lparr>c_fresh := y\<rparr>) = own_entry c"
  by (simp_all add: own_entry_def fun_eq_iff)

lemma cache_invI:
  assumes "\<And>i key ttl ch. c_callers c i = Filling key ttl ch \<Longrightarrow> own_entry c key ch"
    and "\<And>i j key key' ttl ttl' ch. c_callers c i = Filling key ttl ch \<Longrightarrow> c_callers c j = Filling key' ttl' ch \<Longrightarrow> i = j"
    and "\<And>key e. c_entries c key = Some e \<Longrightarrow> e_err e = None \<and> (e_inflight e = None \<longrightarrow> e_value e \<noteq> None)"
    and "\<And>key ch. own_entry c key ch \<Longrightarrow> ch < c_fresh c \<and> ch \<notin> c_closed c"
    and "\<And>key key' ch. own_entry c key ch \<Longrightarrow> own_entry c key' ch \<Longrightarrow> key = key'"
    and "\<And>ch. ch \<in> c_closed c \<Longrightarrow> ch < c_fresh c"
  shows "cache_inv c"
proof -
  have "fillers_own c" using assms(1) by (simp add: fillers_own_def)
  moreover have "fillers_differ c" using assms(2) unfolding fillers_differ_def by blast
  moreover have "entries_ok c" using assms(3) by (simp add: entries_ok_def)
  moreover have "channels_open c" using assms(4) by (simp add: channels_open_def)
  moreover have "channels_differ c" using assms(5) unfolding channels_differ_def by blast
  moreover have "closed_old c" using assms(6) by (simp add: closed_old_def)
  ultimately show ?thesis by (simp add: cache_inv_def)
qed

lemma cache_invD:
  assumes "cache_inv c"
  shows "c_callers c i = Filling key ttl ch \<Longrightarrow> own_entry c key ch"
    and "c_callers c i = Filling key ttl ch \<Longrightarrow> c_callers c j = Filling key' ttl' ch \<Longrightarrow> i = j"
    and "c_entries c key = Some e \<Longrightarrow> e_err e = None \<and> (e_inflight e = None \<longrightarrow> e_value e \<noteq> None)"
    and "own_entry c key ch \<Longrightarrow> ch < c_fresh c \<and> ch \<notin> c_closed c"
    and "own_entry c key ch \<Longrightarrow> own_entry c key' ch \<Longrightarrow> key = key'"
    and "ch \<in> c_closed c \<Longrightarrow> ch < c_fresh c"
proof -
  have a: "fillers_own c" "fillers_differ c" "entries_ok c" "channels_open c" "channels_differ c" "closed_old c"
    using assms by (simp_all add: cache_inv_def)
  show "c_callers c i = Filling key ttl ch \<Longrightarrow> own_entry c key ch" using a(1) by (simp add: fillers_own_def)
  show "c_callers c i = Filling key ttl ch \<Longrightarrow> c_callers c j = Filling key' ttl' ch \<Longrightarrow> i = j"
    using a(2) unfolding fillers_differ_def by blast
  show "c_entries c key = Some e \<Longrightarrow> e_err e = None \<and> (e_inflight e = None \<longrightarrow> e_value e \<noteq> None)"
    using a(3) by (simp add: entries_ok_def)
  show "own_entry c key ch \<Longrightarrow> ch < c_fresh c \<and> ch \<notin> c_closed c" using a(4) by (auto simp: channels_open_def)
  show "own_entry c key ch \<Longrightarrow> own_entry c key' ch \<Longrightarrow> key = key'"
    using a(5) unfolding channels_differ_def by blast
  show "ch \<in> c_closed c \<Longrightarrow> ch < c_fresh c" using a(6) by (simp add: closed_old_def)
qed

lemma cache_inv_init: "cache_inv New_cache"
  by (rule cache_invI) (simp_all add: New_cache_def own_entry_def)

lemma inv_at_caller: "cache_inv c \<Longrightarrow> (\<And>key ttl ch. p \<noteq> Filling key ttl ch) \<Longrightarrow> cache_inv (at_caller c i p)"
proof -
  assume i: "cache_inv c" and p: "\<And>key ttl ch. p \<noteq> Filling key ttl ch"
  note d = cache_invD [OF i]
  show ?thesis
  proof (rule cache_invI)
    fix j k t ch
    assume "c_callers (at_caller c i p) j = Filling k t ch"
    then have "c_callers c j = Filling k t ch" using p by (metis at_caller_simps(4) fun_upd_apply)
    then show "own_entry (at_caller c i p) k ch" using d(1) by simp
  next
    fix j j' k k' t t' ch
    assume "c_callers (at_caller c i p) j = Filling k t ch" "c_callers (at_caller c i p) j' = Filling k' t' ch"
    then have "c_callers c j = Filling k t ch" "c_callers c j' = Filling k' t' ch"
      using p by (metis at_caller_simps(4) fun_upd_apply)+
    then show "j = j'" by (rule d(2))
  qed (use d(3-6) in auto)
qed

lemma inv_start:
  assumes i: "cache_inv c" and n: "\<And>ch. \<not> own_entry c key ch"
  shows "cache_inv (start_fill c i key ttl)"
proof -
  define c' where "c' = start_fill c i key ttl"
  have own: "own_entry c' k ch \<longleftrightarrow> (if k = key then ch = c_fresh c else own_entry c k ch)" for k ch
    by (auto simp: c'_def start_fill_def own_entry_def)
  have sel: "c_closed c' = c_closed c" "c_fresh c' = c_fresh c + 1"
    "c_callers c' = (c_callers c)(i := Filling key ttl (c_fresh c))"
    "c_entries c' = (c_entries c)(key \<mapsto> \<lparr>e_value = None, e_expires = 0, e_inflight = Some (c_fresh c), e_err = None\<rparr>)"
    by (simp_all add: c'_def start_fill_def)
  note d = cache_invD [OF i]
  have new: "c_fresh c \<notin> c_closed c" "\<And>k. \<not> own_entry c k (c_fresh c)" using d(4,6) by blast+
  have "cache_inv c'"
  proof (rule cache_invI)
    fix j k t ch
    assume "c_callers c' j = Filling k t ch"
    then show "own_entry c' k ch" using d(1) [of j k t ch] n [of ch] by (auto simp: own sel split: if_splits)
  next
    fix j j' k k' t t' ch
    assume "c_callers c' j = Filling k t ch" "c_callers c' j' = Filling k' t' ch"
    then show "j = j'"
      using d(1) [of _ _ _ "c_fresh c"] d(2) [of j k t ch j'] new(2)
      by (cases "j = i"; cases "j' = i") (auto simp: sel)
  next
    fix k e
    assume "c_entries c' k = Some e"
    then show "e_err e = None \<and> (e_inflight e = None \<longrightarrow> e_value e \<noteq> None)"
      using d(3) by (auto simp: sel split: if_splits)
  next
    fix k ch
    assume "own_entry c' k ch"
    then show "ch < c_fresh c' \<and> ch \<notin> c_closed c'"
      using d(4) [of k ch] new(1) by (auto simp: own sel split: if_splits)
  next
    fix k k' ch
    assume "own_entry c' k ch" "own_entry c' k' ch"
    then show "k = k'" using d(5) new(2) by (auto simp: own split: if_splits)
  next
    fix ch
    assume "ch \<in> c_closed c'"
    then show "ch < c_fresh c'" using d(6) [of ch] by (simp add: sel)
  qed
  then show ?thesis by (simp add: c'_def)
qed

lemma inv_enter: "cache_inv c \<Longrightarrow> cache_inv (enter c i key ttl now)"
  by (auto simp: enter_def own_entry_def intro!: inv_at_caller inv_start split: option.split)

text \<open>The filler of a key leaves its entry: the channel is closed and the entry no longer in flight.\<close>

lemma inv_release:
  assumes i: "cache_inv c" and f: "c_callers c i = Filling key ttl ch"
    and eo: "\<And>e. eo = Some e \<Longrightarrow> e_err e = None \<and> e_inflight e = None \<and> e_value e \<noteq> None"
    and p: "\<And>key ttl ch. p \<noteq> Filling key ttl ch"
  shows "cache_inv (at_caller (c\<lparr>c_entries := (c_entries c)(key := eo), c_closed := insert ch (c_closed c)\<rparr>) i p)"
    (is "cache_inv ?c'")
proof -
  note d = cache_invD [OF i]
  have mine: "own_entry c key ch" by (rule d(1) [OF f])
  have own: "own_entry ?c' k ch' \<longleftrightarrow> k \<noteq> key \<and> own_entry c k ch'" for k ch'
    using eo by (cases eo) (auto simp: own_entry_def)
  show ?thesis
  proof (rule cache_invI)
    fix j k t ch'
    assume "c_callers ?c' j = Filling k t ch'"
    then have "j \<noteq> i" "c_callers c j = Filling k t ch'" using p by (cases "j = i"; auto)+
    then have o: "own_entry c k ch'" "ch' \<noteq> ch" using d(1) d(2) [OF f] by blast+
    then have "k \<noteq> key" using mine by (auto simp: own_entry_def split: option.splits)
    then show "own_entry ?c' k ch'" using o(1) own by blast
  next
    fix j j' k k' t t' ch'
    assume "c_callers ?c' j = Filling k t ch'" "c_callers ?c' j' = Filling k' t' ch'"
    then have "c_callers c j = Filling k t ch'" "c_callers c j' = Filling k' t' ch'"
      using p by (cases "j = i"; cases "j' = i"; auto)+
    then show "j = j'" by (rule d(2))
  next
    fix k e
    assume "c_entries ?c' k = Some e"
    then show "e_err e = None \<and> (e_inflight e = None \<longrightarrow> e_value e \<noteq> None)"
      using d(3) eo by (auto split: if_splits)
  next
    fix k ch'
    assume "own_entry ?c' k ch'"
    then have "k \<noteq> key" "own_entry c k ch'" using own by blast+
    then show "ch' < c_fresh ?c' \<and> ch' \<notin> c_closed ?c'" using d(4) [of k ch'] d(5) [OF mine, of k] by auto
  next
    fix k k' ch'
    assume "own_entry ?c' k ch'" "own_entry ?c' k' ch'"
    then show "k = k'" using d(5) own by blast
  next
    fix ch'
    assume "ch' \<in> c_closed ?c'"
    then show "ch' < c_fresh ?c'" using d(6) d(4) [OF mine] by auto
  qed
qed

lemma inv_finish:
  assumes i: "cache_inv c" and f: "c_callers c i = Filling key ttl ch"
  shows "cache_inv (finish_fill c i key ttl ch r now)"
  using inv_release [OF i f, of None "Returned r"] inv_at_caller [OF i, of "Returned r"]
    inv_release [OF i f, of "Some \<lparr>e_value = Some v, e_expires = now + ttl, e_inflight = None, e_err = None\<rparr>" "Returned r" for v]
    cache_invD(1) [OF i f]
  by (cases r) (simp_all add: finish_fill_def)

lemma inv_wake: "cache_inv c \<Longrightarrow> cache_inv (wake c i key now)"
  by (auto simp: wake_def intro!: inv_at_caller split: option.split)

lemma inv_Invalidate: "cache_inv c \<Longrightarrow> cache_inv (Invalidate c pre)"
proof -
  assume i: "cache_inv c"
  have own: "own_entry (Invalidate c pre) = own_entry c"
    by (auto simp: own_entry_def Invalidate_def fun_eq_iff split: option.split)
  have e: "c_entries (Invalidate c pre) k = Some e \<Longrightarrow> c_entries c k = Some e" for k e
    by (auto simp: Invalidate_def split: option.splits if_splits)
  have sel: "c_callers (Invalidate c pre) = c_callers c" "c_fresh (Invalidate c pre) = c_fresh c"
    "c_closed (Invalidate c pre) = c_closed c" by (simp_all add: Invalidate_def)
  show ?thesis by (rule cache_invI) (use cache_invD [OF i] in \<open>auto simp: own sel dest!: e\<close>)
qed

lemma step_inv: "cache_step c c' \<Longrightarrow> cache_inv c \<Longrightarrow> cache_inv c'"
  by (auto elim!: cache_stepE intro: inv_enter inv_finish inv_wake inv_Invalidate inv_at_caller)

lemma reachable_cache_inv: "cache_reachable c \<Longrightarrow> cache_inv c"
  by (induction rule: cache_reachable.induct) (auto intro: cache_inv_init step_inv)


subsection \<open>What callers can rely on\<close>

text \<open>
  C33. Refreshes are coalesced: in every reachable state at most one caller is filling a key through
  the cache, its entry is the one in the map, and every other caller of that key that arrives
  meanwhile with a positive lifetime waits for it rather than filling.
\<close>

theorem single_flight:
  assumes "cache_reachable c" "c_callers c i = Filling key ttl ch"
  shows "(\<forall>j ttl' ch'. c_callers c j = Filling key ttl' ch' \<longrightarrow> j = i \<and> ch' = ch) \<and>
    (\<forall>k ttl' now. 0 < ttl' \<longrightarrow> c_callers (enter c k key ttl' now) k = Waiting key ttl' ch)"
proof (intro conjI allI impI)
  note d = cache_invD [OF reachable_cache_inv [OF assms(1)]]
  obtain e where e: "c_entries c key = Some e" "e_inflight e = Some ch"
    using d(1) [OF assms(2)] by (auto simp: own_entry_def split: option.splits)
  fix j ttl' ch'
  assume j: "c_callers c j = Filling key ttl' ch'"
  show "ch' = ch" using d(1) [OF j] e by (simp add: own_entry_def)
  then show "j = i" using d(2) [OF assms(2)] j by blast
next
  note d = cache_invD [OF reachable_cache_inv [OF assms(1)]]
  obtain e where e: "c_entries c key = Some e" "e_inflight e = Some ch"
    using d(1) [OF assms(2)] by (auto simp: own_entry_def split: option.splits)
  fix k now and ttl' :: int
  assume "0 < ttl'"
  then show "c_callers (enter c k key ttl' now) k = Waiting key ttl' ch"
    using e by (simp add: enter_def fresh_value_def)
qed

text \<open>A run of one caller that fills and one that arrives meanwhile.\<close>

definition filling_run :: "int Cache" where
  "filling_run = enter New_cache 0 ''tools'' 30 1"

lemma filling_run_eq: "filling_run = start_fill New_cache 0 ''tools'' 30"
  by (simp add: filling_run_def enter_def New_cache_def fresh_value_def)

lemma filling_run_reachable: "cache_reachable filling_run"
  unfolding filling_run_def
  by (rule cache_reachable.step [OF cache_reachable.init cache_step.enter]) (simp add: New_cache_def)

lemma filling_run_caller: "c_callers filling_run 0 = Filling ''tools'' 30 0"
  by (simp add: filling_run_eq start_fill_def New_cache_def)

theorem single_flight_witness:
  "c_callers (enter filling_run 1 ''tools'' 30 2) 1 = Waiting ''tools'' 30 0"
  using single_flight [OF filling_run_reachable filling_run_caller] by simp


lemma finish_ok_entry:
  assumes "cache_inv c" "c_callers c i = Filling key ttl ch"
  shows "c_entries (finish_fill c i key ttl ch (FillOk v) t) key =
    Some \<lparr>e_value = Some v, e_expires = t + ttl, e_inflight = None, e_err = None\<rparr>"
  using cache_invD(1) [OF assms] by (simp add: finish_fill_def)

text \<open>
  C34. A filled value is served until its deadline and no longer: after a fill has answered at \<open>t\<close>, a
  caller that arrives before \<open>t + ttl\<close> is handed that value at once, and one that arrives later
  refills.
\<close>

theorem filled_value_served:
  assumes "cache_reachable c" "c_callers c i = Filling key ttl ch" "0 < ttl'"
  shows "c_callers (enter (finish_fill c i key ttl ch (FillOk v) t) k key ttl' now) k =
    (if now < t + ttl then Returned (FillOk v) else Filling key ttl' (c_fresh c))"
proof -
  have "c_fresh (finish_fill c i key ttl ch (FillOk v) t) = c_fresh c" by (simp add: finish_fill_def)
  then show ?thesis
    using finish_ok_entry [OF reachable_cache_inv [OF assms(1)] assms(2), of v t] assms(3)
    by (simp add: enter_def fresh_value_def start_fill_def)
qed

theorem filled_value_served_witness:
  "c_callers (enter (finish_fill filling_run 0 ''tools'' 30 0 (FillOk 7) 2) 1 ''tools'' 30 31) 1 = Returned (FillOk 7)"
  using filled_value_served [OF filling_run_reachable filling_run_caller, of 30 7 2 1 31] by simp

text \<open>
  C33. A failed refresh is not shared: no caller that waited for another's fill is ever handed that
  fill's error. Each of them falls through to a fill of its own, outside the cache and not coalesced,
  so an upstream that is failing is asked once per waiting caller. The branch of \<open>GetOrFill\<close> that
  returns the recorded error is dead, because the entry that carries it leaves the map in the same
  critical section.
\<close>

theorem failed_fill_not_shared:
  fixes c :: "'v Cache"
  assumes "cache_reachable c" "c_callers c i = Filling key ttl ch" "c_callers c j = Waiting key ttl' ch"
  shows "c_callers (wake (finish_fill c i key ttl ch (FillErr e) t) j key now) j = Direct key \<and>
    (\<forall>(c' :: 'v Cache) k key' err. cache_reachable c' \<longrightarrow> c_callers (wake c' k key' now) k \<noteq> Returned (FillErr err))"
proof (intro conjI allI impI)
  show "c_callers (wake (finish_fill c i key ttl ch (FillErr e) t) j key now) j = Direct key"
    by (simp add: wake_def finish_fill_def fresh_value_def)
  fix c' :: "'v Cache" and k key' err
  assume "cache_reachable c'"
  then have "e_err en = None" if "c_entries c' key' = Some en" for en
    using cache_invD(3) [OF reachable_cache_inv] that by blast
  then show "c_callers (wake c' k key' now) k \<noteq> Returned (FillErr err)"
    by (auto simp: wake_def split: option.splits)
qed

definition waiting_run :: "int Cache" where
  "waiting_run = enter filling_run 1 ''tools'' 30 2"

lemma waiting_run_reachable: "cache_reachable waiting_run"
  unfolding waiting_run_def
  by (rule cache_reachable.step [OF filling_run_reachable cache_step.enter])
    (simp add: filling_run_eq start_fill_def New_cache_def)

lemma waiting_run_callers:
  "c_callers waiting_run 0 = Filling ''tools'' 30 0" "c_callers waiting_run 1 = Waiting ''tools'' 30 0"
  by (simp_all add: waiting_run_def filling_run_eq enter_def start_fill_def New_cache_def fresh_value_def)

theorem failed_fill_not_shared_witness:
  "c_callers (wake (finish_fill waiting_run 0 ''tools'' 30 0 (FillErr ''down'') 3) 1 ''tools'' 4) 1 = Direct ''tools''"
  using failed_fill_not_shared [OF waiting_run_reachable waiting_run_callers] by blast

text \<open>
  An invalidation that arrives during a refresh is lost: the entry in flight is passed over, and
  the value that refresh then delivers, which may predate the change the invalidation announced, is
  cached and served for its whole lifetime.
\<close>

theorem invalidation_lost_in_flight:
  assumes "cache_reachable c" "c_callers c i = Filling key ttl ch" "0 < ttl'" "now < t + ttl"
  shows "c_callers (enter (finish_fill (Invalidate c pre) i key ttl ch (FillOk v) t) k key ttl' now) k
    = Returned (FillOk v)"
proof -
  have "cache_inv (Invalidate c pre)" by (rule inv_Invalidate [OF reachable_cache_inv [OF assms(1)]])
  moreover have "c_callers (Invalidate c pre) i = Filling key ttl ch" using assms(2) by (simp add: Invalidate_def)
  ultimately have "c_entries (finish_fill (Invalidate c pre) i key ttl ch (FillOk v) t) key =
      Some \<lparr>e_value = Some v, e_expires = t + ttl, e_inflight = None, e_err = None\<rparr>"
    by (rule finish_ok_entry)
  then show ?thesis using assms(3,4) by (simp add: enter_def fresh_value_def)
qed

theorem invalidation_lost_in_flight_witness:
  "c_callers (enter (finish_fill (Invalidate filling_run ''tools'') 0 ''tools'' 30 0 (FillOk 7) 2) 1 ''tools'' 30 31) 1
     = Returned (FillOk 7)"
  using invalidation_lost_in_flight [OF filling_run_reachable filling_run_caller, of 30 31 2 "''tools''" 7 1] by simp

subsection \<open>A panic while filling\<close>

definition wedged :: "'v Cache \<Rightarrow> string \<Rightarrow> nat \<Rightarrow> bool" where
  "wedged c key ch \<longleftrightarrow> own_entry c key ch \<and> (\<forall>i key' ttl. c_callers c i \<noteq> Filling key' ttl ch)"

lemma wedged_finish:
  assumes i: "cache_inv c" and w: "wedged c key ch" and f: "c_callers c i = Filling key' ttl ch'"
  shows "wedged (finish_fill c i key' ttl ch' r now) key ch"
proof -
  have "own_entry c key' ch'" by (rule cache_invD(1) [OF i f])
  moreover have "ch' \<noteq> ch" using w f by (auto simp: wedged_def)
  ultimately have "key' \<noteq> key" using w by (auto simp: wedged_def own_entry_def split: option.splits)
  then show ?thesis
    using w by (cases r) (auto simp: wedged_def finish_fill_def own_entry_def split: if_splits)
qed

lemma wedged_enter:
  assumes i: "cache_inv c" and w: "wedged c key ch"
  shows "wedged (enter c k key' ttl now) key ch"
proof -
  have lt: "ch < c_fresh c" using w cache_invD(4) [OF i, of key ch] by (auto simp: wedged_def)
  show ?thesis
    using w lt by (auto simp: wedged_def enter_def start_fill_def own_entry_def fresh_value_def
        split: option.splits if_splits)
qed

lemma wedged_step: "cache_step c c' \<Longrightarrow> cache_inv c \<Longrightarrow> wedged c key ch \<Longrightarrow> wedged c' key ch"
proof (erule cache_stepE)
  fix i key' ttl now
  assume "cache_inv c" "wedged c key ch" "c' = enter c i key' ttl now"
  then show "wedged c' key ch" by (simp add: wedged_enter)
next
  fix i key' ttl ch' r now
  assume "cache_inv c" "wedged c key ch" "c' = finish_fill c i key' ttl ch' r now"
    "c_callers c i = Filling key' ttl ch'"
  then show "wedged c' key ch" by (simp add: wedged_finish)
qed (auto simp: wedged_def wake_def own_entry_def Invalidate_def split: option.splits)

lemma steps_inv: "cache_steps c c' \<Longrightarrow> cache_inv c \<Longrightarrow> wedged c key ch \<Longrightarrow> cache_inv c' \<and> wedged c' key ch"
  by (induction rule: cache_steps.induct) (auto intro: step_inv wedged_step)

text \<open>
  C34. A panic while filling wedges the key for good: if a fill panics, as the fan-out's recovery
  expects it may, then in every state that can follow, every caller of that key with a positive
  lifetime waits on the same channel, and that channel is never closed, so it can only be released by
  its own context being cancelled.
\<close>

theorem panic_wedges_key:
  assumes "cache_reachable c" "c_callers c i = Filling key ttl ch"
    and "cache_steps (finish_fill c i key ttl ch FillPanic now) c'"
  shows "ch \<notin> c_closed c' \<and>
    (\<forall>k ttl' now'. 0 < ttl' \<longrightarrow> c_callers (enter c' k key ttl' now') k = Waiting key ttl' ch)"
proof -
  note i = reachable_cache_inv [OF assms(1)]
  have "wedged (finish_fill c i key ttl ch FillPanic now) key ch"
    using cache_invD(1,2) [OF i assms(2)] by (auto simp: wedged_def finish_fill_def split: if_splits)
  then have w: "cache_inv c'" "wedged c' key ch" using steps_inv [OF assms(3)] inv_finish [OF i assms(2)] by blast+
  then obtain e where "c_entries c' key = Some e" "e_inflight e = Some ch"
    by (auto simp: wedged_def own_entry_def split: option.splits)
  then show ?thesis using w cache_invD(4) [OF w(1)] by (auto simp: wedged_def enter_def fresh_value_def)
qed

theorem panic_wedges_key_witness:
  "c_callers (enter (finish_fill filling_run 0 ''tools'' 30 0 FillPanic 2) 1 ''tools'' 30 1000) 1
     = Waiting ''tools'' 30 0"
  using panic_wedges_key [OF filling_run_reachable filling_run_caller cache_steps.refl] by simp

end
