(* ===== verification/Shared_State.thy ===== *)
theory Shared_State
  imports Bounded_Map Breaker Rate_Limit
begin

section \<open>The in-memory state provider (src/internal/state/state.go)\<close>

text \<open>
  The record store and the single-use recorder are bounded maps; the limiter and the breaker are the
  ones of their packages behind a possibly nil pointer. Each map call is atomic, so the batch forms
  are sequences of single calls (at one clock reading here). \<open>SetMany\<close> ranges over a Go map: its
  argument is the list of entries in the order of the iteration. What clients of the store rely on is
  the locale \<open>record_store\<close>, interpreted on \<open>MemStore\<close> from the facts \<open>bm\<close> of the bounded map.
\<close>

definition maxStoreEntries :: int where "maxStoreEntries = 50000"
definition maxOnceRecords :: int where "maxOnceRecords = 100000"

type_synonym 'v MemStore = "'v Map"

definition NewMemStore :: "'v MemStore" where
  "NewMemStore = New_map maxStoreEntries"

definition Get_store :: "'v MemStore \<Rightarrow> string \<Rightarrow> time \<Rightarrow> 'v option \<times> 'v MemStore" where
  "Get_store s key now = Load s key now"

fun GetMany_loop :: "(string, 'v) fmap \<Rightarrow> 'v MemStore \<Rightarrow> string list \<Rightarrow> time \<Rightarrow> (string, 'v) fmap \<times> 'v MemStore" where
  "GetMany_loop out s [] now = (out, s)"
| "GetMany_loop out s (k # ks) now =
     (case Load s k now of
        (Some v, s') \<Rightarrow> GetMany_loop (fmupd k v out) s' ks now
      | (None, s') \<Rightarrow> GetMany_loop out s' ks now)"

definition GetMany_store :: "'v MemStore \<Rightarrow> string list \<Rightarrow> time \<Rightarrow> (string, 'v) fmap \<times> 'v MemStore" where
  "GetMany_store s ks now = GetMany_loop fmempty s ks now"

definition Set_store :: "'v MemStore \<Rightarrow> string \<Rightarrow> 'v \<Rightarrow> duration \<Rightarrow> time \<Rightarrow> 'v MemStore" where
  "Set_store s key v ttl now = Store_map s key v ttl now"

definition SetMany_store :: "'v MemStore \<Rightarrow> (string \<times> 'v) list \<Rightarrow> duration \<Rightarrow> time \<Rightarrow> 'v MemStore" where
  "SetMany_store s kvs ttl now = fold (\<lambda>(k, v) s. Store_map s k v ttl now) kvs s"

definition Delete_store :: "'v MemStore \<Rightarrow> string \<Rightarrow> 'v MemStore" where
  "Delete_store s key = Delete_map s key"

type_synonym MemOnce = "unit Map"

definition NewMemOnce :: MemOnce where
  "NewMemOnce = New_map maxOnceRecords"

definition TryOnce :: "MemOnce \<Rightarrow> string \<Rightarrow> duration \<Rightarrow> time \<Rightarrow> bool \<times> MemOnce" where
  "TryOnce o' key ttl now = (case LoadOrStore o' key () ttl now of ((v, loaded), o'') \<Rightarrow> (\<not> loaded, o''))"

subsection \<open>The contract of a record store\<close>

text \<open>The effect of writing a list of records one after the other.\<close>

definition upd_all :: "('k \<Rightarrow> 'v option) \<Rightarrow> ('k \<times> 'v) list \<Rightarrow> 'k \<Rightarrow> 'v option" where
  "upd_all m kvs = fold (\<lambda>(k, v) m. m(k \<mapsto> v)) kvs m"

locale record_store =
  fixes get :: "'s \<Rightarrow> 'k \<Rightarrow> time \<Rightarrow> 'v option \<times> 's"
    and put :: "'s \<Rightarrow> 'k \<Rightarrow> 'v \<Rightarrow> duration \<Rightarrow> time \<Rightarrow> 's"
    and get_many :: "'s \<Rightarrow> 'k list \<Rightarrow> time \<Rightarrow> ('k, 'v) fmap \<times> 's"
    and put_many :: "'s \<Rightarrow> ('k \<times> 'v) list \<Rightarrow> duration \<Rightarrow> time \<Rightarrow> 's"
    and del :: "'s \<Rightarrow> 'k \<Rightarrow> 's"
    and view :: "'s \<Rightarrow> time \<Rightarrow> 'k \<Rightarrow> 'v option"
    and invar :: "'s \<Rightarrow> bool"
  assumes get_result: "invar s \<Longrightarrow> fst (get s k now) = view s now k"
    and get_view: "invar s \<Longrightarrow> now \<le> t \<Longrightarrow> view (snd (get s k now)) t = view s t"
    and get_invar: "invar s \<Longrightarrow> invar (snd (get s k now))"
    and get_many_result: "invar s \<Longrightarrow>
          fmlookup (fst (get_many s ks now)) k = (if k \<in> set ks then view s now k else None)"
    and get_many_view: "invar s \<Longrightarrow> now \<le> t \<Longrightarrow> view (snd (get_many s ks now)) t = view s t"
    and get_many_invar: "invar s \<Longrightarrow> invar (snd (get_many s ks now))"
    and put_own: "invar s \<Longrightarrow> 0 < now \<Longrightarrow> 0 < ttl \<Longrightarrow> t < now + ttl \<Longrightarrow> view (put s k v ttl now) t k = Some v"
    and put_sub: "invar s \<Longrightarrow> 0 < now \<Longrightarrow> view (put s k v ttl now) t \<subseteq>\<^sub>m (view s t)(k \<mapsto> v)"
    and put_invar: "invar s \<Longrightarrow> invar (put s k v ttl now)"
    and put_many_sub: "invar s \<Longrightarrow> 0 < now \<Longrightarrow> view (put_many s kvs ttl now) t \<subseteq>\<^sub>m upd_all (view s t) kvs"
    and put_many_invar: "invar s \<Longrightarrow> invar (put_many s kvs ttl now)"
    and del_view: "invar s \<Longrightarrow> view (del s k) t = (view s t)(k := None)"
    and del_invar: "invar s \<Longrightarrow> invar (del s k)"
    and view_antimono: "invar s \<Longrightarrow> t \<le> t' \<Longrightarrow> view s t' k = Some v \<Longrightarrow> view s t k = Some v"
begin

lemma get_after_put:
  "invar s \<Longrightarrow> 0 < now \<Longrightarrow> 0 < ttl \<Longrightarrow> t < now + ttl \<Longrightarrow> fst (get (put s k v ttl now) k t) = Some v"
  by (simp add: get_result put_invar put_own)

lemma put_other:
  "invar s \<Longrightarrow> 0 < now \<Longrightarrow> k' \<noteq> k \<Longrightarrow> view (put s k v ttl now) t k' = Some w \<Longrightarrow> view s t k' = Some w"
  using put_sub [of s now k v ttl t] by (auto simp: map_le_def dom_def fun_upd_def split: if_splits)

text \<open>A property of records that every write respects holds of every record ever read.\<close>

lemma put_pres:
  assumes "invar s" "0 < now" "\<And>k w. view s t k = Some w \<Longrightarrow> P k w" "P k v"
  shows "view (put s k v ttl now) t k' = Some w \<Longrightarrow> P k' w"
proof -
  assume "view (put s k v ttl now) t k' = Some w"
  then have "((view s t)(k \<mapsto> v)) k' = Some w" using put_sub [OF assms(1,2)] by (rule map_subD [rotated])
  then show ?thesis using assms(3,4) by (auto split: if_splits)
qed

lemma put_many_pres:
  assumes "invar s" "0 < now" "\<And>k w. view s t k = Some w \<Longrightarrow> P k w" "\<forall>(k, v) \<in> set kvs. P k v"
  shows "view (put_many s kvs ttl now) t k' = Some w \<Longrightarrow> P k' w"
proof -
  have "upd_all m kvs k' = Some w \<Longrightarrow> (\<And>k w. m k = Some w \<Longrightarrow> P k w) \<Longrightarrow> P k' w" for m
    using assms(4) by (induction kvs arbitrary: m) (fastforce simp: upd_all_def split: if_splits)+
  moreover assume "view (put_many s kvs ttl now) t k' = Some w"
  then have "upd_all (view s t) kvs k' = Some w" using put_many_sub [OF assms(1,2)] by (rule map_subD [rotated])
  ultimately show ?thesis using assms(3) by blast
qed

end

subsection \<open>The in-memory store implements it\<close>

lemma GetMany_loop_spec:
  "one_home s \<Longrightarrow> one_home (snd (GetMany_loop out s ks now)) \<and>
     (\<forall>t \<ge> now. map_view (snd (GetMany_loop out s ks now)) t = map_view s t) \<and>
     (\<forall>k. fmlookup (fst (GetMany_loop out s ks now)) k =
        (if k \<in> set ks \<and> map_view s now k \<noteq> None then map_view s now k else fmlookup out k))"
proof (induction ks arbitrary: out s)
  case (Cons k ks)
  define s' where "s' = snd (Load s k now)"
  have l: "Load s k now = (map_view s now k, s')"
    using bm.load_result [OF Cons.prems, of k now] by (simp add: s'_def prod_eq_iff)
  have i: "one_home s'" using bm.load_invar [OF Cons.prems] by (simp add: s'_def)
  have v: "map_view s' t = map_view s t" if "now \<le> t" for t
    using bm.load_view [OF Cons.prems that] by (simp add: s'_def)
  show ?case
    using Cons.IH [OF i, of out] Cons.IH [OF i, of "fmupd k (the (map_view s now k)) out"] v [of now] v
    by (cases "map_view s now k") (auto simp: l)
qed simp

lemma Store_sub: "one_home s \<Longrightarrow> 0 < now \<Longrightarrow> map_view (Store_map s k v ttl now) t \<subseteq>\<^sub>m (map_view s t)(k \<mapsto> v)"
proof (rule map_subI)
  fix k' w
  assume "one_home s" "0 < now" "map_view (Store_map s k v ttl now) t k' = Some w"
  then show "((map_view s t)(k \<mapsto> v)) k' = Some w"
    using bm.store_view_sub [of s now k v ttl t] map_subD by (fastforce split: if_splits)
qed

lemma SetMany_spec:
  "one_home s \<Longrightarrow> 0 < now \<Longrightarrow> one_home (SetMany_store s kvs ttl now) \<and>
     map_view (SetMany_store s kvs ttl now) t \<subseteq>\<^sub>m upd_all (map_view s t) kvs"
proof (induction kvs arbitrary: s)
  case Nil
  then show ?case by (simp add: SetMany_store_def upd_all_def)
next
  case (Cons kv kvs)
  obtain k v where kv: "kv = (k, v)" by force
  define s' where "s' = Store_map s k v ttl now"
  have i: "one_home s'" using bm.store_invar [OF Cons.prems(1)] by (simp add: s'_def)
  have sub: "map_view s' t \<subseteq>\<^sub>m (map_view s t)(k \<mapsto> v)"
    using Store_sub [OF Cons.prems] by (simp add: s'_def)
  have mono: "m \<subseteq>\<^sub>m m' \<Longrightarrow> upd_all m kvs \<subseteq>\<^sub>m upd_all m' kvs" for m m' :: "string \<Rightarrow> 'a option"
    by (induction kvs arbitrary: m m') (auto simp: upd_all_def intro: map_le_upd)
  have "SetMany_store s (kv # kvs) ttl now = SetMany_store s' kvs ttl now"
    by (simp add: SetMany_store_def kv s'_def)
  moreover have "upd_all (map_view s t) (kv # kvs) = upd_all ((map_view s t)(k \<mapsto> v)) kvs"
    by (simp add: upd_all_def kv)
  ultimately show ?case using Cons.IH [OF i Cons.prems(2)] mono [OF sub] map_le_trans by metis
qed

interpretation ms: record_store Get_store Set_store GetMany_store SetMany_store Delete_store map_view one_home
proof unfold_locales
  fix s :: "'v Map" and k k' :: string and v :: 'v and ttl now t t' :: int and ks kvs
  assume inv: "one_home s"
  show "fst (Get_store s k now) = map_view s now k" by (simp add: Get_store_def bm.load_result inv)
  show "now \<le> t \<Longrightarrow> map_view (snd (Get_store s k now)) t = map_view s t" by (simp add: Get_store_def bm.load_view inv)
  show "one_home (snd (Get_store s k now))" by (simp add: Get_store_def bm.load_invar inv)
  show "fmlookup (fst (GetMany_store s ks now)) k = (if k \<in> set ks then map_view s now k else None)"
    using GetMany_loop_spec [OF inv, of fmempty ks now] by (auto simp: GetMany_store_def)
  show "now \<le> t \<Longrightarrow> map_view (snd (GetMany_store s ks now)) t = map_view s t"
    using GetMany_loop_spec [OF inv, of fmempty ks now] by (auto simp: GetMany_store_def)
  show "one_home (snd (GetMany_store s ks now))"
    using GetMany_loop_spec [OF inv, of fmempty ks now] by (auto simp: GetMany_store_def)
  show "0 < now \<Longrightarrow> 0 < ttl \<Longrightarrow> t < now + ttl \<Longrightarrow> map_view (Set_store s k v ttl now) t k = Some v"
    by (simp add: Set_store_def bm.store_view_key inv)
  show "0 < now \<Longrightarrow> map_view (Set_store s k v ttl now) t \<subseteq>\<^sub>m (map_view s t)(k \<mapsto> v)"
    using Store_sub [OF inv] by (simp add: Set_store_def)
  show "one_home (Set_store s k v ttl now)" by (simp add: Set_store_def bm.store_invar inv)
  show "0 < now \<Longrightarrow> map_view (SetMany_store s kvs ttl now) t \<subseteq>\<^sub>m upd_all (map_view s t) kvs"
    using SetMany_spec [OF inv] by blast
  show "one_home (SetMany_store s kvs ttl now)"
    using inv by (induction kvs arbitrary: s) (auto simp: SetMany_store_def bm.store_invar)
  show "map_view (Delete_store s k) t = (map_view s t)(k := None)" by (simp add: Delete_store_def bm.delete_view inv)
  show "one_home (Delete_store s k)" by (simp add: Delete_store_def bm.delete_invar inv)
  show "t \<le> t' \<Longrightarrow> map_view s t' k = Some v \<Longrightarrow> map_view s t k = Some v" by (rule bm.view_antimono [OF inv])
qed


subsection \<open>Replay protection\<close>

fun once_all :: "MemOnce \<Rightarrow> (string \<times> duration \<times> time) list \<Rightarrow> MemOnce" where
  "once_all o' [] = o'"
| "once_all o' ((k, ttl, now) # us) = once_all (snd (TryOnce o' k ttl now)) us"

lemma snd_TryOnce: "snd (TryOnce o' k ttl now) = snd (LoadOrStore o' k () ttl now)"
  by (simp add: TryOnce_def case_prod_beta)

text \<open>\<open>k\<close> will survive \<open>n\<close> more uses of other keys.\<close>

definition safe_for :: "'v Map \<Rightarrow> string \<Rightarrow> 'v entry \<Rightarrow> int \<Rightarrow> bool" where
  "safe_for m k e n \<longleftrightarrow>
     (fmlookup (cur m) k = Some e \<and> n \<le> max_entries m) \<or>
     (fmlookup (cur m) k = None \<and> fmlookup (prev m) k = Some e \<and> fmap_len (cur m) + n \<le> max_entries m)"

lemma safe_drop: "k' \<noteq> k \<Longrightarrow> safe_for m k e n \<Longrightarrow> safe_for (m\<lparr>prev := fmdrop k' (prev m)\<rparr>) k e n"
  by (auto simp: safe_for_def)

lemma safe_store:
  assumes "k' \<noteq> k" "safe_for m k e (n + 1)" "0 \<le> n"
  shows "safe_for (storeLocked m k' v ttl now) k e n"
  using Store_keeps_cur [OF assms(1), of m e v ttl now] Store_keeps_prev [OF assms(1), of m e v ttl now]
    assms(2,3) Store_max [of m k' v ttl now]
  unfolding safe_for_def Store_map_def by auto

lemma safe_promote:
  assumes "k' \<noteq> k" "safe_for m k e (n + 1)"
  shows "safe_for (m\<lparr>prev := fmdrop k' (prev m), cur := fmupd k' e' (cur m)\<rparr>) k e n"
  using assms by (auto simp: safe_for_def fmap_len_upd)

lemma safe_mono: "safe_for m k e (n + 1) \<Longrightarrow> safe_for m k e n"
  by (auto simp: safe_for_def)

lemma safe_LoadOrStore:
  assumes "k' \<noteq> k" "safe_for m k e (n + 1)" "0 \<le> n"
  shows "safe_for (snd (LoadOrStore m k' v ttl now)) k e n"
  using safe_store [OF assms] safe_store [OF assms(1) safe_drop [OF assms(1,2)] assms(3)]
    safe_promote [OF assms(1,2)] safe_mono [OF assms(2)]
  by (auto simp: LoadOrStore_def Let_def split: option.split)

lemma safe_held: "safe_for m k e n \<Longrightarrow> held m k = Some e"
  by (auto simp: safe_for_def held_def)

text \<open>A use of \<open>k\<close> itself finds the entry while it lives.\<close>

lemma safe_hit:
  assumes "safe_for m k e (n + 1)" "live e now"
  shows "safe_for (snd (LoadOrStore m k v ttl now)) k e n"
proof -
  have "n \<le> max_entries m" if "fmap_len (cur m) + (n + 1) \<le> max_entries m"
    using that fmap_len_nonneg [of "cur m"] by linarith
  then show ?thesis using assms by (auto simp: safe_for_def LoadOrStore_def Let_def fmap_len_upd)
qed

lemma once_all_safe:
  "\<forall>(k', _, now) \<in> set us. k' = k \<longrightarrow> live e now \<Longrightarrow> safe_for o' k e (int (length us)) \<Longrightarrow>
   held (once_all o' us) k = Some e"
proof (induction us arbitrary: o')
  case (Cons u us)
  obtain k' ttl now where u: "u = (k', ttl, now)" by (cases u)
  have "safe_for (snd (TryOnce o' k' ttl now)) k e (int (length us))"
    using safe_LoadOrStore [of k' k o' e "int (length us)" "()" ttl now] safe_hit [of o' k e "int (length us)" now "()" ttl] Cons.prems
    by (cases "k' = k") (simp_all add: u snd_TryOnce add.commute)
  then show ?case using Cons by (simp add: u)
qed (simp add: safe_held)

lemma one_home_once [inv_intros]: "one_home o' \<Longrightarrow> one_home (snd (TryOnce o' k ttl now))"
  by (simp add: snd_TryOnce inv_intros)

lemma once_all_one_home [inv_intros]: "one_home o' \<Longrightarrow> one_home (once_all o' us)"
  by (induction o' us rule: once_all.induct) (simp_all add: one_home_once)

lemma TryOnce_fresh: "one_home o' \<Longrightarrow> fst (TryOnce o' k ttl now) \<longleftrightarrow> map_view o' now k = None"
  using LoadOrStore_result [of o' k "()" ttl now]
  by (auto simp: TryOnce_def split: prod.splits option.splits)

text \<open>
  A recorded key is remembered for its lifetime, through as many uses as the recorder's ceiling, of other keys
  at any time and of this one before its end.
\<close>

lemma once_remembers:
  assumes "one_home o'" "0 < now" "0 < ttl" "t < now + ttl" "fst (TryOnce o' k ttl now)"
    and "\<forall>(k', _, t') \<in> set us. k' = k \<longrightarrow> t' < now + ttl" "int (length us) \<le> max_entries o'"
  shows "\<not> fst (TryOnce (once_all (snd (TryOnce o' k ttl now)) us) k ttl' t)"
proof -
  define o1 where "o1 = snd (TryOnce o' k ttl now)"
  define e where "e = \<lparr>entry_value = (), expires = now + ttl\<rparr>"
  have m: "map_view o' now k = None" using assms(1,5) TryOnce_fresh by simp
  obtain m' where m': "m' = o' \<or> m' = o'\<lparr>prev := fmdrop k (prev o')\<rparr>"
    and eq: "LoadOrStore o' k () ttl now = (((), False), storeLocked m' k () ttl now)"
    using LoadOrStore_miss [OF assms(1) m] by blast
  have "o1 = storeLocked m' k () ttl now" by (simp add: o1_def TryOnce_def eq)
  then have "fmlookup (cur o1) k = Some e" "max_entries o1 = max_entries o'"
    using m' assms(3) by (auto simp: storeLocked_def Let_def e_def)
  then have safe: "safe_for o1 k e (int (length us))" using assms(7) by (simp add: safe_for_def)
  have "\<forall>(k', _, t') \<in> set us. k' = k \<longrightarrow> live e t'" using assms(6) by (auto simp: live_def e_def)
  then have "held (once_all o1 us) k = Some e" using safe by (rule once_all_safe)
  then have "map_view (once_all o1 us) t k = Some ()" using assms(4) by (simp add: map_view_def e_def live_def)
  moreover have "one_home (once_all o1 us)" using assms(1) by (simp add: o1_def inv_intros)
  ultimately show ?thesis using TryOnce_fresh by (simp add: o1_def)
qed

text \<open>
  A credential cannot be replayed: once a key has been accepted with a positive lifetime, every
  further use of it before that lifetime ends is refused, even after up to as many uses of other keys
  as the recorder's ceiling.
\<close>

theorem replay_refused:
  assumes "one_home o'" "0 < now" "0 < ttl" "t < now + ttl" "fst (TryOnce o' k ttl now)"
    and "\<forall>u \<in> set us. fst u \<noteq> k" "int (length us) \<le> max_entries o'"
  shows "\<not> fst (TryOnce (once_all (snd (TryOnce o' k ttl now)) us) k ttl' t)"
  by (rule once_remembers [OF assms(1-5) _ assms(7)]) (use assms(6) in force)

lemma NewMemOnce_fresh: "one_home NewMemOnce" "map_view NewMemOnce now k = None"
  unfolding NewMemOnce_def by (rule New_one_home, simp add: map_view_def held_def New_map_def)

theorem replay_refused_witness:
  "\<not> fst (TryOnce (once_all (snd (TryOnce NewMemOnce ''jti'' 60 1)) [(''other'', 60, 2)]) ''jti'' 60 3)"
  using replay_refused [OF NewMemOnce_fresh(1), of 1 60 3 "''jti''" "[(''other'', 60, 2)]" 60]
    TryOnce_fresh [OF NewMemOnce_fresh(1)] NewMemOnce_fresh(2)
  by (simp add: NewMemOnce_def New_map_def maxOnceRecords_def)

end
