(* ===== verification/Upstream_Guard.thy ===== *)
theory Upstream_Guard
  imports Tenancy Breaker
begin

section \<open>The guards around an upstream request (src/gateway/upstream.go)\<close>

text \<open>
  \<open>guardedDo\<close> is the one place a request leaves the gateway: rate limit, circuit breaker, session,
  budgets, the request itself, and the report to the breaker. The state it threads is the upstream's
  limiter, breaker and failure flag, the counters of the heap (the upstream's, the tenant's and the
  server's budget are cells of it), and the request's meter. What the session and the request answer
  is an argument; so is the clock, one reading per guard. A call of the limiter is a partial
  operation, so \<open>guardedDo\<close> is one too (\<open>None\<close> would be not returning).
\<close>

datatype 'r call_result = CallOk 'r | CallWire int string | CallTransport string

record guard_state =
  g_limiter :: "Limiter option"
  g_breaker :: "Breaker option"
  g_hadFailure :: bool
  g_lastState :: State
  g_heap :: gw_heap
  g_calls :: nat

record upstreamCfg =
  u_ID :: string
  u_budget :: nat
  u_globalBudget :: "nat option"

record readings =
  at_limiter :: time
  at_breaker :: time
  at_budget :: time
  at_report :: time

subsection \<open>Budgets\<close>

definition Add_heap :: "gw_heap \<Rightarrow> nat \<Rightarrow> time \<Rightarrow> BudgetResult \<times> gw_heap" where
  "Add_heap h k now =
     (let (r, b) = Add_budget (h_budgets h ! k) 1 now in (r, h\<lparr>h_budgets := (h_budgets h)[k := b]\<rparr>))"

definition budgetError :: "string \<Rightarrow> BudgetResult \<Rightarrow> wire_error" where
  "budgetError scope r = BudgetExhausted scope r"

definition charge_server :: "upstreamCfg \<Rightarrow> gw_heap \<Rightarrow> time \<Rightarrow> wire_error option \<times> gw_heap" where
  "charge_server u h now =
     (case u_globalBudget u of None \<Rightarrow> (None, h)
      | Some k \<Rightarrow>
          (case Add_heap h k now of (r, h') \<Rightarrow>
             if \<not> br_Allowed r then (Some (budgetError ''server'' r), h') else (None, h')))"

definition chargeBudgets ::
  "upstreamCfg \<Rightarrow> tenant option \<Rightarrow> gw_heap \<Rightarrow> time \<Rightarrow> wire_error option \<times> gw_heap" where
  "chargeBudgets u ot h now =
     (case Add_heap h (u_budget u) now of (r, h1) \<Rightarrow>
        if \<not> br_Allowed r then (Some (budgetError (''upstream '' @ u_ID u) r), h1)
        else (case ot of
                None \<Rightarrow> charge_server u h1 now
              | Some t \<Rightarrow>
                  (case Add_heap h1 (t_budget t) now of (r2, h2) \<Rightarrow>
                     if \<not> br_Allowed r2 then (Some (budgetError (''tenant '' @ tenant_id ot) r2), h2)
                     else charge_server u h2 now)))"

subsection \<open>The breaker's report\<close>

definition recordBreaker :: "guard_state \<Rightarrow> bool \<Rightarrow> time \<Rightarrow> guard_state" where
  "recordBreaker g success now =
     (let g1 = g\<lparr>g_breaker := Record_nil (g_breaker g) success now\<rparr> in
      if success \<and> \<not> g_hadFailure g then g1
      else let g2 = (if \<not> success then g1\<lparr>g_hadFailure := True\<rparr> else g1\<lparr>g_hadFailure := False\<rparr>)
           in g2\<lparr>g_lastState := State_nil (g_breaker g1) now\<rparr>)"

subsection \<open>The guarded request\<close>

definition reach_upstream ::
  "upstreamCfg \<Rightarrow> 'r call_result \<Rightarrow> readings \<Rightarrow> guard_state \<Rightarrow> (wire_error + 'r) \<times> guard_state" where
  "reach_upstream u fn c g =
     (let g1 = g\<lparr>g_calls := g_calls g + 1\<rparr> in
      case fn of
        CallOk r \<Rightarrow> (Inr r, recordBreaker g1 True (at_report c))
      | CallWire cd msg \<Rightarrow> (Inl (FromUpstream cd msg), recordBreaker g1 True (at_report c))
      | CallTransport msg \<Rightarrow> (Inl (RequestFailed (u_ID u)), recordBreaker g1 False (at_report c)))"

definition guardedDo ::
  "bool \<Rightarrow> upstreamCfg \<Rightarrow> tenant option \<Rightarrow> bool \<Rightarrow> 'r call_result \<Rightarrow> readings \<Rightarrow> guard_state
     \<Rightarrow> ((wire_error + 'r) \<times> guard_state) option" where
  "guardedDo fma u ot acquired fn c g =
     (case Allow_limiter_nil fma (g_limiter g) (at_limiter c) of
        None \<Rightarrow> None
      | Some (ok, retry, l') \<Rightarrow>
          let g1 = g\<lparr>g_limiter := l'\<rparr> in
          if \<not> ok then Some (Inl (RateLimited (u_ID u) retry), g1)
          else
            (case Allow_nil (g_breaker g1) (at_breaker c) of (pass, b') \<Rightarrow>
               let g2 = g1\<lparr>g_breaker := b'\<rparr> in
               if \<not> pass then Some (Inl (CircuitOpen (u_ID u)), g2)
               else if \<not> acquired
               then Some (Inl (ConnectFailed (u_ID u)),
                          g2\<lparr>g_breaker := Record_nil (g_breaker g2) False (at_report c)\<rparr>)
               else
                 (case chargeBudgets u ot (g_heap g2) (at_budget c) of (err, h') \<Rightarrow>
                    let g3 = g2\<lparr>g_heap := h'\<rparr> in
                    case err of
                      Some e \<Rightarrow> Some (Inl e, g3)
                    | None \<Rightarrow> Some (reach_upstream u fn c g3))))"

subsection \<open>Who is charged\<close>

lemma reach_state [simp]:
  "g_calls (snd (reach_upstream u fn c g)) = g_calls g + 1" "g_heap (snd (reach_upstream u fn c g)) = g_heap g"
  by (simp_all add: reach_upstream_def recordBreaker_def Let_def split: call_result.split)

text \<open>The five ways a guarded request can end.\<close>

lemma guardedDo_cases:
  assumes "guardedDo fma u ot acquired fn c g = Some (res, g')"
  obtains (limited) retry l' where
      "Allow_limiter_nil fma (g_limiter g) (at_limiter c) = Some (False, retry, l')"
      "res = Inl (RateLimited (u_ID u) retry)" "g' = g\<lparr>g_limiter := l'\<rparr>"
  | (circuit) retry l' b' where
      "Allow_limiter_nil fma (g_limiter g) (at_limiter c) = Some (True, retry, l')"
      "Allow_nil (g_breaker g) (at_breaker c) = (False, b')"
      "res = Inl (CircuitOpen (u_ID u))" "g' = g\<lparr>g_limiter := l', g_breaker := b'\<rparr>"
  | (unconnected) retry l' b' where
      "Allow_limiter_nil fma (g_limiter g) (at_limiter c) = Some (True, retry, l')"
      "Allow_nil (g_breaker g) (at_breaker c) = (True, b')" "\<not> acquired"
      "res = Inl (ConnectFailed (u_ID u))"
      "g' = g\<lparr>g_limiter := l', g_breaker := Record_nil b' False (at_report c)\<rparr>"
  | (unbudgeted) retry l' b' e h' where
      "Allow_limiter_nil fma (g_limiter g) (at_limiter c) = Some (True, retry, l')"
      "Allow_nil (g_breaker g) (at_breaker c) = (True, b')" acquired
      "chargeBudgets u ot (g_heap g) (at_budget c) = (Some e, h')"
      "res = Inl e" "g' = g\<lparr>g_limiter := l', g_breaker := b', g_heap := h'\<rparr>"
  | (made) retry l' b' h' where
      "Allow_limiter_nil fma (g_limiter g) (at_limiter c) = Some (True, retry, l')"
      "Allow_nil (g_breaker g) (at_breaker c) = (True, b')" acquired
      "chargeBudgets u ot (g_heap g) (at_budget c) = (None, h')"
      "(res, g') = reach_upstream u fn c (g\<lparr>g_limiter := l', g_breaker := b', g_heap := h'\<rparr>)"
proof -
  obtain ok retry l' where l: "Allow_limiter_nil fma (g_limiter g) (at_limiter c) = Some (ok, retry, l')"
    using assms by (auto simp: guardedDo_def split: option.splits)
  obtain pass b' where b: "Allow_nil (g_breaker g) (at_breaker c) = (pass, b')" by force
  obtain err h' where ch: "chargeBudgets u ot (g_heap g) (at_budget c) = (err, h')" by force
  show thesis
  proof (cases ok)
    case False
    then show ?thesis using assms l limited by (simp add: guardedDo_def)
  next
    case ok: True
    show ?thesis
    proof (cases pass)
      case False
      then show ?thesis using assms l b ok circuit by (simp add: guardedDo_def)
    next
      case pass: True
      show ?thesis
      proof (cases acquired)
        case False
        then show ?thesis using assms l b ok pass unconnected by (simp add: guardedDo_def)
      next
        case True
        then show ?thesis
          using assms l b ok pass ch unbudgeted made by (cases err) (simp_all add: guardedDo_def)
      qed
    qed
  qed
qed




subsection \<open>A budget refusal during the probe\<close>

fun guarded_run ::
  "bool \<Rightarrow> upstreamCfg \<Rightarrow> (tenant option \<times> bool \<times> 'r call_result \<times> readings) list \<Rightarrow> guard_state
     \<Rightarrow> ((wire_error + 'r) list \<times> guard_state) option" where
  "guarded_run fma u [] g = Some ([], g)"
| "guarded_run fma u ((ot, acquired, fn, c) # reqs) g =
     (case guardedDo fma u ot acquired fn c g of
        None \<Rightarrow> None
      | Some (res, g') \<Rightarrow> map_option (\<lambda>(rs, g''). (res # rs, g'')) (guarded_run fma u reqs g'))"

definition probe_pending :: "guard_state \<Rightarrow> bool" where
  "probe_pending g \<longleftrightarrow> g_limiter g = None \<and> (\<exists>b. g_breaker g = Some b \<and> state b = HalfOpen \<and> probing b)"

lemma guardedDo_pending:
  "probe_pending g \<Longrightarrow> guardedDo fma u ot acquired fn c g = Some (Inl (CircuitOpen (u_ID u)), g)"
  by (auto simp: probe_pending_def guardedDo_def Allow_limiter_nil_def Allow_nil_def Allow_breaker_def)

lemma guarded_run_pending:
  "probe_pending g \<Longrightarrow> guarded_run fma u reqs g = Some (replicate (length reqs) (Inl (CircuitOpen (u_ID u))), g)"
  by (induction fma u reqs g rule: guarded_run.induct) (simp_all add: guardedDo_pending)

text \<open>
  C29. A budget refusal can lock an upstream out: if the request the breaker admits as its probe after
  the cool-down is then refused by a budget, no outcome is ever reported for it, and every further
  request is answered as circuit open, whatever the clock, the caller, the budgets and the upstream
  do, since none of them gets far enough to report one.
\<close>

theorem budget_refusal_wedges_breaker:
  assumes "g_limiter g = None" "g_breaker g = Some b" "state b = Open"
    and "halfOpenAfter b \<le> time_sub (at_breaker c) (openedAt b)"
    and "guardedDo fma u ot acquired fn c g = Some (Inl (BudgetExhausted scope r), g')"
  shows "guarded_run fma u reqs g' = Some (replicate (length reqs) (Inl (CircuitOpen (u_ID u))), g')"
proof (rule guarded_run_pending)
  have a: "Allow_nil (g_breaker g) (at_breaker c) = (True, Some (b\<lparr>state := HalfOpen, probing := True\<rparr>))"
    "Allow_limiter_nil fma (g_limiter g) (at_limiter c) = Some (True, 0, None)"
    using assms(1-4) by (simp_all add: Allow_nil_def Allow_breaker_def Allow_limiter_nil_def)
  from assms(5) show "probe_pending g'"
  proof (cases rule: guardedDo_cases)
    case (unbudgeted retry l' b' e h')
    then show ?thesis using a by (auto simp: probe_pending_def)
  next
    case (made retry l' b' h')
    then show ?thesis by (simp add: reach_upstream_def Let_def split: call_result.splits)
  qed auto
qed

definition spent_budget :: Budget where
  "spent_budget = MemBudget \<lparr>mb_period = ''day'', mb_limit = 1, mb_windowEnd = 100, mb_used = 1\<rparr>"

definition unspent_budget :: Budget where
  "unspent_budget = MemBudget \<lparr>mb_period = ''day'', mb_limit = 5, mb_windowEnd = 100, mb_used = 1\<rparr>"

definition tripped :: guard_state where
  "tripped = \<lparr>g_limiter = None,
     g_breaker = Some \<lparr>failureThreshold = 1, halfOpenAfter = 5, state = Open, failures = 1, openedAt = 1, probing = False\<rparr>,
     g_hadFailure = True, g_lastState = Open,
     g_heap = \<lparr>h_budgets = [spent_budget, unspent_budget], h_limiters = []\<rparr>, g_calls = 0\<rparr>"

theorem budget_refusal_wedges_breaker_witness:
  "\<exists>scope r g'. guardedDo True \<lparr>u_ID = ''a'', u_budget = 0, u_globalBudget = None\<rparr> None True (CallOk ())
       \<lparr>at_limiter = 9, at_breaker = 9, at_budget = 9, at_report = 9\<rparr> tripped
       = Some (Inl (BudgetExhausted scope r), g') \<and>
     guarded_run True \<lparr>u_ID = ''a'', u_budget = 0, u_globalBudget = None\<rparr>
       [(None, True, CallOk (), \<lparr>at_limiter = 200, at_breaker = 200, at_budget = 200, at_report = 200\<rparr>)] g'
       = Some ([Inl (CircuitOpen ''a'')], g')"
proof -
  let ?u = "\<lparr>u_ID = ''a'', u_budget = 0, u_globalBudget = None\<rparr>"
  let ?c = "\<lparr>at_limiter = 9, at_breaker = 9, at_budget = 9, at_report = 9\<rparr>"
  have "\<exists>scope r g'. guardedDo True ?u None True (CallOk ()) ?c tripped = Some (Inl (BudgetExhausted scope r), g')"
    by (simp add: guardedDo_def tripped_def Allow_limiter_nil_def Allow_nil_def Allow_breaker_def time_sub_def
        min_int64_def max_int64_def chargeBudgets_def Add_heap_def Add_budget_def Add_mem_def roll_def
        spent_budget_def wrap64_def Let_def budgetError_def)
  then obtain scope r g' where g: "guardedDo True ?u None True (CallOk ()) ?c tripped = Some (Inl (BudgetExhausted scope r), g')"
    by blast
  have "g_limiter tripped = None"
    "g_breaker tripped = Some \<lparr>failureThreshold = 1, halfOpenAfter = 5, state = Open, failures = 1, openedAt = 1, probing = False\<rparr>"
    by (simp_all add: tripped_def)
  note w = budget_refusal_wedges_breaker [OF this _ _ g]
  have "guarded_run True ?u [(None, True, CallOk (), \<lparr>at_limiter = 200, at_breaker = 200, at_budget = 200, at_report = 200\<rparr>)] g'
      = Some (replicate 1 (Inl (CircuitOpen ''a'')), g')"
    using w [of "[(None, True, CallOk (), \<lparr>at_limiter = 200, at_breaker = 200, at_budget = 200, at_report = 200\<rparr>)]"]
    by (simp add: time_sub_def min_int64_def max_int64_def)
  then show ?thesis using g by auto
qed

subsection \<open>A wider refusal has spent the narrower budget\<close>

lemma Add_heap_nth:
  "k < length (h_budgets h) \<Longrightarrow> Add_heap h k now = (r, h') \<Longrightarrow>
   h_budgets h' ! j = (if j = k then snd (Add_budget (h_budgets h ! k) 1 now) else h_budgets h ! j) \<and>
   r = fst (Add_budget (h_budgets h ! k) 1 now)"
  by (auto simp: Add_heap_def Let_def nth_list_update split: prod.splits)

text \<open>
  Being refused by one allowance does spend another: when the upstream's own budget admits a
  request and the tenant's then refuses it, the request is answered as exhausted and the upstream's
  counter has gone up by one all the same.
\<close>

theorem refusal_spends_narrower:
  assumes "h_budgets h ! u_budget u = MemBudget m" "u_budget u < length (h_budgets h)"
    and "now < mb_windowEnd m" "mb_used m < mb_limit m" "0 \<le> mb_used m" "mb_limit m \<le> max_int64"
    and "t_budget t < length (h_budgets h)" "t_budget t \<noteq> u_budget u"
    and "\<not> br_Allowed (fst (Add_budget (h_budgets h ! t_budget t) 1 now))"
  shows "\<exists>r h'. chargeBudgets u (Some t) h now = (Some (BudgetExhausted (''tenant '' @ tc_ID (t_cfg t)) r), h') \<and>
     h_budgets h' ! u_budget u = MemBudget (m\<lparr>mb_used := mb_used m + 1\<rparr>)"
proof -
  have w: "wrap64 (mb_used m + 1) = mb_used m + 1"
    using assms(4-6) int64_bounds(1) by (intro wrap64_id) linarith+
  have add: "Add_budget (MemBudget m) 1 now =
      (\<lparr>br_Allowed = True, br_Used = mb_used m + 1, br_Limit = mb_limit m, br_Resets = mb_windowEnd m, br_Degraded = False\<rparr>,
       MemBudget (m\<lparr>mb_used := mb_used m + 1\<rparr>))"
    using assms(3,4) w by (simp add: Add_budget_def Add_mem_def roll_def Let_def)
  obtain r1 h1 where h1: "Add_heap h (u_budget u) now = (r1, h1)" by force
  note n1 = Add_heap_nth [OF assms(2) h1]
  have len: "length (h_budgets h1) = length (h_budgets h)" using h1 by (auto simp: Add_heap_def Let_def split: prod.splits)
  obtain r2 h2 where h2: "Add_heap h1 (t_budget t) now = (r2, h2)" by force
  have n2: "h_budgets h2 ! u_budget u = h_budgets h1 ! u_budget u" "\<not> br_Allowed r2"
    using Add_heap_nth [OF _ h2, of "u_budget u"] n1 [of "t_budget t"] assms(7-9) len by auto
  have "br_Allowed r1" using n1 assms(1) add by simp
  then show ?thesis
    using h1 h2 n2 n1 [of "u_budget u"] assms(1) add by (simp add: chargeBudgets_def budgetError_def tenant_id_def)
qed

theorem refusal_spends_narrower_witness:
  "\<exists>r h'. chargeBudgets \<lparr>u_ID = ''a'', u_budget = 1, u_globalBudget = None\<rparr> (Some (blank_tenant 0 acme))
       \<lparr>h_budgets = [spent_budget, unspent_budget], h_limiters = []\<rparr> 9
       = (Some (BudgetExhausted ''tenant acme'' r), h') \<and>
     h_budgets h' ! 1 = MemBudget \<lparr>mb_period = ''day'', mb_limit = 5, mb_windowEnd = 100, mb_used = 2\<rparr>"
  using refusal_spends_narrower [of "\<lparr>h_budgets = [spent_budget, unspent_budget], h_limiters = []\<rparr>"
      "\<lparr>u_ID = ''a'', u_budget = 1, u_globalBudget = None\<rparr>"
      "\<lparr>mb_period = ''day'', mb_limit = 5, mb_windowEnd = 100, mb_used = 1\<rparr>" 9 "blank_tenant 0 acme"]
  by (simp add: unspent_budget_def spent_budget_def Add_budget_def Add_mem_def roll_def wrap64_def
      max_int64_def blank_tenant_def acme_def Let_def)

end
