(* ===== verification/Decision_Hook.thy ===== *)
theory Decision_Hook
  imports Tenancy Json_Text
begin

section \<open>The audit event and the external decision hook\<close>

text \<open>
  The record every request leaves behind (src/audit/audit.go, \<open>Event\<close>) and the hook that may refuse an
  invocation (src/gateway/hook.go). The decision endpoint is a service: what it answers to a request
  is the argument \<open>endpoint\<close>, either nothing within the bound or a status and, if the body parses, a
  decision and a reason. The bytes a result marshals to are an argument where they are inspected, \<open>None\<close> if
  marshalling fails.

  The theorem says exactly when an inspected invocation proceeds, and that the event tells an
  uninspected pass from an inspected one.
\<close>

record Event =
  e_Principal :: string
  e_Issuer :: string
  e_Method :: string
  e_Name :: string
  e_Upstream :: string
  e_Direction :: string
  e_Tenant :: string
  e_Decision :: string
  e_RuleID :: string
  e_MissingScopes :: "string list"
  e_Outcome :: Outcome
  e_Error :: "wire_error option"
  e_UpstreamCalls :: nat
  e_ItemsServed :: nat
  e_ItemsCapped :: int
  e_HookOutcome :: string
  e_Usage :: "json_map option"

definition new_event :: "string \<Rightarrow> Event" where
  "new_event mth =
     \<lparr>e_Principal = '''', e_Issuer = '''', e_Method = mth, e_Name = '''', e_Upstream = '''', e_Direction = '''',
      e_Tenant = '''', e_Decision = '''', e_RuleID = '''', e_MissingScopes = [], e_Outcome = OutcomeNone,
      e_Error = None, e_UpstreamCalls = 0, e_ItemsServed = 0, e_ItemsCapped = 0, e_HookOutcome = '''',
      e_Usage = None\<rparr>"

subsection \<open>The hook\<close>

definition hookWireVersion :: string where "hookWireVersion = ''1''"
definition hookMaxResultBytes :: nat where "hookMaxResultBytes = 1048576"
definition stageIngress :: string where "stageIngress = ''ingress''"
definition stageEgress :: string where "stageEgress = ''egress''"
definition stageServerInitiated :: string where "stageServerInitiated = ''serverInitiated''"

record HookCfg =
  hk_URL :: string
  hk_TimeoutMs :: int
  hk_OnError :: string
  hk_Stages :: "string list"
  hk_Methods :: "string list"
  hk_Headers :: "(string \<times> string) list"
  hk_BearerSecretRef :: string

record decisionHook =
  h_url :: string
  h_headers :: "(string \<times> string) list"
  h_bearer :: string
  h_failOpen :: bool
  h_stages :: "string set"
  h_methods :: "string set"
  h_timeout :: duration

definition newDecisionHook :: "(string \<Rightarrow> string) \<Rightarrow> HookCfg option \<Rightarrow> decisionHook option" where
  "newDecisionHook getenv cfg =
     (case cfg of
        None \<Rightarrow> None
      | Some c \<Rightarrow> Some \<lparr>
          h_url = hk_URL c, h_headers = hk_Headers c,
          h_bearer = (if hk_BearerSecretRef c \<noteq> '''' then getenv (hk_BearerSecretRef c) else ''''),
          h_failOpen = (hk_OnError c = ''allow''),
          h_stages = set (hk_Stages c), h_methods = set (hk_Methods c),
          h_timeout = wrap64 (hk_TimeoutMs c * 1000000)\<rparr>)"

definition inspects :: "decisionHook option \<Rightarrow> string \<Rightarrow> string \<Rightarrow> bool" where
  "inspects oh stage mth =
     (case oh of
        None \<Rightarrow> False
      | Some h \<Rightarrow> if stage \<notin> h_stages h then False else h_methods h = {} \<or> mth \<in> h_methods h)"

record hookPrincipal =
  hp_Sub :: string
  hp_Issuer :: string
  hp_Groups :: "string list"

record hookRequest =
  hr_Version :: string
  hr_Stage :: string
  hr_Method :: string
  hr_Name :: string
  hr_Upstream :: string
  hr_Principal :: "hookPrincipal option"
  hr_Tenant :: string
  hr_Arguments :: string
  hr_Result :: string

datatype hookReply = NoAnswer | Answer int "(string \<times> string) option"

datatype hookOutcome = hookAllowed | hookDenied | hookErrored

fun outcome_text :: "hookOutcome \<Rightarrow> string" where
  "outcome_text hookAllowed = ''allow''"
| "outcome_text hookDenied = ''deny''"
| "outcome_text hookErrored = ''error''"

definition onError :: "decisionHook \<Rightarrow> hookOutcome" where
  "onError h = (if h_failOpen h then hookErrored else hookDenied)"

definition decide_hook :: "decisionHook \<Rightarrow> hookReply \<Rightarrow> hookOutcome \<times> string" where
  "decide_hook h reply =
     (case reply of
        NoAnswer \<Rightarrow> (onError h, '''')
      | Answer status body \<Rightarrow>
          if status < 200 \<or> 299 < status then (onError h, '''')
          else (case body of
                  None \<Rightarrow> (onError h, '''')
                | Some (decision, reason) \<Rightarrow>
                    if decision = ''allow'' then (hookAllowed, '''')
                    else if decision = ''deny'' then (hookDenied, reason)
                    else (onError h, '''')))"

definition hook_principal :: "Principal option \<Rightarrow> hookPrincipal option" where
  "hook_principal op = map_option (\<lambda>p. \<lparr>hp_Sub = p_Subject p, hp_Issuer = p_Issuer p, hp_Groups = p_Groups p\<rparr>) op"

definition hookIngress ::
  "decisionHook option \<Rightarrow> (hookRequest \<Rightarrow> hookReply) \<Rightarrow> Principal option \<Rightarrow> Event \<Rightarrow> string \<Rightarrow> string \<Rightarrow> string \<Rightarrow> string
     \<Rightarrow> wire_error option \<times> Event" where
  "hookIngress oh endpoint op evt upID mth bare args =
     (if \<not> inspects oh stageIngress mth then (None, evt)
      else let h = the oh;
               req = \<lparr>hr_Version = hookWireVersion, hr_Stage = stageIngress, hr_Method = mth, hr_Name = bare,
                      hr_Upstream = upID, hr_Principal = hook_principal op, hr_Tenant = e_Tenant evt,
                      hr_Arguments = args, hr_Result = ''''\<rparr>
           in case decide_hook h (endpoint req) of (outcome, reason) \<Rightarrow>
                let evt1 = evt\<lparr>e_HookOutcome := outcome_text outcome\<rparr> in
                if outcome = hookDenied
                then (Some (HookDenied stageIngress mth (e_Name evt1) reason),
                      evt1\<lparr>e_Outcome := OutcomeHookDenied, e_Decision := ''deny''\<rparr>)
                else (None, evt1))"

definition hookServerInitiated ::
  "decisionHook option \<Rightarrow> (hookRequest \<Rightarrow> hookReply) \<Rightarrow> Principal option \<Rightarrow> Event \<Rightarrow> string \<Rightarrow> string \<Rightarrow> string option
     \<Rightarrow> wire_error option \<times> Event" where
  "hookServerInitiated oh endpoint op evt upID mth body =
     (if \<not> inspects oh stageServerInitiated mth then (None, evt)
      else let h = the oh;
               req = (\<lambda>args. \<lparr>hr_Version = hookWireVersion, hr_Stage = stageServerInitiated, hr_Method = mth,
                      hr_Name = '''', hr_Upstream = upID, hr_Principal = hook_principal op,
                      hr_Tenant = e_Tenant evt, hr_Arguments = args, hr_Result = ''''\<rparr>)
           in case (case body of
                      None \<Rightarrow> (onError h, '''')
                    | Some b \<Rightarrow> if hookMaxResultBytes < length b then (onError h, '''')
                               else decide_hook h (endpoint (req b))) of (outcome, reason) \<Rightarrow>
                let evt1 = evt\<lparr>e_HookOutcome := outcome_text outcome\<rparr> in
                if outcome = hookDenied
                then (Some (HookDenied stageServerInitiated mth '''' reason),
                      evt1\<lparr>e_Outcome := OutcomeHookDenied, e_Decision := ''deny''\<rparr>)
                else (None, evt1))"

definition hookEgress ::
  "decisionHook option \<Rightarrow> (hookRequest \<Rightarrow> hookReply) \<Rightarrow> Principal option \<Rightarrow> Event \<Rightarrow> string \<Rightarrow> string \<Rightarrow> string \<Rightarrow> string option
     \<Rightarrow> wire_error option \<times> Event" where
  "hookEgress oh endpoint op evt upID mth bare body =
     (if \<not> inspects oh stageEgress mth then (None, evt)
      else let h = the oh;
               req = (\<lambda>result. \<lparr>hr_Version = hookWireVersion, hr_Stage = stageEgress, hr_Method = mth,
                      hr_Name = bare, hr_Upstream = upID, hr_Principal = hook_principal op,
                      hr_Tenant = e_Tenant evt, hr_Arguments = '''', hr_Result = result\<rparr>)
           in case (case body of
                      None \<Rightarrow> (onError h, '''')
                    | Some b \<Rightarrow> if hookMaxResultBytes < length b then (onError h, '''')
                               else decide_hook h (endpoint (req b))) of (outcome, reason) \<Rightarrow>
                let evt1 = (if e_HookOutcome evt = '''' \<or> outcome \<noteq> hookAllowed
                            then evt\<lparr>e_HookOutcome := outcome_text outcome\<rparr> else evt) in
                if outcome = hookDenied
                then (Some (HookDenied stageEgress mth (e_Name evt1) reason),
                      evt1\<lparr>e_Outcome := OutcomeHookDenied, e_Decision := ''deny''\<rparr>)
                else (None, evt1))"

subsection \<open>When an inspected invocation proceeds\<close>

definition answered :: "string \<Rightarrow> hookReply \<Rightarrow> bool" where
  "answered decision reply =
     (case reply of NoAnswer \<Rightarrow> False
      | Answer status body \<Rightarrow> 200 \<le> status \<and> status \<le> 299 \<and> (case body of None \<Rightarrow> False | Some (d, _) \<Rightarrow> d = decision))"

lemma decide_hook_cases:
  "fst (decide_hook h reply) =
     (if answered ''allow'' reply then hookAllowed
      else if answered ''deny'' reply then hookDenied else onError h)"
  by (cases reply) (auto simp: decide_hook_def answered_def split: option.splits)

definition strict_hook :: HookCfg where
  "strict_hook =
     \<lparr>hk_URL = ''https://hook'', hk_TimeoutMs = 100, hk_OnError = ''deny'', hk_Stages = [''ingress''],
      hk_Methods = [], hk_Headers = [], hk_BearerSecretRef = ''''\<rparr>"

text \<open>
  The hook decides or the configured posture does: an inspected invocation proceeds exactly when
  the endpoint, shown this method, name, upstream, tenant and these arguments, answered "allow" with
  a 2xx status, or when the configuration says to fail open and the endpoint did not answer "deny". A call that
  proceeded uninspected is recorded as "error" and no other is; a refused one carries the denial code
  and is recorded as denied by the hook.
\<close>

theorem hook_gate:
  assumes "inspects (newDecisionHook getenv (Some c)) stageIngress mth"
    and "hookIngress (newDecisionHook getenv (Some c)) endpoint op evt upID mth bare args = (err, evt')"
  shows "\<exists>req. hr_Stage req = stageIngress \<and> hr_Method req = mth \<and> hr_Name req = bare \<and> hr_Upstream req = upID \<and>
     hr_Tenant req = e_Tenant evt \<and> hr_Arguments req = args \<and>
     (err = None \<longleftrightarrow> answered ''allow'' (endpoint req) \<or>
        hk_OnError c = ''allow'' \<and> \<not> answered ''deny'' (endpoint req)) \<and>
     (err = None \<longrightarrow> e_HookOutcome evt' = (if answered ''allow'' (endpoint req) then ''allow'' else ''error'')) \<and>
     (\<forall>e. err = Some e \<longrightarrow> code e = codeDenied \<and> e_Outcome evt' = OutcomeHookDenied \<and> e_HookOutcome evt' = ''deny'')"
proof -
  define req where "req = \<lparr>hr_Version = hookWireVersion, hr_Stage = stageIngress, hr_Method = mth, hr_Name = bare,
    hr_Upstream = upID, hr_Principal = hook_principal op, hr_Tenant = e_Tenant evt, hr_Arguments = args, hr_Result = ''''\<rparr>"
  define h where "h = the (newDecisionHook getenv (Some c))"
  obtain outcome reason where d: "decide_hook h (endpoint req) = (outcome, reason)" by fastforce
  have o: "outcome = (if answered ''allow'' (endpoint req) then hookAllowed
      else if answered ''deny'' (endpoint req) then hookDenied else onError h)"
    using decide_hook_cases [of h "endpoint req"] d by simp
  have r: "(err, evt') = (let evt1 = evt\<lparr>e_HookOutcome := outcome_text outcome\<rparr> in
      if outcome = hookDenied then (Some (HookDenied stageIngress mth (e_Name evt1) reason),
        evt1\<lparr>e_Outcome := OutcomeHookDenied, e_Decision := ''deny''\<rparr>) else (None, evt1))"
    using assms d by (simp add: hookIngress_def req_def [symmetric] h_def [symmetric] Let_def)
  have f: "onError h = (if hk_OnError c = ''allow'' then hookErrored else hookDenied)"
    by (simp add: h_def onError_def newDecisionHook_def)
  have "\<not> (answered ''allow'' x \<and> answered ''deny'' x)" for x
    by (cases x) (auto simp: answered_def split: option.splits)
  then show ?thesis using r o f
    by (intro exI [of _ req]) (auto simp: req_def Let_def split: if_splits)
qed

theorem hook_gate_witness:
  "\<exists>err evt'. hookIngress (newDecisionHook (\<lambda>_. '''') (Some strict_hook)) (\<lambda>_. NoAnswer) None (new_event ''tools/call'')
      ''u'' ''tools/call'' ''t'' '''' = (Some err, evt') \<and> code err = codeDenied"
proof -
  have i: "inspects (newDecisionHook (\<lambda>_. '''') (Some strict_hook)) stageIngress ''tools/call''"
    by (simp add: inspects_def newDecisionHook_def strict_hook_def stageIngress_def)
  obtain err evt' where h: "hookIngress (newDecisionHook (\<lambda>_. '''') (Some strict_hook)) (\<lambda>_. NoAnswer) None
      (new_event ''tools/call'') ''u'' ''tools/call'' ''t'' '''' = (err, evt')" by fastforce
  have "err \<noteq> None" using hook_gate [OF i h] by (auto simp: answered_def strict_hook_def)
  then obtain e where "err = Some e" by auto
  with hook_gate [OF i h] h show ?thesis by blast
qed

end
