(* ===== verification/Fan_Out.thy ===== *)
theory Fan_Out
  imports Wire_Errors Tenancy
begin

section \<open>Fan-out over upstreams\<close>

text \<open>
  The concurrent call of every upstream and the degradation rule (src/gateway/router.go, \<open>fanOut\<close> and
  \<open>partialFailureMeta\<close>). What one upstream answers, through its guard, is an \<open>answer\<close>: a result, an
  error, or a panic of the worker, which the worker turns into that upstream failing. The workers share
  nothing, so their interleaving does not matter and the results are collected by index.
\<close>

datatype 'r answer = Answered 'r | Failed wire_error | Panicked

definition result_of :: "'r answer \<Rightarrow> 'r option" where
  "result_of a = (case a of Answered r \<Rightarrow> Some r | _ \<Rightarrow> None)"

definition fanOut :: "('u \<Rightarrow> string) \<Rightarrow> 'u list \<Rightarrow> ('u \<Rightarrow> 'r answer) \<Rightarrow> 'r option list \<times> string list" where
  "fanOut id_of ups fn =
     (map (\<lambda>u. result_of (fn u)) ups,
      sort (map id_of (filter (\<lambda>u. result_of (fn u) = None) ups)))"

definition metaPartialFailure :: string where
  "metaPartialFailure = ''run.fold/partialFailure''"

definition partialFailureMeta :: "string list \<Rightarrow> nat \<Rightarrow> wire_error + json_map option" where
  "partialFailureMeta failed n =
     (if length failed = 0 then Inr None
      else if length failed = n then Inl (AllUpstreamsDown failed)
      else Inr (Some (fmupd metaPartialFailure
             (JObj (fmupd ''failedUpstreams'' (JArr (map JStr failed)) fmempty)) fmempty)))"

lemma fanOut_all_failed:
  "partialFailureMeta (snd (fanOut id_of ups fn)) (length ups) = Inl e \<longleftrightarrow>
   ups \<noteq> [] \<and> (\<forall>u \<in> set ups. result_of (fn u) = None) \<and> e = AllUpstreamsDown (sort (map id_of ups))"
proof -
  have "length (filter P ups) = length ups \<longleftrightarrow> (\<forall>u \<in> set ups. P u)" for P
    by (metis filter_id_conv length_filter_less less_irrefl)
  moreover have "\<forall>u \<in> set ups. result_of (fn u) = None \<Longrightarrow> filter (\<lambda>u. result_of (fn u) = None) ups = ups"
    by (rule filter_True)
  ultimately show ?thesis
    by (auto simp: partialFailureMeta_def fanOut_def filter_empty_conv split: if_splits)
qed

end
