(* ===== verification/List_Shaping.thy ===== *)
theory List_Shaping
  imports Policy_Engine
begin

section \<open>Shaping of a merged list\<close>

text \<open>
  The filter that applies policy visibility and the per-rule caps to one merged list
  (src/gateway/shaping.go). The filter is a record threaded through the items in merge order; the
  map of counts that a nil check creates on first use is a total function here, absent names
  counting 0. \<open>finish\<close> returns what is recorded in the result's metadata and in the audit event; the
  metric is not modelled.

  The theorems show what the filter serves: exactly the prefix each cap admits, in order, with every
  item accounted for.
\<close>

record ToolHints =
  ReadOnlyHint :: bool
  DestructiveHint :: "bool option"

record listFilter =
  f_principal :: "Principal option"
  f_policy :: Engine
  f_method :: string
  f_admitted :: "string \<Rightarrow> int"
  f_offered :: int
  f_served :: int
  f_capped :: int

definition newListFilter :: "Principal option \<Rightarrow> Engine \<Rightarrow> string \<Rightarrow> listFilter" where
  "newListFilter p pol mth =
     \<lparr>f_principal = p, f_policy = pol, f_method = mth, f_admitted = (\<lambda>_. 0),
      f_offered = 0, f_served = 0, f_capped = 0\<rparr>"

definition decide_filter :: "listFilter \<Rightarrow> Decision \<Rightarrow> bool \<times> listFilter" where
  "decide_filter f0 d =
     (let f = f0\<lparr>f_offered := f_offered f0 + 1\<rparr> in
      if \<not> Allowed d then (False, f)
      else if 0 < MaxItems d
      then (if MaxItems d \<le> f_admitted f (RuleID d)
            then (False, f\<lparr>f_capped := f_capped f + 1\<rparr>)
            else (True, f\<lparr>f_admitted := (f_admitted f)(RuleID d := f_admitted f (RuleID d) + 1),
                          f_served := f_served f + 1\<rparr>))
      else (True, f\<lparr>f_served := f_served f + 1\<rparr>))"

definition visible :: "listFilter \<Rightarrow> string \<Rightarrow> string \<Rightarrow> bool \<times> listFilter" where
  "visible f upstreamID name =
     decide_filter f (Decide (f_policy f) (f_principal f) upstreamID (f_method f) name)"

text \<open>The annotations of a tool that is at hand; a nil tool has none.\<close>

definition toolAnnotations :: "ToolHints option option \<Rightarrow> ToolAnnotations option" where
  "toolAnnotations t =
     (case t of
        None \<Rightarrow> None
      | Some a \<Rightarrow>
          let anno = \<lparr>ReadOnly = False, Destructive = True\<rparr> in
          Some (case a of
                  None \<Rightarrow> anno
                | Some h \<Rightarrow>
                    (let anno = anno\<lparr>ReadOnly := ReadOnlyHint h\<rparr>
                     in case DestructiveHint h of None \<Rightarrow> anno | Some b \<Rightarrow> anno\<lparr>Destructive := b\<rparr>)))"

text \<open>A tool at list time: its name and its annotations, \<open>None\<close> when it has none.\<close>

definition visibleTool :: "listFilter \<Rightarrow> string \<Rightarrow> string \<Rightarrow> ToolHints option \<Rightarrow> bool \<times> listFilter" where
  "visibleTool f upstreamID name hints =
     (if \<not> NeedsAnnotations (f_policy f) then visible f upstreamID name
      else decide_filter f (DecideList (f_policy f) (f_principal f) upstreamID (f_method f) name
             (Some (toolAnnotations (Some hints)))))"

definition metaTruncated :: string where
  "metaTruncated = ''run.fold/truncated''"

text \<open>What \<open>finish\<close> records: \<open>ItemsCapped\<close> of the event, and the metadata of the result.\<close>

definition finish_filter :: "listFilter \<Rightarrow> json_map option \<Rightarrow> int \<times> json_map option" where
  "finish_filter f meta =
     (f_capped f,
      if f_capped f = 0 then meta
      else let m = (case meta of None \<Rightarrow> fmempty | Some m \<Rightarrow> m)
           in Some (fmupd metaTruncated
                (JObj (fmap_of_list [(''dropped'', JNum (of_int (f_capped f))), (''reason'', JStr ''policy maxItems'')])) m))"

subsection \<open>Shaping a list of decisions\<close>

text \<open>The loop of a list handler over the decisions on its items: which of them are served.\<close>

fun shape :: "listFilter \<Rightarrow> Decision list \<Rightarrow> bool list \<times> listFilter" where
  "shape f [] = ([], f)"
| "shape f (d # ds) = (case decide_filter f d of (b, f') \<Rightarrow> (case shape f' ds of (bs, f'') \<Rightarrow> (b # bs, f'')))"

text \<open>The items of a rule with a cap, among the decisions.\<close>

definition of_rule :: "string \<Rightarrow> Decision \<Rightarrow> bool" where
  "of_rule r d \<longleftrightarrow> Allowed d \<and> 0 < MaxItems d \<and> RuleID d = r"

text \<open>
  The reference: an item is served when the policy allows it and, if its rule has a cap, fewer
  items of that rule than the cap stand before it and are allowed.
\<close>

definition served_spec :: "Decision list \<Rightarrow> nat \<Rightarrow> bool" where
  "served_spec ds i \<longleftrightarrow>
     Allowed (ds ! i) \<and>
     (0 < MaxItems (ds ! i) \<longrightarrow> int (length (filter (of_rule (RuleID (ds ! i))) (take i ds))) < MaxItems (ds ! i))"

text \<open>A rule has one cap, so a decision's cap is a function of its rule.\<close>

definition caps_agree :: "Decision list \<Rightarrow> bool" where
  "caps_agree ds \<longleftrightarrow>
     (\<forall>d \<in> set ds. \<forall>e \<in> set ds. of_rule (RuleID d) d \<longrightarrow> of_rule (RuleID d) e \<longrightarrow> MaxItems d = MaxItems e)"

definition shape_inv :: "Decision list \<Rightarrow> nat \<Rightarrow> listFilter \<Rightarrow> bool" where
  "shape_inv ds k f \<longleftrightarrow>
     (\<forall>d \<in> set ds. of_rule (RuleID d) d \<longrightarrow>
        f_admitted f (RuleID d) = min (MaxItems d) (int (length (filter (of_rule (RuleID d)) (take k ds)))))"

lemma of_rule_self: "of_rule r d \<Longrightarrow> r = RuleID d"
  by (simp add: of_rule_def)

lemma shape_inv_step:
  assumes "caps_agree ds" "shape_inv ds k f" "k < length ds" "decide_filter f (ds ! k) = (b, f')"
  shows "shape_inv ds (Suc k) f' \<and> b = served_spec ds k"
proof -
  define d where "d = ds ! k"
  define n where "n = (\<lambda>r. int (length (filter (of_rule r) (take k ds))))"
  have d: "d \<in> set ds" using assms(3) by (simp add: d_def)
  have t: "take (Suc k) ds = take k ds @ [d]" using assms(3) by (simp add: d_def take_Suc_conv_app_nth)
  have n': "int (length (filter (of_rule r) (take (Suc k) ds))) = n r + (if of_rule r d then 1 else 0)" for r
    by (simp add: t n_def)
  have inv: "f_admitted f (RuleID e) = min (MaxItems e) (n (RuleID e))" if "e \<in> set ds" "of_rule (RuleID e) e" for e
    using assms(2) that by (simp add: shape_inv_def n_def)
  have same: "MaxItems e = MaxItems d" if "e \<in> set ds" "of_rule (RuleID e) e" "of_rule (RuleID e) d" for e
    using assms(1) d that of_rule_self [OF that(3)] unfolding caps_agree_def by metis
  show ?thesis
  proof (cases "of_rule (RuleID d) d")
    case False
    then have "\<not> of_rule r d" for r using of_rule_self by blast
    moreover have "f_admitted f' = f_admitted f" "b = Allowed d" "Allowed d \<Longrightarrow> \<not> 0 < MaxItems d"
      using False assms(4) by (auto simp: decide_filter_def d_def of_rule_def Let_def split: if_splits)
    ultimately show ?thesis
      using inv by (auto simp: shape_inv_def n' served_spec_def d_def [symmetric])
  next
    case True
    then have a: "Allowed d" "0 < MaxItems d" by (simp_all add: of_rule_def)
    have ad: "f_admitted f (RuleID d) = min (MaxItems d) (n (RuleID d))" by (rule inv [OF d True])
    have b: "b \<longleftrightarrow> n (RuleID d) < MaxItems d"
      and f': "f_admitted f' = (if b then (f_admitted f)(RuleID d := n (RuleID d) + 1) else f_admitted f)"
      using assms(4) a ad by (auto simp: decide_filter_def d_def [symmetric] Let_def split: if_splits)
    have "f_admitted f' (RuleID e) = min (MaxItems e) (n (RuleID e) + (if of_rule (RuleID e) d then 1 else 0))"
      if e: "e \<in> set ds" "of_rule (RuleID e) e" for e
    proof (cases "RuleID e = RuleID d")
      case True
      with e \<open>of_rule (RuleID d) d\<close> have "MaxItems e = MaxItems d" "of_rule (RuleID e) d" using same by simp_all
      with True b f' ad show ?thesis by auto
    next
      case False
      then have "\<not> of_rule (RuleID e) d" using of_rule_self by blast
      with False f' inv [OF e] show ?thesis by simp
    qed
    then have "shape_inv ds (Suc k) f'" by (simp add: shape_inv_def n')
    with a b show ?thesis by (simp add: served_spec_def d_def [symmetric] n_def)
  qed
qed

lemma shape_counts:
  "shape f ds = (bs, f') \<Longrightarrow> length bs = length ds \<and> f_offered f' = f_offered f + int (length ds) \<and>
     f_served f' = f_served f + int (length (filter id bs)) \<and>
     f_capped f' = f_capped f + int (length (filter Allowed ds)) - int (length (filter id bs))"
proof (induction ds arbitrary: f bs)
  case (Cons d ds)
  obtain b f1 where d: "decide_filter f d = (b, f1)" by fastforce
  obtain bs1 f2 where s: "shape f1 ds = (bs1, f2)" by fastforce
  have "f_offered f1 = f_offered f + 1" "f_served f1 = f_served f + (if b then 1 else 0)"
    "f_capped f1 = f_capped f + (if Allowed d \<and> \<not> b then 1 else 0)" "b \<Longrightarrow> Allowed d"
    using d by (auto simp: decide_filter_def Let_def split: if_splits)
  with Cons.IH [of f1 bs1] Cons.prems d s show ?case by auto
qed simp

lemma shape_from:
  assumes "caps_agree ds" "shape_inv ds k f" "k \<le> length ds" "shape f (drop k ds) = (bs, f')"
  shows "bs = map (served_spec ds) [k..<length ds]"
  using assms(2-4)
proof (induction "length ds - k" arbitrary: k f bs)
  case 0
  then show ?case by simp
next
  case (Suc m)
  then have k: "k < length ds" by simp
  obtain b f1 where d: "decide_filter f (ds ! k) = (b, f1)" by fastforce
  obtain bs1 f2 where s: "shape f1 (drop (Suc k) ds) = (bs1, f2)" by fastforce
  have "bs = b # bs1" "f2 = f'" using Suc.prems(3) d s k by (simp_all add: Cons_nth_drop_Suc [symmetric])
  moreover note step = shape_inv_step [OF assms(1) Suc.prems(1) k d]
  moreover have "bs1 = map (served_spec ds) [Suc k..<length ds]"
    using Suc.hyps(1) [of "Suc k" f1 bs1] Suc.hyps(2) step k s calculation(2) by simp
  ultimately show ?case using k by (simp add: upt_conv_Cons)
qed

definition capped_decision :: "string \<Rightarrow> int \<Rightarrow> Decision" where
  "capped_decision r n = \<lparr>Allowed = True, RuleID = r, MaxItems = n, FailedArg = '''', MissingScopes = []\<rparr>"

text \<open>
  C40. A cap is a bound per rule and nothing else: for any sequence of policy decisions in which a rule
  has one cap, an item is served exactly when the policy allows it and, if its rule is capped,
  fewer allowed items of that rule stand before it than the cap admits. Every item is
  accounted for: offered is the number of items, served the number let through, capped the number
  the policy allowed and a cap dropped.
\<close>

theorem shaping_serves_prefix_per_rule:
  assumes "caps_agree ds" "shape (newListFilter p pol mth) ds = (bs, f)"
  shows "bs = map (served_spec ds) [0..<length ds] \<and> f_offered f = int (length ds) \<and>
     f_served f = int (length (filter id bs)) \<and>
     f_served f + f_capped f = int (length (filter Allowed ds))"
proof -
  have "shape_inv ds 0 (newListFilter p pol mth)"
    by (auto simp: shape_inv_def newListFilter_def of_rule_def)
  then have "bs = map (served_spec ds) [0..<length ds]"
    using shape_from [OF assms(1), of 0 "newListFilter p pol mth" bs f] assms(2) by simp
  with shape_counts [OF assms(2)] show ?thesis by (simp add: newListFilter_def)
qed

definition three_items :: "Decision list" where
  "three_items = [capped_decision ''r'' 1, capped_decision ''s'' 0, capped_decision ''r'' 1]"

definition open_engine :: Engine where
  "open_engine = New_engine None"

theorem shaping_serves_prefix_per_rule_witness:
  "caps_agree three_items \<and>
   fst (shape (newListFilter None open_engine ''tools/call'') three_items) = map (served_spec three_items) [0, 1, 2]"
proof
  show c: "caps_agree three_items" by (simp add: caps_agree_def three_items_def capped_decision_def of_rule_def)
  show "fst (shape (newListFilter None open_engine ''tools/call'') three_items) = map (served_spec three_items) [0, 1, 2]"
    using shaping_serves_prefix_per_rule [OF c, of None open_engine "''tools/call''"]
    by (cases "shape (newListFilter None open_engine ''tools/call'') three_items")
      (simp add: three_items_def upt_rec numeral_2_eq_2)
qed

end
