(* ===== verification/Pagination.thy ===== *)
theory Pagination
  imports Policy_Engine Wire_Errors
begin

section \<open>Federated pagination\<close>

text \<open>
  Pages of a merged list (src/gateway/paginate.go). A cursor is an offset into the filtered snapshot,
  bound to the list family, to a fingerprint of the snapshot and to the caller, serialised as
  base64url over JSON.

  The digest (\<open>crypto/sha256\<close>) and the JSON text of a cursor (\<open>encoding/json\<close>) are the arguments
  \<open>sha256\<close>, \<open>marshal\<close> and \<open>unmarshal\<close>; base64 is defined here. What is assumed of the JSON functions,
  where it matters, is that a cursor this walk mints is read back. \<open>paginate\<close> returns \<open>None\<close> where the
  Go code panics: the upper end of the slice is a machine integer and may wrap below the lower one.

  The lemmas show that base64 round-trips, that following the cursors from the first page yields
  the whole snapshot in order and ends, and which cursors are refused.
\<close>

subsection \<open>Hexadecimal and base64url\<close>

definition hex_digit :: "nat \<Rightarrow> char" where
  "hex_digit n = (if n < 10 then char_of (48 + n) else char_of (87 + n))"

definition hex_encode :: "string \<Rightarrow> string" where
  "hex_encode s = concat (map (\<lambda>c. [hex_digit (of_char c div 16), hex_digit (of_char c mod 16)]) s)"

definition b64_char :: "nat \<Rightarrow> char" where
  "b64_char n =
     (if n < 26 then char_of (65 + n) else if n < 52 then char_of (71 + n)
      else if n < 62 then char_of (n - 4) else if n = 62 then CHR ''-'' else CHR ''_'')"

definition b64_value :: "char \<Rightarrow> nat option" where
  "b64_value c =
     (let n = of_char c in
      if 65 \<le> n \<and> n < 91 then Some (n - 65)
      else if 97 \<le> n \<and> n < 123 then Some (n - 71)
      else if 48 \<le> n \<and> n < 58 then Some (n + 4)
      else if c = CHR ''-'' then Some 62
      else if c = CHR ''_'' then Some 63
      else None)"

fun b64_encode :: "string \<Rightarrow> string" where
  "b64_encode [] = []"
| "b64_encode [a] = (let n = of_char a * 16 in [b64_char (n div 64), b64_char (n mod 64)])"
| "b64_encode [a, b] =
     (let n = (of_char a * 256 + of_char b) * 4
      in [b64_char (n div 4096), b64_char (n div 64 mod 64), b64_char (n mod 64)])"
| "b64_encode (a # b # c # s) =
     (let n = of_char a * 65536 + of_char b * 256 + of_char c
      in b64_char (n div 262144) # b64_char (n div 4096 mod 64) # b64_char (n div 64 mod 64)
         # b64_char (n mod 64) # b64_encode s)"

text \<open>The trailing bits of a last, partial group are ignored; line breaks are skipped before.\<close>

fun b64_groups :: "nat list \<Rightarrow> string option" where
  "b64_groups [] = Some []"
| "b64_groups [w] = None"
| "b64_groups [w, x] = Some [char_of ((w * 64 + x) div 16)]"
| "b64_groups [w, x, y] =
     (let n = (w * 4096 + x * 64 + y) div 4 in Some [char_of (n div 256), char_of (n mod 256)])"
| "b64_groups (w # x # y # z # s) =
     (let n = w * 262144 + x * 4096 + y * 64 + z
      in map_option (\<lambda>r. char_of (n div 65536) # char_of (n div 256 mod 256) # char_of (n mod 256) # r)
           (b64_groups s))"

definition b64_decode :: "string \<Rightarrow> string option" where
  "b64_decode s =
     (let vs = map b64_value (filter (\<lambda>c. c \<noteq> char_of (10::nat) \<and> c \<noteq> char_of (13::nat)) s)
      in if None \<in> set vs then None else b64_groups (map the vs))"

subsection \<open>Cursors\<close>

record listCursor =
  Kind :: string
  Offset :: int
  Gen :: string
  PrincipalTok :: string

definition nul :: char where
  "nul = char_of (0::nat)"

definition principalCursorKey :: "(string \<Rightarrow> string) \<Rightarrow> Principal option \<Rightarrow> string" where
  "principalCursorKey sha256 op =
     (let ident = (case op of None \<Rightarrow> '''' | Some p \<Rightarrow> p_Issuer p @ [nul] @ p_Subject p)
      in hex_encode (take 6 (sha256 ident)))"

definition snapshotGen :: "(string \<Rightarrow> string) \<Rightarrow> string \<Rightarrow> 'a list \<Rightarrow> ('a \<Rightarrow> string) \<Rightarrow> string" where
  "snapshotGen sha256 kind items name =
     hex_encode (take 6 (sha256 (foldl (\<lambda>h it. h @ [nul] @ name it) kind items)))"

definition encodeCursor :: "(listCursor \<Rightarrow> string) \<Rightarrow> listCursor \<Rightarrow> string" where
  "encodeCursor marshal c = b64_encode (marshal c)"

definition decodeCursor :: "(string \<Rightarrow> listCursor option) \<Rightarrow> string \<Rightarrow> listCursor option" where
  "decodeCursor unmarshal raw = (case b64_decode raw of None \<Rightarrow> None | Some data \<Rightarrow> unmarshal data)"

text \<open>The three library functions travel together.\<close>

record codec =
  sha256 :: "string \<Rightarrow> string"
  marshal :: "listCursor \<Rightarrow> string"
  unmarshal :: "string \<Rightarrow> listCursor option"

definition paginate ::
  "codec \<Rightarrow> 'a list \<Rightarrow> ('a \<Rightarrow> string) \<Rightarrow> string \<Rightarrow> string \<Rightarrow> int \<Rightarrow> Principal option
     \<Rightarrow> (wire_error + 'a list \<times> string) option" where
  "paginate cd items name kind rawCursor psize op =
     (if psize \<le> 0
      then (if rawCursor \<noteq> '''' then Some (Inl BadCursor) else Some (Inr (items, '''')))
      else if rawCursor = '''' \<and> int (length items) \<le> psize then Some (Inr (items, ''''))
      else
        let gen = snapshotGen (sha256 cd) kind items name;
            pkey = principalCursorKey (sha256 cd) op;
            offset = (if rawCursor = '''' then Inr 0
                      else (case decodeCursor (unmarshal cd) rawCursor of
                              None \<Rightarrow> Inl BadCursor
                            | Some c \<Rightarrow>
                                if Kind c \<noteq> kind \<or> Gen c \<noteq> gen \<or> PrincipalTok c \<noteq> pkey
                                   \<or> Offset c \<le> 0 \<or> int (length items) < Offset c
                                then Inl BadCursor else Inr (Offset c)))
        in case offset of
             Inl e \<Rightarrow> Some (Inl e)
           | Inr off \<Rightarrow>
               let hi = min (wrap64 (off + psize)) (int (length items)) in
               if hi < off then None
               else Some (Inr (take (nat (hi - off)) (drop (nat off) items),
                     if hi < int (length items)
                     then encodeCursor (marshal cd)
                            \<lparr>Kind = kind, Offset = hi, Gen = gen, PrincipalTok = pkey\<rparr>
                     else '''')))"

subsection \<open>Base64 round trip\<close>

lemma b64_value_char: "n < 64 \<Longrightarrow> b64_value (b64_char n) = Some n"
  by (auto simp: b64_value_def b64_char_def Let_def)

lemma b64_char_plain: "n < 64 \<Longrightarrow> b64_char n \<noteq> char_of (10::nat) \<and> b64_char n \<noteq> char_of (13::nat)"
proof -
  have "b64_value (char_of (10::nat)) = None" "b64_value (char_of (13::nat)) = None"
    by (simp_all add: b64_value_def char_of_def)
  moreover assume "n < 64"
  ultimately show ?thesis using b64_value_char [of n] by force
qed

lemma char_lt: "(of_char c :: nat) < 256"
  by simp

fun b64_nums :: "string \<Rightarrow> nat list" where
  "b64_nums [] = []"
| "b64_nums [a] = (let n = of_char a * 16 in [n div 64, n mod 64])"
| "b64_nums [a, b] =
     (let n = (of_char a * 256 + of_char b) * 4 in [n div 4096, n div 64 mod 64, n mod 64])"
| "b64_nums (a # b # c # s) =
     (let n = of_char a * 65536 + of_char b * 256 + of_char c
      in n div 262144 # n div 4096 mod 64 # n div 64 mod 64 # n mod 64 # b64_nums s)"

lemma b64_encode_nums: "b64_encode s = map b64_char (b64_nums s)"
  by (induction s rule: b64_encode.induct) (simp_all add: Let_def)

lemma shifted_lt:
  "x < 256 \<Longrightarrow> x * 16 div 64 < 64"
  "x < 256 \<Longrightarrow> y < 256 \<Longrightarrow> (x * 256 + y) * 4 div 4096 < 64"
  "x < 256 \<Longrightarrow> y < 256 \<Longrightarrow> z < 256 \<Longrightarrow> (x * 65536 + y * 256 + z) div 262144 < 64" for x y z :: nat
  by (rule less_mult_imp_div_less, simp)+

lemma b64_nums_lt: "n \<in> set (b64_nums s) \<Longrightarrow> n < 64"
proof (induction s rule: b64_nums.induct)
  case (2 a)
  then show ?case using shifted_lt(1) [OF char_lt [of a]] by (auto simp: Let_def simp del: div_mult_mult1_if)
next
  case (3 a b)
  then show ?case using shifted_lt(2) [OF char_lt [of a] char_lt [of b]] by (auto simp: Let_def)
next
  case (4 a b c s)
  then show ?case using shifted_lt(3) [OF char_lt [of a] char_lt [of b] char_lt [of c]]
    by (auto simp: Let_def)
qed simp

lemma base64_sum:
  "n = 64 * m1 + r0 \<Longrightarrow> m1 = 64 * m2 + r1 \<Longrightarrow> m2 = 64 * m3 + r2
     \<Longrightarrow> m3 * 262144 + r2 * 4096 + r1 * 64 + r0 = n" for n :: nat
  by simp

lemma digits64: "n div 262144 * 262144 + n div 4096 mod 64 * 4096 + n div 64 mod 64 * 64 + n mod 64 = n"
  for n :: nat
proof (rule base64_sum)
  show "n = 64 * (n div 64) + n mod 64" by simp
  have "n div 4096 = n div 64 div 64" by (simp add: div_mult2_eq [symmetric])
  then show "n div 64 = 64 * (n div 4096) + n div 64 mod 64" by simp
  have "n div 262144 = n div 4096 div 64" by (simp add: div_mult2_eq [symmetric])
  then show "n div 4096 = 64 * (n div 262144) + n div 4096 mod 64" by simp
qed

lemma digits256:
  fixes x y z :: nat
  assumes "y < 256" "z < 256"
  shows "(x * 65536 + y * 256 + z) div 65536 = x" "(x * 65536 + y * 256 + z) div 256 mod 256 = y"
    "(x * 65536 + y * 256 + z) mod 256 = z"
proof -
  have n: "x * 65536 + y * 256 + z = (x * 256 + y) * 256 + z" by simp
  have d: "(x * 65536 + y * 256 + z) div 256 = x * 256 + y" unfolding n using assms(2) by simp
  have "(x * 65536 + y * 256 + z) div 65536 = (x * 65536 + y * 256 + z) div 256 div 256"
    by (simp add: div_mult2_eq [symmetric])
  then show "(x * 65536 + y * 256 + z) div 65536 = x" using assms(1) by (simp add: d)
  show "(x * 65536 + y * 256 + z) div 256 mod 256 = y" using assms(1) by (simp add: d)
  show "(x * 65536 + y * 256 + z) mod 256 = z"
    unfolding n using assms(2) by (simp only: mod_mult_self3 mod_less)
qed

lemma b64_groups_nums: "b64_groups (b64_nums s) = Some s"
proof (induction s rule: b64_nums.induct)
  case (2 a)
  have "of_char a * 16 div 64 * 64 + of_char a * 16 mod 64 = (of_char a * 16 :: nat)"
    by (rule div_mult_mod_eq)
  then show ?case by (simp add: Let_def)
next
  case (3 a b)
  define n where "n = (of_char a * 256 + of_char b) * (4::nat)"
  have "n div 4096 < 64" using shifted_lt(2) [OF char_lt [of a] char_lt [of b]] by (simp add: n_def)
  moreover have "n div 262144 = n div 4096 div 64" by (simp add: div_mult2_eq [symmetric])
  ultimately have n: "n div 4096 * 4096 + n div 64 mod 64 * 64 + n mod 64 = n"
    using digits64 [of n] by simp
  have "n div 4 div 256 = of_char a" "n div 4 mod 256 = of_char b" using char_lt [of b] by (simp_all add: n_def)
  then have "char_of (n div 4 div 256) = a" "char_of (n div 4 mod 256) = b" by (simp_all only: char_of_char)
  then have "b64_groups [n div 4096, n div 64 mod 64, n mod 64] = Some [a, b]"
    by (simp only: b64_groups.simps n Let_def)
  then show ?case by (simp add: n_def Let_def)
next
  case (4 a b c s)
  define n where "n = of_char a * 65536 + of_char b * 256 + (of_char c :: nat)"
  have "n div 65536 = of_char a" "n div 256 mod 256 = of_char b" "n mod 256 = of_char c"
    using digits256 [OF char_lt [of b] char_lt [of c]] by (simp_all only: n_def)
  then have "char_of (n div 65536) = a" "char_of (n div 256 mod 256) = b" "char_of (n mod 256) = c"
    by (simp_all only: char_of_char)
  then show ?case using 4 digits64 [of n]
    by (simp only: b64_nums.simps b64_groups.simps n_def [symmetric] Let_def option.map)
qed simp

lemma b64_round_trip [simp]: "b64_decode (b64_encode s) = Some s"
proof -
  have f: "filter (\<lambda>c. c \<noteq> char_of (10::nat) \<and> c \<noteq> char_of (13::nat)) (map b64_char (b64_nums s))
    = map b64_char (b64_nums s)"
    by (rule filter_True) (use b64_char_plain b64_nums_lt in auto)
  have v: "map b64_value (map b64_char (b64_nums s)) = map Some (b64_nums s)"
    by (simp add: b64_value_char b64_nums_lt)
  show ?thesis
    by (simp only: b64_decode_def b64_encode_nums f v Let_def) (simp add: b64_groups_nums comp_def)
qed

lemma b64_encode_ne [simp]: "b64_encode s = [] \<longleftrightarrow> s = []"
  by (cases s rule: b64_encode.cases) (simp_all add: Let_def)

subsection \<open>Walking the cursors\<close>

definition minted :: "codec \<Rightarrow> 'a list \<Rightarrow> ('a \<Rightarrow> string) \<Rightarrow> string \<Rightarrow> Principal option \<Rightarrow> nat \<Rightarrow> listCursor" where
  "minted cd items name kind op off =
     \<lparr>Kind = kind, Offset = int off, Gen = snapshotGen (sha256 cd) kind items name,
      PrincipalTok = principalCursorKey (sha256 cd) op\<rparr>"

text \<open>The JSON functions read back, as a nonempty text, the cursors of one snapshot.\<close>

definition reads_back :: "codec \<Rightarrow> 'a list \<Rightarrow> ('a \<Rightarrow> string) \<Rightarrow> string \<Rightarrow> Principal option \<Rightarrow> bool" where
  "reads_back cd items name kind op =
     list_all (\<lambda>off. marshal cd (minted cd items name kind op off) \<noteq> '''' \<and>
         unmarshal cd (marshal cd (minted cd items name kind op off)) = Some (minted cd items name kind op off))
       [1..<length items]"

text \<open>A client that follows \<open>nextCursor\<close> until there is none, for at most \<open>fuel\<close> pages.\<close>

fun walk ::
  "nat \<Rightarrow> codec \<Rightarrow> 'a list \<Rightarrow> ('a \<Rightarrow> string) \<Rightarrow> string \<Rightarrow> string \<Rightarrow> int \<Rightarrow> Principal option
     \<Rightarrow> 'a list list option" where
  "walk 0 cd items name kind cur psize op = None"
| "walk (Suc fuel) cd items name kind cur psize op =
     (case paginate cd items name kind cur psize op of
        Some (Inr (page, nxt)) \<Rightarrow>
          if nxt = '''' then Some [page]
          else map_option (Cons page) (walk fuel cd items name kind nxt psize op)
      | _ \<Rightarrow> None)"

text \<open>The page at an offset and what follows it, for a page size that does not overflow.\<close>

lemma paginate_at:
  assumes "0 < psize" "psize + int (length items) \<le> max_int64" "off < length items"
    and "reads_back cd items name kind op" "off = 0 \<longrightarrow> psize < int (length items)"
    and cur: "cur = (if off = 0 then '''' else encodeCursor (marshal cd) (minted cd items name kind op off))"
  shows "paginate cd items name kind cur psize op = Some (Inr (take (nat psize) (drop off items),
     if off + nat psize < length items
     then encodeCursor (marshal cd) (minted cd items name kind op (off + nat psize)) else ''''))"
proof -
  have w: "wrap64 (int off + psize) = int (off + nat psize)"
    using assms(1-3) by (subst wrap64_id) (simp_all add: min_int64_def max_int64_def)
  have hi: "min (wrap64 (int off + psize)) (int (length items)) = int (min (off + nat psize) (length items))"
    by (simp only: w of_nat_min)
  have t: "take (min (off + nat psize) (length items) - off) (drop off items) = take (nat psize) (drop off items)"
    by (auto simp: min_def)
  show ?thesis
  proof (cases "off = 0")
    case True
    then show ?thesis using assms(1,5) cur hi t
      by (simp add: paginate_def Let_def minted_def min_def split: if_splits)
  next
    case False
    then have m: "marshal cd (minted cd items name kind op off) \<noteq> ''''"
      "unmarshal cd (marshal cd (minted cd items name kind op off)) = Some (minted cd items name kind op off)"
      using assms(3,4) by (auto simp: reads_back_def list_all_iff)
    then have c: "cur \<noteq> ''''" "decodeCursor (unmarshal cd) cur = Some (minted cd items name kind op off)"
      using False cur by (simp_all add: encodeCursor_def decodeCursor_def)
    then show ?thesis using False assms(1,3) hi t
      by (simp add: paginate_def Let_def minted_def min_def split: if_splits)
  qed
qed

lemma walk_from:
  assumes "0 < psize" "psize + int (length items) \<le> max_int64" "off < length items"
    and "reads_back cd items name kind op" "off = 0 \<longrightarrow> psize < int (length items)"
    and "length items - off \<le> fuel"
    and "cur = (if off = 0 then '''' else encodeCursor (marshal cd) (minted cd items name kind op off))"
  shows "\<exists>pages. walk fuel cd items name kind cur psize op = Some pages \<and> concat pages = drop off items \<and>
     list_all (\<lambda>page. int (length page) \<le> psize) pages"
  using assms(3,5,6,7)
proof (induction fuel arbitrary: off cur)
  case 0
  then show ?case by simp
next
  case (Suc fuel)
  let ?off = "off + nat psize"
  have p: "paginate cd items name kind cur psize op = Some (Inr (take (nat psize) (drop off items),
     if ?off < length items then encodeCursor (marshal cd) (minted cd items name kind op ?off) else ''''))"
    by (rule paginate_at [OF assms(1,2) Suc.prems(1) assms(4) Suc.prems(2) Suc.prems(4)])
  show ?case
  proof (cases "?off < length items")
    case False
    then have "take (nat psize) (drop off items) = drop off items" by simp
    with p False assms(1) show ?thesis by (simp add: Suc.prems(1))
  next
    case True
    have m: "marshal cd (minted cd items name kind op ?off) \<noteq> ''''"
      using True assms(1,4) by (auto simp: reads_back_def list_all_iff)
    have "length items - ?off \<le> fuel" using Suc.prems(3) assms(1) by linarith
    then obtain pages where w: "walk fuel cd items name kind
        (encodeCursor (marshal cd) (minted cd items name kind op ?off)) psize op = Some pages"
      "concat pages = drop ?off items" "list_all (\<lambda>page. int (length page) \<le> psize) pages"
      using Suc.IH [of ?off] True assms(1) by auto
    have "take (nat psize) (drop off items) @ drop ?off items = drop off items"
      by (metis append_take_drop_id drop_drop add.commute)
    with p True m w assms(1) show ?thesis by (simp add: encodeCursor_def)
  qed
qed

definition page_names :: "string list" where
  "page_names = [''a'', ''b'', ''c'', ''d'', ''e'']"

definition length_codec :: codec where
  "length_codec =
     \<lparr>sha256 = (\<lambda>s. replicate 6 (char_of (length s))), marshal = (\<lambda>c. replicate (nat (Offset c)) CHR ''o''),
      unmarshal = (\<lambda>s. Some \<lparr>Kind = ''tools'', Offset = int (length s),
        Gen = ''0f0f0f0f0f0f'', PrincipalTok = ''000000000000''\<rparr>)\<rparr>"

text \<open>
  C36. Pagination loses and repeats nothing and always ends: for every snapshot and every page size
  that does not overflow, a caller that follows the cursors from the first page on an unchanged
  snapshot receives pages of at most that size whose concatenation is the snapshot, in at most as
  many requests as it has items (one for an empty or short list).
\<close>

theorem walk_is_snapshot:
  assumes "0 < psize" "psize + int (length items) \<le> max_int64" "reads_back cd items name kind op"
  shows "\<exists>pages. walk (max 1 (length items)) cd items name kind '''' psize op = Some pages \<and>
     concat pages = items \<and> (\<forall>page \<in> set pages. int (length page) \<le> psize)"
proof (cases "int (length items) \<le> psize")
  case True
  then have "paginate cd items name kind '''' psize op = Some (Inr (items, ''''))"
    using assms(1) by (simp add: paginate_def)
  then show ?thesis using True by (cases "max 1 (length items)") simp_all
next
  case False
  with assms(1) have "0 < length items" "max 1 (length items) = length items" by auto
  then show ?thesis
    using walk_from [OF assms(1,2) _ assms(3), of 0 "length items" "''''"] False by (auto simp: list_all_iff)
qed

theorem walk_is_snapshot_witness:
  "\<exists>pages. walk 5 length_codec page_names id ''tools'' '''' 2 None = Some pages \<and>
     concat pages = page_names \<and> (\<forall>page \<in> set pages. int (length page) \<le> 2)"
proof -
  have "reads_back length_codec page_names id ''tools'' None" by code_simp
  then show ?thesis using walk_is_snapshot [of 2 page_names length_codec id "''tools''" None]
    by (simp add: page_names_def max_int64_def eval_nat_numeral del: walk.simps)
qed

text \<open>
  A cursor is good only for what it was minted for: when one is presented for another list
  family, by a caller whose digest differs, or after the snapshot's fingerprint has changed, or where
  pagination is off, the answer is the invalid-cursor error and no item.
\<close>

theorem foreign_cursor_refused:
  assumes "raw \<noteq> ''''"
    and "decodeCursor (unmarshal cd) raw = Some c"
    and "psize \<le> 0 \<or> Kind c \<noteq> kind \<or> Gen c \<noteq> snapshotGen (sha256 cd) kind items name \<or>
         PrincipalTok c \<noteq> principalCursorKey (sha256 cd) op \<or> Offset c \<notin> {1..int (length items)}"
  shows "paginate cd items name kind raw psize op = Some (Inl BadCursor)"
  using assms by (auto simp: paginate_def Let_def not_le)

theorem foreign_cursor_refused_witness:
  "paginate length_codec page_names id ''prompts'' (b64_encode ''oo'') 2 None = Some (Inl BadCursor)"
  using foreign_cursor_refused [of "b64_encode ''oo''" length_codec
      "\<lparr>Kind = ''tools'', Offset = 2, Gen = ''0f0f0f0f0f0f'', PrincipalTok = ''000000000000''\<rparr>"
      2 "''prompts''" page_names id None]
  by (simp add: decodeCursor_def length_codec_def del: b64_encode.simps)

end
