(* ===== verification/Ui_Resource.thy ===== *)
theory Ui_Resource
  imports Policy_Engine
begin

section \<open>Public names and interface resources\<close>

text \<open>
  How an upstream's names appear to clients: the namespaced public name (src/gateway/upstream.go,
  \<open>publicName\<close>) and, for the MCP Apps scheme \<open>ui://\<close>, the minted URI (src/gateway/uiresource.go), with
  the cache scope of list results (src/gateway/cachehint.go).

  An \<open>upstream\<close> here is the part of the Go struct that is fixed for its life; its mutable parts are
  in the theories that change them. \<open>mcp.Meta\<close> is a \<open>json_map option\<close>, \<open>None\<close> the nil map.

  The lemmas show that minting is injective across the federation and undone by \<open>splitUIURI\<close>, and
  what exactly the rewriting of a tool's metadata changes.
\<close>

record upstream =
  up_ID :: string
  up_Namespace :: string
  up_sep :: string
  up_hosts :: "string list"
  up_iconBase :: string
  up_iconIndexTTL :: duration
  up_cacheTTL :: duration
  up_callerDerived :: bool

definition publicName :: "upstream \<Rightarrow> string \<Rightarrow> string" where
  "publicName u bare = (if up_Namespace u = '''' then bare else up_Namespace u @ up_sep u @ bare)"

subsection \<open>Interface URIs\<close>

definition uiScheme :: string where
  "uiScheme = ''ui://''"

definition uiMintHost :: string where
  "uiMintHost = ''fold''"

definition isUIURI :: "string \<Rightarrow> bool" where
  "isUIURI uri \<longleftrightarrow> prefix uiScheme uri"

definition mintUIURI :: "upstream \<Rightarrow> string \<Rightarrow> string" where
  "mintUIURI u uri =
     (if up_Namespace u = '''' \<or> \<not> isUIURI uri then uri
      else uiScheme @ uiMintHost @ ''/'' @ up_Namespace u @ ''/'' @ drop (length uiScheme) uri)"

definition splitUIURI :: "string \<Rightarrow> (string \<times> string) option" where
  "splitUIURI uri =
     (let pre = uiScheme @ uiMintHost @ ''/'' in
      if \<not> prefix pre uri then None
      else (case str_cut (drop (length pre) uri) ''/'' of
              None \<Rightarrow> None
            | Some (ns, rest) \<Rightarrow>
                if ns = '''' \<or> rest = '''' then None else Some (ns, uiScheme @ rest)))"

definition uiOwner :: "bool \<Rightarrow> (string \<Rightarrow> upstream option) \<Rightarrow> string \<Rightarrow> (upstream \<times> string) option" where
  "uiOwner passthrough byNamespace uri =
     (if passthrough then None
      else (case splitUIURI uri of
              None \<Rightarrow> None
            | Some (ns, original) \<Rightarrow>
                (case byNamespace ns of None \<Rightarrow> None | Some u \<Rightarrow> Some (u, original))))"

subsection \<open>Tool metadata and read results\<close>

definition metaUI :: string where "metaUI = ''ui''"
definition metaUIResourceURI :: string where "metaUIResourceURI = ''resourceUri''"
definition metaUIResourceFlat :: string where "metaUIResourceFlat = ''ui/resourceUri''"

text \<open>A failed type assertion leaves the zero value: an empty map, an empty string.\<close>

definition as_obj :: "json option \<Rightarrow> json_map" where
  "as_obj v = (case v of Some (JObj m) \<Rightarrow> m | _ \<Rightarrow> fmempty)"

definition as_str :: "json option \<Rightarrow> string" where
  "as_str v = (case v of Some (JStr s) \<Rightarrow> s | _ \<Rightarrow> '''')"

definition mintToolMeta :: "upstream \<Rightarrow> json_map option \<Rightarrow> json_map option" where
  "mintToolMeta u meta =
     (case meta of
        None \<Rightarrow> None
      | Some m \<Rightarrow>
          if m = fmempty \<or> up_Namespace u = '''' then meta
          else let nested = as_obj (fmlookup m metaUI);
                   uri = as_str (fmlookup nested metaUIResourceURI);
                   flat = as_str (fmlookup m metaUIResourceFlat)
               in if \<not> isUIURI uri \<and> \<not> isUIURI flat then meta
                  else let out = (if isUIURI uri
                                  then fmupd metaUI (JObj (fmupd metaUIResourceURI (JStr (mintUIURI u uri)) nested)) m
                                  else m)
                       in Some (if isUIURI flat
                                then fmupd metaUIResourceFlat (JStr (mintUIURI u flat)) out else out))"

text \<open>The content blocks of a read: a nil block is \<open>None\<close>, the rest of a block is carried along.\<close>

record Content =
  ct_URI :: string
  ct_Rest :: string

definition mintReadResult :: "Content option list \<Rightarrow> string \<Rightarrow> string \<Rightarrow> Content option list" where
  "mintReadResult contents original minted =
     map (map_option (\<lambda>c. if ct_URI c = original then c\<lparr>ct_URI := minted\<rparr> else c)) contents"

subsection \<open>Cache scope of list results\<close>

definition cacheScopePublic :: string where "cacheScopePublic = ''public''"
definition cacheScopePrivate :: string where "cacheScopePrivate = ''private''"

text \<open>The document's policy and the number of its tenants; \<open>None\<close> is the nil configuration.\<close>

definition listCacheScope :: "(Policy option \<times> nat) option \<Rightarrow> upstream list \<Rightarrow> string" where
  "listCacheScope cfg ups =
     (case cfg of
        None \<Rightarrow> cacheScopePublic
      | Some (pol, tenants) \<Rightarrow>
          if (case pol of None \<Rightarrow> False | Some p \<Rightarrow> pol_Rules p \<noteq> []) then cacheScopePrivate
          else if 0 < tenants then cacheScopePrivate
          else if list_ex up_callerDerived ups then cacheScopePrivate
          else cacheScopePublic)"

subsection \<open>Minting is undone by splitting\<close>

text \<open>
  What the configuration's validation guarantees of namespaces, as far as it is used: a namespace
  does not contain a slash, and the separator shares no byte with it.
\<close>

definition ns_ok :: "upstream \<Rightarrow> bool" where
  "ns_ok u \<longleftrightarrow> up_Namespace u \<noteq> '''' \<and> CHR ''/'' \<notin> set (up_Namespace u) \<and>
     up_sep u \<noteq> '''' \<and> set (up_sep u) \<inter> set (up_Namespace u) = {}"

lemma split_mint:
  assumes "ns_ok u" "isUIURI uri" "uri \<noteq> uiScheme"
  shows "splitUIURI (mintUIURI u uri) = Some (up_Namespace u, uri)"
proof -
  obtain rest where r: "uri = uiScheme @ rest" using assms(2) by (auto simp: isUIURI_def prefix_def)
  have "str_cut (up_Namespace u @ ''/'' @ rest) ''/'' = Some (up_Namespace u, rest)"
    by (rule str_cut_disjoint) (use assms(1) in \<open>auto simp: ns_ok_def\<close>)
  moreover have "rest \<noteq> ''''" using assms(3) r by auto
  ultimately show ?thesis
    using assms(1,2) by (simp add: splitUIURI_def mintUIURI_def r ns_ok_def Let_def)
qed

lemma split_Some_minted:
  assumes "splitUIURI uri = Some (ns, original)" "up_Namespace u = ns"
  shows "mintUIURI u original = uri \<and> ns \<noteq> '''' \<and> isUIURI original"
proof -
  define pre where "pre = uiScheme @ uiMintHost @ ''/''"
  obtain rest where r: "prefix pre uri" "str_cut (drop (length pre) uri) ''/'' = Some (ns, rest)"
    "ns \<noteq> ''''" "original = uiScheme @ rest"
    using assms(1) by (auto simp: splitUIURI_def Let_def pre_def split: if_splits option.splits)
  then have "uri = pre @ ns @ ''/'' @ rest" by (auto simp: prefix_def dest: str_cut_Some)
  with r assms(2) show ?thesis by (simp add: mintUIURI_def isUIURI_def pre_def)
qed

text \<open>Exactly the pointer of a tool's metadata changes, and only when it is an interface URI.\<close>

lemma mintToolMeta_other:
  "k \<noteq> metaUI \<Longrightarrow> k \<noteq> metaUIResourceFlat \<Longrightarrow>
   Option.bind (mintToolMeta u meta) (\<lambda>m. fmlookup m k) = Option.bind meta (\<lambda>m. fmlookup m k)"
  by (auto simp: mintToolMeta_def Let_def split: option.splits)

lemma mintToolMeta_flat:
  "up_Namespace u \<noteq> '''' \<Longrightarrow> as_str (fmlookup m metaUIResourceFlat) = uri \<Longrightarrow> isUIURI uri \<Longrightarrow>
   Option.bind (mintToolMeta u (Some m)) (\<lambda>m. fmlookup m metaUIResourceFlat) = Some (JStr (mintUIURI u uri))"
  by (auto simp: mintToolMeta_def Let_def as_str_def isUIURI_def uiScheme_def)

definition app_upstream :: "string \<Rightarrow> upstream" where
  "app_upstream ns =
     \<lparr>up_ID = ns, up_Namespace = ns, up_sep = ''__'', up_hosts = [''h''], up_iconBase = '''',
      up_iconIndexTTL = 0, up_cacheTTL = 0, up_callerDerived = False\<rparr>"

text \<open>
  C38. A minted interface URI names its upstream: in a federation whose namespaces are well formed and
  indexed by themselves, a URI resolves to the upstream \<open>u\<close> and its own URI \<open>uri\<close> exactly when it is
  the one minted for them. So two upstreams that publish the same URI are kept apart, an upstream
  cannot publish a URI that resolves to another, and no URI is lost (the bare scheme \<open>ui://\<close> has no path and
  is the one interface URI left out).
\<close>

theorem ui_owner_iff_minted:
  assumes "\<forall>ns v. byNamespace ns = Some v \<longrightarrow> up_Namespace v = ns \<and> ns_ok v"
    and "byNamespace (up_Namespace u) = Some u" "isUIURI uri" "uri \<noteq> uiScheme"
  shows "uiOwner False byNamespace m = Some (u, uri) \<longleftrightarrow> m = mintUIURI u uri"
proof
  assume "m = mintUIURI u uri"
  moreover have "ns_ok u" using assms(1,2) by blast
  ultimately show "uiOwner False byNamespace m = Some (u, uri)"
    using assms(2) split_mint [OF _ assms(3,4)] by (simp add: uiOwner_def)
next
  assume "uiOwner False byNamespace m = Some (u, uri)"
  then obtain ns where "splitUIURI m = Some (ns, uri)" "byNamespace ns = Some u"
    by (auto simp: uiOwner_def split: option.splits)
  then show "m = mintUIURI u uri" using split_Some_minted [of m ns uri u] assms(1) by simp
qed

theorem ui_owner_iff_minted_witness:
  "uiOwner False [''a'' \<mapsto> app_upstream ''a'', ''b'' \<mapsto> app_upstream ''b''] ''ui://fold/a/x''
     = Some (app_upstream ''a'', ''ui://x'')"
proof -
  have "uiOwner False [''a'' \<mapsto> app_upstream ''a'', ''b'' \<mapsto> app_upstream ''b''] ''ui://fold/a/x''
     = Some (app_upstream ''a'', ''ui://x'') \<longleftrightarrow> ''ui://fold/a/x'' = mintUIURI (app_upstream ''a'') ''ui://x''"
    by (rule ui_owner_iff_minted)
      (simp_all add: app_upstream_def ns_ok_def isUIURI_def uiScheme_def split: if_splits)
  then show ?thesis by (simp add: mintUIURI_def app_upstream_def isUIURI_def uiScheme_def uiMintHost_def)
qed

end
