(* ===== verification/Public_View.thy ===== *)
theory Public_View
  imports Ui_Resource Pagination Bounded_Map List_Shaping
begin

section \<open>The view of an upstream's lists that clients see\<close>

text \<open>
  Icons (src/gateway/icon.go), capability profiles (src/gateway/uicapability.go) and the memoized
  namespaced lists (src/gateway/upstream.go, \<open>namespacedTools\<close> and its siblings, and
  src/gateway/uiresource.go, \<open>namespacedResources\<close>).

  A slice is an address and its contents, so that the identity test of the memo can be written down;
  the state of an upstream that these operations change is a \<open>up_state\<close>. The clock is read once per
  operation. \<open>sha256\<close> is an argument.

  The lemmas show that the memo is invisible (a list handler sees what a fresh rewriting would give,
  whatever was asked before) and that the icon index only ever holds sources on the upstream's own
  hosts, so that the icon endpoint is no open proxy.
\<close>

subsection \<open>Capability profiles\<close>

datatype capProfile = profilePlain | profileUI

definition uiExtensionID :: string where "uiExtensionID = ''io.modelcontextprotocol/ui''"
definition uiMimeType :: string where "uiMimeType = ''text/html;profile=mcp-app''"

definition profileFor :: "json_map option \<Rightarrow> capProfile" where
  "profileFor caps =
     (case caps of
        None \<Rightarrow> profilePlain
      | Some ext \<Rightarrow>
          (case fmlookup ext uiExtensionID of
             Some (JObj settings) \<Rightarrow>
               (case fmlookup settings ''mimeTypes'' of
                  Some (JArr mimes) \<Rightarrow>
                    if list_ex (\<lambda>m. as_str (Some m) = uiMimeType) mimes then profileUI else profilePlain
                | _ \<Rightarrow> profilePlain)
           | _ \<Rightarrow> profilePlain))"

definition uiCapabilities :: "capProfile \<Rightarrow> json_map option \<Rightarrow> json_map option" where
  "uiCapabilities p caps =
     (if p \<noteq> profileUI then caps
      else let ext = (case caps of None \<Rightarrow> fmempty | Some m \<Rightarrow> m)
           in Some (fmupd uiExtensionID (JObj (fmupd ''mimeTypes'' (JArr [JStr uiMimeType]) fmempty)) ext))"

definition qualify :: "capProfile \<Rightarrow> string \<Rightarrow> string" where
  "qualify p key = (if p = profilePlain then key else key @ [nul] @ ''ui'')"

lemma profileFor_uiCapabilities: "profileFor (uiCapabilities profileUI caps) = profileUI"
  by (simp add: profileFor_def uiCapabilities_def as_str_def Let_def)

lemma qualify_inj:
  "nul \<notin> set k \<Longrightarrow> nul \<notin> set k' \<Longrightarrow> qualify p k = qualify p' k' \<longleftrightarrow> p = p' \<and> k = k'"
  by (cases p; cases p') (auto simp: qualify_def)

subsection \<open>Icons\<close>

definition iconPathPrefix :: string where "iconPathPrefix = ''/icons/''"
definition iconDigestLen :: nat where "iconDigestLen = 32"
definition iconIndexEntries :: int where "iconIndexEntries = 1024"

record Icon =
  ic_Source :: string
  ic_Rest :: string

definition iconDigest :: "(string \<Rightarrow> string) \<Rightarrow> string \<Rightarrow> string" where
  "iconDigest sha src = hex_encode (take (iconDigestLen div 2) (sha src))"

datatype iconDisposition = iconPassThrough | iconMint | iconDrop

definition classifyIcon :: "upstream \<Rightarrow> string \<Rightarrow> iconDisposition" where
  "classifyIcon u src =
     (if src = '''' then iconDrop
      else if prefix ''data:'' src then iconPassThrough
      else (case str_cut src ''://'' of
              None \<Rightarrow> iconDrop
            | Some (scheme, rest) \<Rightarrow>
                if scheme \<noteq> ''http'' \<and> scheme \<noteq> ''https'' then iconDrop
                else let host = (case str_cut rest ''/'' of None \<Rightarrow> rest | Some (h, _) \<Rightarrow> h)
                     in if host \<notin> set (up_hosts u) then iconPassThrough else iconMint))"

fun mint_loop ::
  "(string \<Rightarrow> string) \<Rightarrow> upstream \<Rightarrow> time \<Rightarrow> Icon list \<Rightarrow> string Map \<Rightarrow> Icon list \<times> nat \<times> string Map" where
  "mint_loop sha u now [] idx = ([], 0, idx)"
| "mint_loop sha u now (icon # icons) idx =
     (case classifyIcon u (ic_Source icon) of
        iconPassThrough \<Rightarrow>
          (case mint_loop sha u now icons idx of (out, drops, idx') \<Rightarrow> (icon # out, drops, idx'))
      | iconDrop \<Rightarrow>
          (case mint_loop sha u now icons idx of (out, drops, idx') \<Rightarrow> (icon # out, drops + 1, idx'))
      | iconMint \<Rightarrow>
          (let digest = iconDigest sha (ic_Source icon);
               idx1 = Store_map idx digest (ic_Source icon) (up_iconIndexTTL u) now
           in case mint_loop sha u now icons idx1 of (out, drops, idx') \<Rightarrow>
                (icon\<lparr>ic_Source := up_iconBase u @ iconPathPrefix @ up_Namespace u @ ''/'' @ digest\<rparr> # out,
                 drops, idx')))"

definition mintIcons ::
  "(string \<Rightarrow> string) \<Rightarrow> upstream \<Rightarrow> time \<Rightarrow> Icon list \<Rightarrow> string Map \<Rightarrow> Icon list \<times> string Map" where
  "mintIcons sha u now icons idx =
     (if icons = [] \<or> up_Namespace u = '''' \<or> up_iconBase u = '''' then (icons, idx)
      else (case mint_loop sha u now icons idx of (out, drops, idx') \<Rightarrow>
              if drops = 0 then (out, idx')
              else (map snd (filter (\<lambda>p. classifyIcon u (ic_Source (fst p)) \<noteq> iconDrop) (zip icons out)), idx')))"

definition hex_char :: "char \<Rightarrow> bool" where
  "hex_char c \<longleftrightarrow> c \<in> set ''0123456789abcdef''"

definition splitIconPath :: "string \<Rightarrow> (string \<times> string) option" where
  "splitIconPath path =
     (if \<not> prefix iconPathPrefix path then None
      else (case str_cut (drop (length iconPathPrefix) path) ''/'' of
              None \<Rightarrow> None
            | Some (ns, rest) \<Rightarrow>
                if ns = '''' \<or> length rest \<noteq> iconDigestLen then None
                else if list_ex (\<lambda>c. c \<in> set ''/?#'') rest then None
                else if \<not> list_all hex_char rest then None
                else Some (ns, rest)))"

subsection \<open>Lists and their memoized public form\<close>

record Tool =
  tl_Name :: string
  tl_Meta :: "json_map option"
  tl_Icons :: "Icon list"
  tl_Annotations :: "ToolHints option"
  tl_Rest :: string

record Prompt =
  pm_Name :: string
  pm_Icons :: "Icon list"
  pm_Rest :: string

record Resource =
  rs_URI :: string
  rs_Icons :: "Icon list"
  rs_Rest :: string

type_synonym 'a slice = "nat \<times> 'a list"

record 'a publicView =
  pv_from :: "'a slice"
  pv_items :: "'a list"

definition no_view :: "'a publicView" where
  "no_view = \<lparr>pv_from = (0, []), pv_items = []\<rparr>"

definition get_view :: "'a publicView \<Rightarrow> 'a slice \<Rightarrow> 'a list option" where
  "get_view v bare =
     (if length (snd (pv_from v)) \<noteq> length (snd bare) then None
      else if 0 < length (snd bare) \<and> fst (pv_from v) \<noteq> fst bare then None
      else Some (pv_items v))"

record up_state =
  us_iconIndex :: "string Map"
  us_tools :: "capProfile \<Rightarrow> Tool publicView"
  us_prompts :: "capProfile \<Rightarrow> Prompt publicView"
  us_resources :: "capProfile \<Rightarrow> Resource publicView"

definition new_up_state :: up_state where
  "new_up_state =
     \<lparr>us_iconIndex = New_map iconIndexEntries, us_tools = (\<lambda>_. no_view), us_prompts = (\<lambda>_. no_view),
      us_resources = (\<lambda>_. no_view)\<rparr>"

text \<open>The loop of a rewrite: one item after the other, the icon index threaded through.\<close>

fun rewrite_all :: "('a \<Rightarrow> string Map \<Rightarrow> 'a \<times> string Map) \<Rightarrow> 'a list \<Rightarrow> string Map \<Rightarrow> 'a list \<times> string Map" where
  "rewrite_all f [] idx = ([], idx)"
| "rewrite_all f (x # xs) idx =
     (case f x idx of (y, idx1) \<Rightarrow> (case rewrite_all f xs idx1 of (ys, idx2) \<Rightarrow> (y # ys, idx2)))"

definition public_tool :: "(string \<Rightarrow> string) \<Rightarrow> upstream \<Rightarrow> time \<Rightarrow> Tool \<Rightarrow> string Map \<Rightarrow> Tool \<times> string Map" where
  "public_tool sha u now t idx =
     (case mintIcons sha u now (tl_Icons t) idx of (icons, idx') \<Rightarrow>
        (t\<lparr>tl_Name := publicName u (tl_Name t), tl_Meta := mintToolMeta u (tl_Meta t), tl_Icons := icons\<rparr>, idx'))"

definition public_prompt :: "(string \<Rightarrow> string) \<Rightarrow> upstream \<Rightarrow> time \<Rightarrow> Prompt \<Rightarrow> string Map \<Rightarrow> Prompt \<times> string Map" where
  "public_prompt sha u now p idx =
     (case mintIcons sha u now (pm_Icons p) idx of (icons, idx') \<Rightarrow>
        (p\<lparr>pm_Name := publicName u (pm_Name p), pm_Icons := icons\<rparr>, idx'))"

text \<open>
  A resource whose URI and icons come out unchanged keeps its place in the shared slice; a copy with
  the same fields is the same value.
\<close>

definition public_resource :: "(string \<Rightarrow> string) \<Rightarrow> upstream \<Rightarrow> time \<Rightarrow> Resource \<Rightarrow> string Map \<Rightarrow> Resource \<times> string Map" where
  "public_resource sha u now r idx =
     (case mintIcons sha u now (rs_Icons r) idx of (icons, idx') \<Rightarrow>
        (if mintUIURI u (rs_URI r) = rs_URI r \<and> icons = rs_Icons r then r
         else r\<lparr>rs_URI := mintUIURI u (rs_URI r), rs_Icons := icons\<rparr>, idx'))"

definition namespacedTools ::
  "(string \<Rightarrow> string) \<Rightarrow> upstream \<Rightarrow> capProfile \<Rightarrow> time \<Rightarrow> Tool slice \<Rightarrow> up_state \<Rightarrow> Tool list \<times> up_state" where
  "namespacedTools sha u profile now bare st =
     (if up_Namespace u = '''' then (snd bare, st)
      else (case get_view (us_tools st profile) bare of
              Some items \<Rightarrow> (items, st)
            | None \<Rightarrow>
                (case rewrite_all (public_tool sha u now) (snd bare) (us_iconIndex st) of (items, idx) \<Rightarrow>
                   (items, st\<lparr>us_iconIndex := idx,
                      us_tools := (us_tools st)(profile := \<lparr>pv_from = bare, pv_items = items\<rparr>)\<rparr>))))"

definition namespacedPrompts ::
  "(string \<Rightarrow> string) \<Rightarrow> upstream \<Rightarrow> capProfile \<Rightarrow> time \<Rightarrow> Prompt slice \<Rightarrow> up_state \<Rightarrow> Prompt list \<times> up_state" where
  "namespacedPrompts sha u profile now bare st =
     (if up_Namespace u = '''' then (snd bare, st)
      else (case get_view (us_prompts st profile) bare of
              Some items \<Rightarrow> (items, st)
            | None \<Rightarrow>
                (case rewrite_all (public_prompt sha u now) (snd bare) (us_iconIndex st) of (items, idx) \<Rightarrow>
                   (items, st\<lparr>us_iconIndex := idx,
                      us_prompts := (us_prompts st)(profile := \<lparr>pv_from = bare, pv_items = items\<rparr>)\<rparr>))))"

definition namespacedResources ::
  "(string \<Rightarrow> string) \<Rightarrow> upstream \<Rightarrow> capProfile \<Rightarrow> time \<Rightarrow> Resource slice \<Rightarrow> up_state \<Rightarrow> Resource list \<times> up_state" where
  "namespacedResources sha u profile now bare st =
     (if up_Namespace u = '''' then (snd bare, st)
      else (case get_view (us_resources st profile) bare of
              Some items \<Rightarrow> (items, st)
            | None \<Rightarrow>
                (case rewrite_all (public_resource sha u now) (snd bare) (us_iconIndex st) of (items, idx) \<Rightarrow>
                   (items, st\<lparr>us_iconIndex := idx,
                      us_resources := (us_resources st)(profile := \<lparr>pv_from = bare, pv_items = items\<rparr>)\<rparr>))))"

subsection \<open>Resolving an icon\<close>

text \<open>
  \<open>record\<close> of \<open>reindexIcons\<close> over one item's icons, and over all views of the upstream, one profile
  after the other as the map iteration may visit them (\<open>order\<close>).
\<close>

fun record_icons ::
  "(string \<Rightarrow> string) \<Rightarrow> upstream \<Rightarrow> time \<Rightarrow> Icon list \<Rightarrow> bool \<times> string Map \<Rightarrow> bool \<times> string Map" where
  "record_icons sha u now [] acc = acc"
| "record_icons sha u now (icon # icons) acc =
     (if classifyIcon u (ic_Source icon) \<noteq> iconMint then record_icons sha u now icons acc
      else record_icons sha u now icons
        (True, Store_map (snd acc) (iconDigest sha (ic_Source icon)) (ic_Source icon) (up_iconIndexTTL u) now))"

definition view_icons :: "capProfile list \<Rightarrow> up_state \<Rightarrow> Icon list" where
  "view_icons order st =
     concat (map (\<lambda>p. concat (map tl_Icons (snd (pv_from (us_tools st p))))) order) @
     concat (map (\<lambda>p. concat (map pm_Icons (snd (pv_from (us_prompts st p))))) order) @
     concat (map (\<lambda>p. concat (map rs_Icons (snd (pv_from (us_resources st p))))) order)"

definition reindexIcons ::
  "(string \<Rightarrow> string) \<Rightarrow> capProfile list \<Rightarrow> upstream \<Rightarrow> time \<Rightarrow> up_state \<Rightarrow> bool \<times> up_state" where
  "reindexIcons sha order u now st =
     (if up_cacheTTL u \<le> 0 \<or> up_iconBase u = '''' \<or> up_Namespace u = '''' then (False, st)
      else (case record_icons sha u now (view_icons order st) (False, us_iconIndex st) of (found, idx) \<Rightarrow>
              (found, st\<lparr>us_iconIndex := idx\<rparr>)))"

text \<open>The states of the upstreams are kept by namespace here, since that is what the path names.\<close>

definition iconOwner ::
  "(string \<Rightarrow> string) \<Rightarrow> capProfile list \<Rightarrow> bool \<Rightarrow> (string \<Rightarrow> upstream option) \<Rightarrow> string \<Rightarrow> time
     \<Rightarrow> (string \<Rightarrow> up_state) \<Rightarrow> (upstream \<times> string) option \<times> (string \<Rightarrow> up_state)" where
  "iconOwner sha order passthrough byNamespace path now sts =
     (if passthrough then (None, sts)
      else (case splitIconPath path of
              None \<Rightarrow> (None, sts)
            | Some (ns, digest) \<Rightarrow>
                (case byNamespace ns of
                   None \<Rightarrow> (None, sts)
                 | Some u \<Rightarrow>
                     (case Load (us_iconIndex (sts ns)) digest now of
                        (Some src, idx) \<Rightarrow> (Some (u, src), sts(ns := (sts ns)\<lparr>us_iconIndex := idx\<rparr>))
                      | (None, idx) \<Rightarrow>
                          (case reindexIcons sha order u now ((sts ns)\<lparr>us_iconIndex := idx\<rparr>) of
                             (False, st) \<Rightarrow> (None, sts(ns := st))
                           | (True, st) \<Rightarrow>
                               (case Load (us_iconIndex st) digest now of (r, idx') \<Rightarrow>
                                  (map_option (\<lambda>src. (u, src)) r,
                                   sts(ns := st\<lparr>us_iconIndex := idx'\<rparr>))))))))"

subsection \<open>A memoized rewrite\<close>

text \<open>
  What the three list rewrites share: the item that comes out does not depend on the icon index, and
  the index keeps what is required of it. \<open>heap\<close> is what a bare slice holds at its address: a cached
  list is never written to.
\<close>

definition view_ok :: "('a \<Rightarrow> 'a) \<Rightarrow> (nat \<Rightarrow> 'a list) \<Rightarrow> 'a publicView \<Rightarrow> bool" where
  "view_ok g heap v \<longleftrightarrow>
     pv_items v = map g (snd (pv_from v)) \<and> (snd (pv_from v) \<noteq> [] \<longrightarrow> snd (pv_from v) = heap (fst (pv_from v)))"

locale memo_rewrite =
  fixes f :: "'a \<Rightarrow> string Map \<Rightarrow> 'a \<times> string Map"
    and g :: "'a \<Rightarrow> 'a"
    and good :: "string Map \<Rightarrow> bool"
  assumes pure: "fst (f x idx) = g x"
    and keeps: "good idx \<Longrightarrow> good (snd (f x idx))"
begin

lemma rewrite_pure: "fst (rewrite_all f xs idx) = map g xs"
proof (induction xs arbitrary: idx)
  case (Cons x xs)
  then show ?case using pure [of x idx] by (auto split: prod.splits) (metis fst_conv)
qed simp

lemma rewrite_keeps: "good idx \<Longrightarrow> good (snd (rewrite_all f xs idx))"
proof (induction xs arbitrary: idx)
  case (Cons x xs)
  obtain y idx1 where y: "f x idx = (y, idx1)" by fastforce
  then have "good idx1" using keeps [OF Cons.prems, of x] by simp
  then show ?case using Cons.IH [of idx1] y by (auto split: prod.splits)
qed simp

lemma memo_hit: "view_ok g heap v \<Longrightarrow> get_view v (a, heap a) = Some items \<Longrightarrow> items = map g (heap a)"
  by (cases "heap a = []") (auto simp: view_ok_def get_view_def split: if_splits)

lemma memo_store: "view_ok g heap \<lparr>pv_from = (a, heap a), pv_items = fst (rewrite_all f (heap a) idx)\<rparr>"
  by (simp add: view_ok_def rewrite_pure)

end

lemma view_ok_none [simp]: "view_ok g heap no_view"
  by (simp add: view_ok_def no_view_def)

subsection \<open>What minting does to icons\<close>

definition minted_icon :: "(string \<Rightarrow> string) \<Rightarrow> upstream \<Rightarrow> Icon \<Rightarrow> Icon" where
  "minted_icon sha u icon =
     (if classifyIcon u (ic_Source icon) = iconMint
      then icon\<lparr>ic_Source := up_iconBase u @ iconPathPrefix @ up_Namespace u @ ''/'' @ iconDigest sha (ic_Source icon)\<rparr>
      else icon)"

definition public_icons :: "(string \<Rightarrow> string) \<Rightarrow> upstream \<Rightarrow> Icon list \<Rightarrow> Icon list" where
  "public_icons sha u icons =
     (if up_Namespace u = '''' \<or> up_iconBase u = '''' then icons
      else map (minted_icon sha u) (filter (\<lambda>i. classifyIcon u (ic_Source i) \<noteq> iconDrop) icons))"

lemma mint_loop_spec:
  "mint_loop sha u now icons idx = (out, drops, idx') \<Longrightarrow>
   out = map (minted_icon sha u) icons \<and>
   drops = length (filter (\<lambda>i. classifyIcon u (ic_Source i) = iconDrop) icons)"
  by (induction icons arbitrary: idx out drops)
    (auto simp: minted_icon_def Let_def split: iconDisposition.splits prod.splits)

lemma zip_filter_fst: "map snd (filter (\<lambda>p. P (fst p)) (zip xs (map h xs))) = map h (filter P xs)"
  by (induction xs) auto

lemma mintIcons_spec: "fst (mintIcons sha u now icons idx) = public_icons sha u icons"
proof -
  obtain out drops idx' where m: "mint_loop sha u now icons idx = (out, drops, idx')" by (metis prod_cases3)
  show ?thesis
  proof (cases "drops = 0")
    case True
    then have "filter (\<lambda>i. classifyIcon u (ic_Source i) \<noteq> iconDrop) icons = icons"
      using mint_loop_spec [OF m] by (auto simp: filter_empty_conv intro: filter_True)
    then show ?thesis using True m mint_loop_spec [OF m] by (auto simp: mintIcons_def public_icons_def)
  next
    case False
    then show ?thesis using m mint_loop_spec [OF m]
      by (auto simp: mintIcons_def public_icons_def zip_filter_fst
          zip_filter_fst [where P = "\<lambda>i. classifyIcon u (ic_Source i) \<noteq> iconDrop"])
  qed
qed

text \<open>Every source in the index, whichever generation holds it, is on a host of the upstream.\<close>

definition index_ok :: "upstream \<Rightarrow> string Map \<Rightarrow> bool" where
  "index_ok u m \<longleftrightarrow>
     (\<forall>k e. fmlookup (cur m) k = Some e \<or> fmlookup (prev m) k = Some e \<longrightarrow> classifyIcon u (entry_value e) = iconMint)"

lemma index_ok_new [simp]: "index_ok u (New_map n)"
  by (simp add: index_ok_def New_map_def)

lemma index_ok_store [intro]:
  "index_ok u m \<Longrightarrow> classifyIcon u src = iconMint \<Longrightarrow> index_ok u (Store_map m k src ttl now)"
  by (auto simp: index_ok_def Store_map_def storeLocked_def Let_def split: if_splits)

lemma index_ok_load:
  "index_ok u m \<Longrightarrow> Load m k now = (r, m') \<Longrightarrow>
     index_ok u m' \<and> (\<forall>src. r = Some src \<longrightarrow> classifyIcon u src = iconMint)"
  by (auto simp: index_ok_def Load_def load_prev_def Let_def split: option.splits if_splits)

lemma index_ok_mint_loop:
  "index_ok u idx \<Longrightarrow> mint_loop sha u now icons idx = (out, drops, idx') \<Longrightarrow> index_ok u idx'"
  by (induction icons arbitrary: idx out drops)
    (auto simp: Let_def split: iconDisposition.splits prod.splits)

lemma index_ok_mintIcons: "index_ok u idx \<Longrightarrow> index_ok u (snd (mintIcons sha u now icons idx))"
  by (auto simp: mintIcons_def split: prod.splits intro: index_ok_mint_loop)

lemma index_ok_record: "index_ok u (snd acc) \<Longrightarrow> index_ok u (snd (record_icons sha u now icons acc))"
  by (induction icons arbitrary: acc) (simp_all add: index_ok_store)

subsection \<open>The three views\<close>

definition seen_tool :: "(string \<Rightarrow> string) \<Rightarrow> upstream \<Rightarrow> Tool \<Rightarrow> Tool" where
  "seen_tool sha u t =
     t\<lparr>tl_Name := publicName u (tl_Name t), tl_Meta := mintToolMeta u (tl_Meta t),
       tl_Icons := public_icons sha u (tl_Icons t)\<rparr>"

definition seen_prompt :: "(string \<Rightarrow> string) \<Rightarrow> upstream \<Rightarrow> Prompt \<Rightarrow> Prompt" where
  "seen_prompt sha u p = p\<lparr>pm_Name := publicName u (pm_Name p), pm_Icons := public_icons sha u (pm_Icons p)\<rparr>"

definition seen_resource :: "(string \<Rightarrow> string) \<Rightarrow> upstream \<Rightarrow> Resource \<Rightarrow> Resource" where
  "seen_resource sha u r = r\<lparr>rs_URI := mintUIURI u (rs_URI r), rs_Icons := public_icons sha u (rs_Icons r)\<rparr>"

lemma mintIcons_pair:
  "mintIcons sha u now icons idx = (out, idx') \<Longrightarrow>
   out = public_icons sha u icons \<and> (index_ok u idx \<longrightarrow> index_ok u idx')"
  using mintIcons_spec [of sha u now icons idx] index_ok_mintIcons [of u idx sha now icons] by auto

interpretation tools_view: memo_rewrite "public_tool sha u now" "seen_tool sha u" "index_ok u" for sha u now
  by unfold_locales (auto simp: public_tool_def seen_tool_def split: prod.splits dest: mintIcons_pair)

interpretation prompts_view: memo_rewrite "public_prompt sha u now" "seen_prompt sha u" "index_ok u" for sha u now
  by unfold_locales (auto simp: public_prompt_def seen_prompt_def split: prod.splits dest: mintIcons_pair)

lemma seen_resource_idle:
  "mintUIURI u (rs_URI r) = rs_URI r \<Longrightarrow> public_icons sha u (rs_Icons r) = rs_Icons r \<Longrightarrow> seen_resource sha u r = r"
  by (cases r) (simp add: seen_resource_def)

interpretation resources_view: memo_rewrite "public_resource sha u now" "seen_resource sha u" "index_ok u" for sha u now
proof unfold_locales
  show "fst (public_resource sha u now x idx) = seen_resource sha u x" for x idx
    using seen_resource_idle [of u x sha]
    by (auto simp: public_resource_def seen_resource_def split: prod.splits dest: mintIcons_pair)
  show "index_ok u idx \<Longrightarrow> index_ok u (snd (public_resource sha u now x idx))" for x idx
    by (auto simp: public_resource_def split: prod.splits dest: mintIcons_pair)
qed

subsection \<open>Every state an upstream's view can be in\<close>

text \<open>
  One step: a list handler asks for a public list, or the icon endpoint looks a digest up and may
  rebuild the index. What the addresses hold is fixed, as cached lists are read-only.
\<close>

inductive view_reach ::
  "(string \<Rightarrow> string) \<Rightarrow> upstream \<Rightarrow> (nat \<Rightarrow> Tool list) \<Rightarrow> (nat \<Rightarrow> Prompt list) \<Rightarrow> (nat \<Rightarrow> Resource list) \<Rightarrow> up_state \<Rightarrow> bool"
  for sha u ht hp hr where
  init: "view_reach sha u ht hp hr new_up_state"
| tools: "view_reach sha u ht hp hr st \<Longrightarrow>
    view_reach sha u ht hp hr (snd (namespacedTools sha u profile now (a, ht a) st))"
| prompts: "view_reach sha u ht hp hr st \<Longrightarrow>
    view_reach sha u ht hp hr (snd (namespacedPrompts sha u profile now (a, hp a) st))"
| resources: "view_reach sha u ht hp hr st \<Longrightarrow>
    view_reach sha u ht hp hr (snd (namespacedResources sha u profile now (a, hr a) st))"
| lookup: "view_reach sha u ht hp hr st \<Longrightarrow>
    view_reach sha u ht hp hr (st\<lparr>us_iconIndex := snd (Load (us_iconIndex st) digest now)\<rparr>)"
| reindex: "view_reach sha u ht hp hr st \<Longrightarrow> view_reach sha u ht hp hr (snd (reindexIcons sha order u now st))"

definition view_inv ::
  "(string \<Rightarrow> string) \<Rightarrow> upstream \<Rightarrow> (nat \<Rightarrow> Tool list) \<Rightarrow> (nat \<Rightarrow> Prompt list) \<Rightarrow> (nat \<Rightarrow> Resource list) \<Rightarrow> up_state \<Rightarrow> bool" where
  "view_inv sha u ht hp hr st \<longleftrightarrow>
     index_ok u (us_iconIndex st) \<and>
     (\<forall>p. view_ok (seen_tool sha u) ht (us_tools st p)) \<and>
     (\<forall>p. view_ok (seen_prompt sha u) hp (us_prompts st p)) \<and>
     (\<forall>p. view_ok (seen_resource sha u) hr (us_resources st p))"

lemma view_inv_tools:
  assumes "view_inv sha u ht hp hr st"
  shows "view_inv sha u ht hp hr (snd (namespacedTools sha u profile now (a, ht a) st))"
  using assms tools_view.rewrite_keeps [of u "us_iconIndex st" sha now "ht a"]
    tools_view.memo_store [of sha u ht a now "us_iconIndex st"]
  by (auto simp: namespacedTools_def view_inv_def split: option.splits prod.splits)

lemma view_inv_prompts:
  assumes "view_inv sha u ht hp hr st"
  shows "view_inv sha u ht hp hr (snd (namespacedPrompts sha u profile now (a, hp a) st))"
  using assms prompts_view.rewrite_keeps [of u "us_iconIndex st" sha now "hp a"]
    prompts_view.memo_store [of sha u hp a now "us_iconIndex st"]
  by (auto simp: namespacedPrompts_def view_inv_def split: option.splits prod.splits)

lemma view_inv_resources:
  assumes "view_inv sha u ht hp hr st"
  shows "view_inv sha u ht hp hr (snd (namespacedResources sha u profile now (a, hr a) st))"
  using assms resources_view.rewrite_keeps [of u "us_iconIndex st" sha now "hr a"]
    resources_view.memo_store [of sha u hr a now "us_iconIndex st"]
  by (auto simp: namespacedResources_def view_inv_def split: option.splits prod.splits)

lemma view_inv_lookup:
  "view_inv sha u ht hp hr st \<Longrightarrow>
   view_inv sha u ht hp hr (st\<lparr>us_iconIndex := snd (Load (us_iconIndex st) digest now)\<rparr>)"
  using index_ok_load [of u "us_iconIndex st" digest now]
  by (auto simp: view_inv_def) (metis prod.collapse)

lemma view_inv_reindex:
  "view_inv sha u ht hp hr st \<Longrightarrow> view_inv sha u ht hp hr (snd (reindexIcons sha order u now st))"
  using index_ok_record [of u "(False, us_iconIndex st)" sha now "view_icons order st"]
  by (auto simp: view_inv_def reindexIcons_def split: prod.splits)

lemma view_reach_inv: "view_reach sha u ht hp hr st \<Longrightarrow> view_inv sha u ht hp hr st"
proof (induction rule: view_reach.induct)
  case init
  then show ?case by (simp add: view_inv_def new_up_state_def)
qed (simp_all add: view_inv_tools view_inv_prompts view_inv_resources view_inv_lookup view_inv_reindex)

lemma hex_digit_char: "n < 16 \<Longrightarrow> hex_char (hex_digit n)"
proof -
  assume "n < 16"
  then have "n \<in> {0, 1, 2, 3, 4, 5, 6, 7, 8, 9, 10, 11, 12, 13, 14, 15}" by simp arith
  then show ?thesis by (auto simp: hex_char_def hex_digit_def char_of_eq)
qed

lemma hex_char_plain: "hex_char c \<Longrightarrow> c \<notin> set ''/?#''"
  by (auto simp: hex_char_def)

lemma hex_encode_chars: "list_all hex_char (hex_encode s)"
  by (auto simp: hex_encode_def list_all_iff intro!: hex_digit_char less_mult_imp_div_less)

lemma length_hex_encode: "length (hex_encode s) = 2 * length s"
  by (induction s) (simp_all add: hex_encode_def)

text \<open>A minted path is taken apart into the namespace and the digest it was made of.\<close>

lemma split_icon_path:
  assumes "ns_ok u" "16 \<le> length (sha src)"
  shows "splitIconPath (iconPathPrefix @ up_Namespace u @ ''/'' @ iconDigest sha src) = Some (up_Namespace u, iconDigest sha src)"
proof -
  have c: "str_cut (up_Namespace u @ ''/'' @ iconDigest sha src) ''/'' = Some (up_Namespace u, iconDigest sha src)"
    by (rule str_cut_disjoint) (use assms(1) in \<open>auto simp: ns_ok_def\<close>)
  have h: "list_all hex_char (iconDigest sha src)" by (simp add: iconDigest_def hex_encode_chars)
  have "\<not> list_ex (\<lambda>c. c \<in> set ''/?#'') (iconDigest sha src)"
  proof
    assume "list_ex (\<lambda>c. c \<in> set ''/?#'') (iconDigest sha src)"
    then obtain c where "c \<in> set (iconDigest sha src)" "c \<in> set ''/?#''" unfolding list_ex_iff by blast
    moreover from this(1) have "hex_char c" using h unfolding list_all_iff by blast
    ultimately show False using hex_char_plain by blast
  qed
  moreover have "length (iconDigest sha src) = iconDigestLen"
    using assms(2) by (simp add: iconDigest_def length_hex_encode iconDigestLen_def)
  ultimately show ?thesis using c h assms(1) by (simp add: splitIconPath_def ns_ok_def)
qed

lemma classify_mint:
  assumes "classifyIcon u src = iconMint"
  shows "\<exists>scheme rest. scheme \<in> {''http'', ''https''} \<and> str_cut src ''://'' = Some (scheme, rest) \<and>
     (case str_cut rest ''/'' of None \<Rightarrow> rest | Some (h, _) \<Rightarrow> h) \<in> set (up_hosts u)"
proof (cases "str_cut src ''://''")
  case None
  with assms show ?thesis by (simp add: classifyIcon_def split: if_splits)
next
  case (Some p)
  obtain scheme rest where "p = (scheme, rest)" by fastforce
  with assms Some show ?thesis by (auto simp: classifyIcon_def Let_def simp del: insert_iff split: if_splits)
qed

definition shop :: upstream where
  "shop =
     \<lparr>up_ID = ''shop'', up_Namespace = ''shop'', up_sep = ''__'', up_hosts = [''shop.local''],
      up_iconBase = ''https://gw'', up_iconIndexTTL = 5, up_cacheTTL = 5, up_callerDerived = False\<rparr>"

definition shop_tools :: "nat \<Rightarrow> Tool list" where
  "shop_tools a =
     [\<lparr>tl_Name = ''buy'', tl_Meta = None, tl_Icons = [\<lparr>ic_Source = ''http://shop.local/i.png'', ic_Rest = ''''\<rparr>],
       tl_Annotations = None, tl_Rest = ''''\<rparr>]"

text \<open>
  C39. The memo of the public lists is invisible: in every state an upstream's views can reach, through
  any interleaving of list requests of both capability profiles, cache refills and icon lookups, a
  list handler is handed what rewriting the current list afresh would give, index-aligned with it.
\<close>

theorem memo_invisible:
  assumes "view_reach sha u ht hp hr st" "up_Namespace u \<noteq> ''''"
  shows "fst (namespacedTools sha u profile now (a, ht a) st) = map (seen_tool sha u) (ht a) \<and>
     fst (namespacedPrompts sha u profile now (a, hp a) st) = map (seen_prompt sha u) (hp a) \<and>
     fst (namespacedResources sha u profile now (a, hr a) st) = map (seen_resource sha u) (hr a)"
proof -
  have v: "view_ok (seen_tool sha u) ht (us_tools st profile)" "view_ok (seen_prompt sha u) hp (us_prompts st profile)"
    "view_ok (seen_resource sha u) hr (us_resources st profile)"
    using view_reach_inv [OF assms(1)] by (simp_all add: view_inv_def)
  show ?thesis
    using assms(2) tools_view.rewrite_pure [of sha u now "ht a" "us_iconIndex st"]
      prompts_view.rewrite_pure [of sha u now "hp a" "us_iconIndex st"]
      resources_view.rewrite_pure [of sha u now "hr a" "us_iconIndex st"]
      tools_view.memo_hit [OF v(1)] prompts_view.memo_hit [OF v(2)] resources_view.memo_hit [OF v(3)]
    by (auto simp: namespacedTools_def namespacedPrompts_def namespacedResources_def
        split: option.splits prod.splits)
qed

theorem memo_invisible_witness:
  "fst (namespacedTools id shop profileUI 3 (7, shop_tools 7) new_up_state) = map (seen_tool id shop) (shop_tools 7)"
  using memo_invisible [OF view_reach.init [of id shop shop_tools "\<lambda>_. []" "\<lambda>_. []"], of profileUI 3 7]
  by (simp add: shop_def)

text \<open>
  C38. The icon endpoint is no open proxy: in every reachable state of the federation's views, whatever
  path is requested, the source it resolves to is an \<open>http\<close> or \<open>https\<close> URL whose authority is one of
  the endpoints configured for the upstream the path names.
\<close>

theorem icon_source_on_own_host:
  assumes "\<forall>ns u. byNamespace ns = Some u \<longrightarrow> (\<exists>ht hp hr. view_reach sha u ht hp hr (sts ns))"
    and "iconOwner sha order passthrough byNamespace path now sts = (Some (u, src), sts')"
  shows "(\<exists>ns. byNamespace ns = Some u) \<and>
     (\<exists>scheme rest. scheme \<in> {''http'', ''https''} \<and> str_cut src ''://'' = Some (scheme, rest) \<and>
        (case str_cut rest ''/'' of None \<Rightarrow> rest | Some (h, _) \<Rightarrow> h) \<in> set (up_hosts u))"
proof -
  obtain ns digest where n: "splitIconPath path = Some (ns, digest)" "byNamespace ns = Some u"
    using assms(2) by (auto simp: iconOwner_def split: if_splits option.splits prod.splits bool.splits)
  obtain ht hp hr where r: "view_reach sha u ht hp hr (sts ns)" using assms(1) n(2) by blast
  obtain r1 idx where l1: "Load (us_iconIndex (sts ns)) digest now = (r1, idx)" by fastforce
  define st where "st = (sts ns)\<lparr>us_iconIndex := idx\<rparr>"
  have s1: "view_reach sha u ht hp hr st" using view_reach.lookup [OF r, of digest now] l1 by (simp add: st_def)
  obtain found st2 where x: "reindexIcons sha order u now st = (found, st2)" by fastforce
  have s2: "view_reach sha u ht hp hr st2" using view_reach.reindex [OF s1, of order now] x by simp
  have ok: "index_ok u (us_iconIndex (sts ns))" "index_ok u (us_iconIndex st2)"
    using view_reach_inv [OF r] view_reach_inv [OF s2] by (simp_all add: view_inv_def)
  have "classifyIcon u src = iconMint"
    using assms(2) n l1 x index_ok_load [OF ok(1) l1] index_ok_load [OF ok(2)]
    by (auto simp: iconOwner_def st_def [symmetric] split: if_splits option.splits prod.splits bool.splits)
  with n(2) classify_mint show ?thesis by blast
qed

definition shop_icon :: string where
  "shop_icon = ''http://shop.local/i.png''"

definition shop_state :: up_state where
  "shop_state = snd (namespacedTools id shop profilePlain 3 (0, shop_tools 0) new_up_state)"

lemma shop_icon_mint: "classifyIcon shop shop_icon = iconMint"
  by (simp add: classifyIcon_def shop_icon_def shop_def str_cut_def)

lemma shop_state_index:
  "us_iconIndex shop_state = Store_map (New_map iconIndexEntries) (iconDigest id shop_icon) shop_icon 5 3"
  using shop_icon_mint
  by (simp add: shop_state_def namespacedTools_def get_view_def no_view_def new_up_state_def shop_tools_def
      public_tool_def mintIcons_def shop_icon_def Let_def) (simp add: shop_def)

lemma shop_load: "fst (Load (us_iconIndex shop_state) (iconDigest id shop_icon) 4) = Some shop_icon"
  by (simp add: shop_state_index Load_def Store_map_def storeLocked_def New_map_def live_def iconIndexEntries_def
      fmap_len_def Let_def)

theorem icon_source_on_own_host_witness:
  "(\<exists>sts'. iconOwner id [] False [''shop'' \<mapsto> shop] (iconPathPrefix @ ''shop'' @ ''/'' @ iconDigest id shop_icon) 4
      (\<lambda>_. shop_state) = (Some (shop, shop_icon), sts')) \<and>
   (\<exists>scheme rest. scheme \<in> {''http'', ''https''} \<and> str_cut shop_icon ''://'' = Some (scheme, rest) \<and>
        (case str_cut rest ''/'' of None \<Rightarrow> rest | Some (h, _) \<Rightarrow> h) \<in> set (up_hosts shop))"
proof -
  have "ns_ok shop" by (simp add: ns_ok_def shop_def)
  then have p: "splitIconPath (iconPathPrefix @ ''shop'' @ ''/'' @ iconDigest id shop_icon) = Some (''shop'', iconDigest id shop_icon)"
    using split_icon_path [of shop id shop_icon] by (simp add: shop_def shop_icon_def)
  obtain idx where l: "Load (us_iconIndex shop_state) (iconDigest id shop_icon) 4 = (Some shop_icon, idx)"
    using shop_load by (metis prod.collapse)
  have o: "iconOwner id [] False [''shop'' \<mapsto> shop] (iconPathPrefix @ ''shop'' @ ''/'' @ iconDigest id shop_icon) 4
      (\<lambda>_. shop_state) = (Some (shop, shop_icon), (\<lambda>_. shop_state)(''shop'' := shop_state\<lparr>us_iconIndex := idx\<rparr>))"
    by (simp only: iconOwner_def p l option.case prod.case if_False fun_upd_same)
  have r: "view_reach id shop shop_tools (\<lambda>_. []) (\<lambda>_. []) shop_state"
    unfolding shop_state_def by (rule view_reach.tools [OF view_reach.init])
  have "\<forall>ns u. [''shop'' \<mapsto> shop] ns = Some u \<longrightarrow> (\<exists>ht hp hr. view_reach id u ht hp hr shop_state)"
    using r by (metis map_upd_Some_unfold option.distinct(1))
  then show ?thesis using icon_source_on_own_host [OF _ o] o by blast
qed

end
