(* ===== verification/Request_Meta.thy ===== *)
theory Request_Meta
  imports Json_Text
begin

section \<open>Connection-owned metadata\<close>

text \<open>
  The removal of the \<open>_meta\<close> keys that describe the connection a request came in on
  (src/gateway/meta.go), for requests the SDK has decoded (\<open>sanitizeRequestMeta\<close>, \<open>stripResultMeta\<close>)
  and for those forwarded as bytes (\<open>sanitizeRawMeta\<close>, gated by the byte scan \<open>skipRawScan\<close>).

  A decoded \<open>_meta\<close> is a \<open>json_map option\<close>, \<open>None\<close> the nil map. An empty \<open>json.RawMessage\<close> is
  \<open>None\<close>. The key an upstream stamps on its results is a constant of the SDK and an argument here; the
  three request keys are spelled out in the package's own tests.

  The theorems show that the byte scan is sound for every text, escapes included, that what is
  forwarded carries no connection-owned key in any member named \<open>_meta\<close> provided the last such member
  is an object, and that without this proviso it can.
\<close>

type_synonym RawMessage = "jtext option"

definition metaKeyPrefix :: string where
  "metaKeyPrefix = ''io.modelcontextprotocol/''"

definition connectionRequestMetaKeys :: "string list" where
  "connectionRequestMetaKeys =
     [''io.modelcontextprotocol/protocolVersion'', ''io.modelcontextprotocol/clientInfo'',
      ''io.modelcontextprotocol/clientCapabilities'']"

definition sanitizeRequestMeta :: "json_map option \<Rightarrow> json_map option" where
  "sanitizeRequestMeta meta =
     (case meta of
        None \<Rightarrow> None
      | Some m \<Rightarrow>
          if m = fmempty then meta
          else if \<not> list_ex (\<lambda>k. fmlookup m k \<noteq> None) connectionRequestMetaKeys then meta
          else Some (foldl (\<lambda>out k. fmdrop k out) m connectionRequestMetaKeys))"

definition skipRawScan :: "RawMessage \<Rightarrow> bool" where
  "skipRawScan raw =
     (case raw of
        None \<Rightarrow> True
      | Some t \<Rightarrow>
          if str_index (json_text t) metaKeyPrefix \<noteq> None then False
          else backslash \<notin> set (json_text t))"

definition sanitizeRawMeta :: "RawMessage \<Rightarrow> RawMessage" where
  "sanitizeRawMeta raw =
     (if skipRawScan raw then raw
      else case decode_map (the raw) of
        None \<Rightarrow> raw
      | Some params \<Rightarrow>
          (case fmlookup params ''_meta'' of
             None \<Rightarrow> raw
           | Some rawMeta \<Rightarrow>
               (case decode_map rawMeta of
                  None \<Rightarrow> raw
                | Some meta0 \<Rightarrow>
                    let meta = foldl (\<lambda>m k. fmdrop k m) meta0 connectionRequestMetaKeys;
                        params' = (if meta = fmempty then fmdrop ''_meta'' params
                                   else fmupd ''_meta'' (marshal_map meta) params)
                    in Some (marshal_map params'))))"

definition stripResultMeta :: "string \<Rightarrow> json_map option \<Rightarrow> json_map option" where
  "stripResultMeta serverInfo meta =
     (case meta of None \<Rightarrow> None | Some m \<Rightarrow> Some (fmdrop serverInfo m))"

subsection \<open>The decoded path\<close>

lemma foldl_fmdrop: "fmlookup (foldl (\<lambda>m k. fmdrop k m) m ks) x = (if x \<in> set ks then None else fmlookup m x)"
  by (induction ks arbitrary: m) auto

lemma sanitizeRequestMeta_lookup:
  "Option.bind (sanitizeRequestMeta meta) (\<lambda>m. fmlookup m k) =
     (if k \<in> set connectionRequestMetaKeys then None else Option.bind meta (\<lambda>m. fmlookup m k))"
  by (auto simp: sanitizeRequestMeta_def foldl_fmdrop list_ex_iff split: option.splits)

subsection \<open>The byte scan\<close>

text \<open>The values of all members of that name, and the names of an object's members, as decoded.\<close>

definition values_of :: "string \<Rightarrow> jtext \<Rightarrow> jtext list" where
  "values_of k t = (case t of TObj ms \<Rightarrow> map snd (filter (\<lambda>m. unquote (fst m) = k) ms) | _ \<Rightarrow> [])"

definition names_of :: "jtext \<Rightarrow> string list" where
  "names_of t = (case t of TObj ms \<Rightarrow> map (unquote \<circ> fst) ms | _ \<Rightarrow> [])"

definition carries :: "jtext \<Rightarrow> bool" where
  "carries t \<longleftrightarrow>
     list_ex (\<lambda>v. list_ex (\<lambda>k. k \<in> set connectionRequestMetaKeys) (names_of v)) (values_of ''_meta'' t)"

lemma sublist_mid: "sublist p b \<Longrightarrow> sublist p (a @ b @ c)"
  by (metis sublist_def append_assoc)

lemma sublist_join: "p \<in> set ps \<Longrightarrow> sublist p (str_join sep ps)"
proof (induction sep ps rule: str_join.induct)
  case (3 sep p' q ps)
  then show ?case using sublist_mid [of p p' "[]"] sublist_mid [of p _ "p' @ sep" "[]"] by auto
qed auto

lemma sublist_member:
  "(l, v) \<in> set ms \<Longrightarrow> sublist (lit_text l @ '':'' @ json_text v) (json_text (TObj ms))"
  by (simp only: json_text.simps) (rule sublist_mid, rule sublist_join, force)

lemma sublist_value: "v \<in> set (values_of k t) \<Longrightarrow> sublist (json_text v) (json_text t)"
proof -
  assume "v \<in> set (values_of k t)"
  then obtain l ms where l: "(l, v) \<in> set ms" "t = TObj ms"
    by (auto simp: values_of_def split: jtext.splits)
  then show ?thesis
    using sublist_member [OF l(1)] sublist_mid [of "json_text v" "json_text v" "lit_text l @ '':''" "[]"]
    by (auto intro: sublist_order.order_trans)
qed

lemma sublist_name: "TObj ms = t \<Longrightarrow> (l, v) \<in> set ms \<Longrightarrow> sublist (lit_text l) (json_text t)"
  using sublist_member [of l v ms] sublist_mid [of "lit_text l" "lit_text l" "[]" "'':'' @ json_text v"]
  by (auto intro: sublist_order.order_trans)

text \<open>
  Without a backslash a literal denotes its own bytes, except for bytes that are no code point, and
  those decode to the three bytes of U+FFFD, none of which is ASCII.
\<close>

lemma utf8_replacement: "utf8 65533 = [CHR 0xEF, CHR 0xBF, CHR 0xBD]"
  by (simp add: utf8_def char_of_eq)

lemma unquote_plain:
  assumes "backslash \<notin> set (lit_text l)" "CHR 0xEF \<notin> set (unquote l)"
  shows "lit_text l = ''\"'' @ unquote l @ ''\"''"
proof -
  have "backslash \<notin> set (concat (map piece_text l)) \<Longrightarrow> CHR 0xEF \<notin> set (unquote l) \<Longrightarrow>
    concat (map piece_text l) = unquote l"
  proof (induction l)
    case (Cons p l)
    then show ?case by (cases p) (auto simp: utf8_replacement)
  qed simp
  with assms show ?thesis by (simp add: lit_text_def)
qed

lemma key_in_text:
  assumes "unquote l \<in> set connectionRequestMetaKeys" "backslash \<notin> set (lit_text l)"
  shows "sublist metaKeyPrefix (lit_text l)"
proof -
  have "CHR 0xEF \<notin> set (unquote l)" "prefix metaKeyPrefix (unquote l)"
    using assms(1) by (auto simp: connectionRequestMetaKeys_def metaKeyPrefix_def)
  then show ?thesis using unquote_plain [OF assms(2)]
    by (metis sublist_mid prefix_imp_sublist)
qed

lemma skip_no_key:
  assumes "skipRawScan (Some t)"
  shows "\<not> carries t"
proof
  assume "carries t"
  then obtain v l w ms where v: "v \<in> set (values_of ''_meta'' t)" "v = TObj ms" "(l, w) \<in> set ms"
    "unquote l \<in> set connectionRequestMetaKeys"
    by (auto simp: carries_def list_ex_iff names_of_def split: jtext.splits)
  have s: "sublist (lit_text l) (json_text t)"
    using sublist_order.order_trans [OF sublist_name [OF v(2) [symmetric] v(3)] sublist_value [OF v(1)]] .
  have "backslash \<notin> set (lit_text l)" using assms s by (auto simp: skipRawScan_def split: if_splits dest: set_mono_sublist)
  then have "sublist metaKeyPrefix (json_text t)"
    using key_in_text [OF v(4)] s by (auto intro: sublist_order.order_trans)
  then show False using assms by (simp add: skipRawScan_def str_index_None_iff)
qed

subsection \<open>What is forwarded\<close>

text \<open>What a text denotes: literals resolved, members in order.\<close>

datatype meaning =
    MNull
  | MBool bool
  | MNum string
  | MStr string
  | MArr "meaning list"
  | MObj "(string \<times> meaning) list"

primrec denote :: "jtext \<Rightarrow> meaning" where
  "denote TNull = MNull"
| "denote (TBool b) = MBool b"
| "denote (TNum s) = MNum s"
| "denote (TStr ps) = MStr (unquote ps)"
| "denote (TArr xs) = MArr (map denote xs)"
| "denote (TObj ms) = MObj (map (\<lambda>(k, t). (unquote k, t)) (map (map_prod (\<lambda>k. k) denote) ms))"

text \<open>The value a decoder that keeps the last member sees under a name.\<close>

definition seen_at :: "string \<Rightarrow> jtext \<Rightarrow> meaning option" where
  "seen_at k t = (if values_of k t = [] then None else Some (denote (last (values_of k t))))"

lemma denote_html [simp]: "denote (html t) = denote t"
  by (induction t) (force simp: map_idI)+

lemma names_of_html [simp]: "names_of (html t) = names_of t"
  by (cases t) (auto simp: names_of_def)

lemma names_of_marshal: "set (names_of (marshal_map m)) = fset (fmdom m)"
  by (auto simp: names_of_def marshal_map_def)

lemma filter_eq_distinct: "distinct xs \<Longrightarrow> filter (\<lambda>x. x = k) xs = (if k \<in> set xs then [k] else [])"
  by (induction xs) auto

lemma values_of_marshal:
  "values_of k (marshal_map m) = (case fmlookup m k of None \<Rightarrow> [] | Some v \<Rightarrow> [html v])"
  by (simp add: values_of_def marshal_map_def filter_map comp_def filter_eq_distinct
      distinct_sorted_list_of_set sorted_list_of_fset.rep_eq fmlookup_dom_iff split: option.splits)

lemma members_snoc: "members (ms @ [(k, v)]) = fmupd (unquote k) v (members ms)"
  by (simp add: members_def)

lemma members_lookup:
  "fmlookup (members ms) k =
     (if values_of k (TObj ms) = [] then None else Some (last (values_of k (TObj ms))))"
proof (induction ms rule: rev_induct)
  case Nil
  then show ?case by (simp add: members_def values_of_def)
next
  case (snoc m ms)
  then show ?case by (cases m) (auto simp: members_snoc values_of_def)
qed

lemma decode_map_lookup:
  "decode_map t = Some m \<Longrightarrow>
   fmlookup m k = (if values_of k t = [] then None else Some (last (values_of k t)))"
  by (cases t) (auto simp: decode_map_def members_lookup values_of_def)

lemma seen_at_decode: "decode_map t = Some m \<Longrightarrow> seen_at k t = map_option denote (fmlookup m k)"
  by (simp add: seen_at_def decode_map_lookup)

lemma seen_at_marshal: "seen_at k (marshal_map m) = map_option denote (fmlookup m k)"
  by (simp add: seen_at_def values_of_marshal split: option.splits)

lemma meta_clean:
  assumes "meta = foldl (\<lambda>m k. fmdrop k m) meta0 connectionRequestMetaKeys"
  shows "\<not> list_ex (\<lambda>k. k \<in> set connectionRequestMetaKeys) (names_of (marshal_map meta))"
  using assms by (auto simp: list_ex_iff names_of_marshal fmlookup_dom_iff foldl_fmdrop)

lemma sanitize_cases:
  obtains (raw) "sanitizeRawMeta (Some t) = Some t" "skipRawScan (Some t) \<or> decode_map t = None \<or>
      values_of ''_meta'' t = [] \<or> decode_map (last (values_of ''_meta'' t)) = None"
  | (coded) params meta0 where "decode_map t = Some params" "values_of ''_meta'' t \<noteq> []"
      "decode_map (last (values_of ''_meta'' t)) = Some meta0"
      "sanitizeRawMeta (Some t) = Some (marshal_map
         (let meta = foldl (\<lambda>m k. fmdrop k m) meta0 connectionRequestMetaKeys
          in if meta = fmempty then fmdrop ''_meta'' params else fmupd ''_meta'' (marshal_map meta) params))"
proof (cases "skipRawScan (Some t)")
  case True
  then show ?thesis using raw by (simp add: sanitizeRawMeta_def)
next
  case no_skip: False
  show ?thesis
  proof (cases "decode_map t")
    case None
    then show ?thesis using raw no_skip by (simp add: sanitizeRawMeta_def)
  next
    case (Some params)
    note p = this decode_map_lookup [OF this, of "''_meta''"]
    show ?thesis
    proof (cases "values_of ''_meta'' t = []")
      case True
      then show ?thesis using raw no_skip p by (simp add: sanitizeRawMeta_def)
    next
      case False
      then show ?thesis
        using raw coded [OF p(1) False] no_skip p
        by (cases "decode_map (last (values_of ''_meta'' t))") (simp_all add: sanitizeRawMeta_def Let_def)
    qed
  qed
qed

definition meta_params :: "jtext \<Rightarrow> jtext" where
  "meta_params last_meta =
     TObj [(quote ''taskId'', TStr (quote ''t-1'')),
           (quote ''_meta'', TObj [(Uni ''0069'' # quote ''o.modelcontextprotocol/clientInfo'', TObj [])]),
           (quote ''_meta'', last_meta)]"

text \<open>
  C37. What is forwarded as bytes describes no connection that ended at the gateway: whatever escapes
  and duplicate members the caller writes, if the last member named \<open>_meta\<close> is an object or null (or
  there is none), then no member named \<open>_meta\<close> of the forwarded text has a connection-owned key, and
  every other member still denotes the value it had.
\<close>

theorem forwarded_meta_clean:
  assumes "values_of ''_meta'' t \<noteq> [] \<longrightarrow> decode_map (last (values_of ''_meta'' t)) \<noteq> None"
  shows "\<exists>t'. sanitizeRawMeta (Some t) = Some t' \<and> \<not> carries t' \<and>
     (\<forall>k. k \<noteq> ''_meta'' \<longrightarrow> seen_at k t' = seen_at k t)"
proof (cases t rule: sanitize_cases)
  case raw
  have "\<not> carries t" if "values_of ''_meta'' t = []" using that by (simp add: carries_def)
  moreover have "decode_map t = None \<Longrightarrow> values_of ''_meta'' t = []" by (cases t) (simp_all add: decode_map_def values_of_def)
  ultimately have "\<not> carries t"
    using assms raw(2) skip_no_key [of t] by (cases "values_of ''_meta'' t = []") auto
  with raw show ?thesis by simp
next
  case (coded params meta0)
  define meta where "meta = foldl (\<lambda>m k. fmdrop k m) meta0 connectionRequestMetaKeys"
  define out where "out = (if meta = fmempty then fmdrop ''_meta'' params else fmupd ''_meta'' (marshal_map meta) params)"
  have "sanitizeRawMeta (Some t) = Some (marshal_map out)"
    using coded(4) by (simp add: out_def meta_def Let_def)
  moreover have "\<not> carries (marshal_map out)"
    using meta_clean [OF meta_def] by (auto simp: carries_def values_of_marshal out_def split: option.splits if_splits)
  moreover have "seen_at k (marshal_map out) = seen_at k t" if "k \<noteq> ''_meta''" for k
    using that by (simp add: seen_at_marshal seen_at_decode [OF coded(1)] out_def)
  ultimately show ?thesis by blast
qed

theorem forwarded_meta_clean_witness:
  "\<exists>t'. sanitizeRawMeta (Some (meta_params (TObj []))) = Some t' \<and> \<not> carries t' \<and>
     (\<forall>k. k \<noteq> ''_meta'' \<longrightarrow> seen_at k t' = seen_at k (meta_params (TObj [])))"
  by (rule forwarded_meta_clean) (simp add: meta_params_def values_of_def decode_map_def del: quote.simps)

text \<open>
  C34. The duplicate-member hole is open when the last \<open>_meta\<close> is no object: a text whose first \<open>_meta\<close>
  has a connection-owned key and whose last one is a string is forwarded unchanged, so an upstream
  whose parser keeps the first member of a name reads the key.
\<close>

theorem duplicate_meta_forwarded:
  "sanitizeRawMeta (Some (meta_params (TStr []))) = Some (meta_params (TStr [])) \<and>
   carries (meta_params (TStr []))"
proof
  have k: "unquote (Uni ''0069'' # quote ''o.modelcontextprotocol/clientInfo'') = ''io.modelcontextprotocol/clientInfo''"
    by (simp add: hex4_def hex_value_def surrogate_def utf8_def char_of_eq del: quote.simps)
  show "carries (meta_params (TStr []))"
    by (simp add: carries_def meta_params_def values_of_def names_of_def k connectionRequestMetaKeys_def
        del: quote.simps unquote.simps)
  show "sanitizeRawMeta (Some (meta_params (TStr []))) = Some (meta_params (TStr []))"
    by (cases "meta_params (TStr [])" rule: sanitize_cases)
      (simp_all add: meta_params_def values_of_def decode_map_def del: quote.simps)
qed

end
