(* ===== verification/Task_Routing.thy ===== *)
theory Task_Routing
  imports Request_Meta Pagination Shared_State Ui_Resource Fan_Out "HOL-Library.Product_Lexorder" "HOL-Library.AList"
begin

section \<open>Federated tasks\<close>

text \<open>
  Ownership of tasks and the routing of the task methods (src/gateway/tasks.go). A record is what the
  shared store holds under the digest of a task id: the upstream that owns the task and a digest
  of the principal it was minted for, kept as the JSON the code marshals. The store is the in-memory
  provider's; each request reads the clock once.

  Arguments: \<open>sha256\<close>, the JSON functions of cursors, what an upstream answers to a task call, and
  the order in which a Go map of writes is ranged over.

  \<open>routeTask\<close> returns the answer, the calls it forwarded and the store. The theorems: an owner on
  record is never replaced, another principal's task is answered like an unknown one and never
  forwarded, a list shows no task of another principal, and two ways in which the code fails this:
  a parameter object with two spellings of \<open>taskId\<close>, and the refresh that writes back what it read.
\<close>

subsection \<open>Decoding into structs\<close>

text \<open>
  \<open>encoding/json\<close> matches the members of an object to the fields of a struct exactly or, failing
  that, up to case folding; among the letters that fold to ASCII are the Kelvin sign and the long s.
\<close>

definition lower_char :: "char \<Rightarrow> char" where
  "lower_char c = (let n = of_char c :: nat in if 65 \<le> n \<and> n \<le> 90 then char_of (n + 32) else c)"

fun foldName :: "string \<Rightarrow> string" where
  "foldName [] = []"
| "foldName (a # s) =
     (case s of
        b # s' \<Rightarrow>
          if a = CHR 0xC5 \<and> b = CHR 0xBF then CHR ''s'' # foldName s'
          else (case s' of
                  c # s'' \<Rightarrow>
                    if a = CHR 0xE2 \<and> b = CHR 0x84 \<and> c = CHR 0xAA then CHR ''k'' # foldName s''
                    else lower_char a # foldName s
                | [] \<Rightarrow> lower_char a # foldName s)
      | [] \<Rightarrow> [lower_char a])"

definition key_matches :: "piece list \<Rightarrow> string \<Rightarrow> bool" where
  "key_matches k name \<longleftrightarrow> unquote k = name \<or> foldName (unquote k) = foldName name"

text \<open>A string field after decoding; a value of another type is an error and leaves the field alone.\<close>

definition string_field :: "string \<Rightarrow> jtext \<Rightarrow> string" where
  "string_field name t =
     (case t of
        TObj ms \<Rightarrow>
          foldl (\<lambda>acc (k, v). if key_matches k name then (case v of TStr ps \<Rightarrow> unquote ps | _ \<Rightarrow> acc) else acc) '''' ms
      | _ \<Rightarrow> '''')"

definition fields_ok :: "string list \<Rightarrow> jtext \<Rightarrow> bool" where
  "fields_ok names t =
     (case t of
        TNull \<Rightarrow> True
      | TObj ms \<Rightarrow>
          list_all (\<lambda>(k, v). list_ex (key_matches k) names \<longrightarrow> (case v of TStr _ \<Rightarrow> True | TNull \<Rightarrow> True | _ \<Rightarrow> False)) ms
      | _ \<Rightarrow> False)"

text \<open>The page of an upstream's \<open>tasks/list\<close>, or \<open>None\<close> where decoding fails.\<close>

definition tasks_field :: "jtext \<Rightarrow> jtext list option" where
  "tasks_field t =
     (case t of
        TNull \<Rightarrow> Some []
      | TObj ms \<Rightarrow>
          foldl (\<lambda>acc (k, v).
              if key_matches k ''tasks''
              then (case v of TArr xs \<Rightarrow> map_option (\<lambda>_. xs) acc | TNull \<Rightarrow> map_option (\<lambda>_. []) acc | _ \<Rightarrow> None)
              else acc) (Some []) ms
      | _ \<Rightarrow> None)"

subsection \<open>Ownership records\<close>

definition methodTasksGet :: string where "methodTasksGet = ''tasks/get''"
definition methodTasksList :: string where "methodTasksList = ''tasks/list''"
definition metaMintedTask :: string where "metaMintedTask = ''task''"
definition taskOwnerTTL :: duration where "taskOwnerTTL = 24 * hour"

record taskRecord =
  tr_upstreamID :: string
  tr_owner :: string

type_synonym taskOwners = "jtext MemStore"

definition taskOwnerKey :: "(string \<Rightarrow> string) \<Rightarrow> Principal option \<Rightarrow> string" where
  "taskOwnerKey sha op =
     (case op of None \<Rightarrow> '''' | Some p \<Rightarrow> hex_encode (sha (p_Issuer p @ [nul] @ p_Subject p)))"

definition task_key :: "(string \<Rightarrow> string) \<Rightarrow> string \<Rightarrow> string" where
  "task_key sha taskID = hex_encode (sha taskID)"

text \<open>The stored form; \<open>omitempty\<close> leaves an empty owner out.\<close>

definition wireTaskRecord :: "taskRecord \<Rightarrow> jtext" where
  "wireTaskRecord r =
     TObj ((quote ''u'', TStr (quote (tr_upstreamID r))) #
           (if tr_owner r = '''' then [] else [(quote ''o'', TStr (quote (tr_owner r)))]))"

definition decodeTaskRecord :: "jtext \<Rightarrow> taskRecord option" where
  "decodeTaskRecord data =
     (if \<not> fields_ok [''u'', ''o''] data \<or> string_field ''u'' data = '''' then None
      else Some \<lparr>tr_upstreamID = string_field ''u'' data, tr_owner = string_field ''o'' data\<rparr>)"

definition load_task :: "(string \<Rightarrow> string) \<Rightarrow> taskOwners \<Rightarrow> string \<Rightarrow> time \<Rightarrow> taskRecord option \<times> taskOwners" where
  "load_task sha s taskID now =
     (case Get_store s (task_key sha taskID) now of
        (None, s') \<Rightarrow> (None, s')
      | (Some data, s') \<Rightarrow> (decodeTaskRecord data, s'))"

fun byKey_loop :: "(string \<Rightarrow> string) \<Rightarrow> (string \<times> string) list \<Rightarrow> string list \<Rightarrow> (string \<times> string) list" where
  "byKey_loop sha acc [] = acc"
| "byKey_loop sha acc (i # ids) =
     (let k = task_key sha i in
      byKey_loop sha (if k \<in> fst ` set acc then acc else acc @ [(k, i)]) ids)"

definition loadMany ::
  "(string \<Rightarrow> string) \<Rightarrow> taskOwners \<Rightarrow> string list \<Rightarrow> time \<Rightarrow> (string \<Rightarrow> taskRecord option) \<times> taskOwners" where
  "loadMany sha s ids now =
     (let byKey = byKey_loop sha [] ids in
      case GetMany_store s (map fst byKey) now of (found, s') \<Rightarrow>
        (\<lambda>i. case find (\<lambda>p. snd p = i) byKey of
               None \<Rightarrow> None
             | Some (k, _) \<Rightarrow> Option.bind (fmlookup found k) decodeTaskRecord, s'))"

definition put_task :: "(string \<Rightarrow> string) \<Rightarrow> taskOwners \<Rightarrow> string \<Rightarrow> taskRecord \<Rightarrow> time \<Rightarrow> taskOwners" where
  "put_task sha s taskID rec now = Set_store s (task_key sha taskID) (wireTaskRecord rec) taskOwnerTTL now"

definition putMany :: "(string \<Rightarrow> string) \<Rightarrow> taskOwners \<Rightarrow> (string \<times> taskRecord) list \<Rightarrow> time \<Rightarrow> taskOwners" where
  "putMany sha s recs now =
     (if recs = [] then s
      else SetMany_store s (map (\<lambda>(i, r). (task_key sha i, wireTaskRecord r)) recs) taskOwnerTTL now)"

definition delete_task :: "(string \<Rightarrow> string) \<Rightarrow> taskOwners \<Rightarrow> string \<Rightarrow> taskOwners" where
  "delete_task sha s taskID = Delete_store s (task_key sha taskID)"

definition mergeTaskOwner :: "taskRecord option \<Rightarrow> string \<Rightarrow> string \<Rightarrow> taskRecord" where
  "mergeTaskOwner old upstreamID owner =
     \<lparr>tr_upstreamID = upstreamID,
      tr_owner = (case old of
                    Some r \<Rightarrow> if tr_owner r \<noteq> '''' then tr_owner r else owner
                  | None \<Rightarrow> owner)\<rparr>"

definition storeTaskAffinity ::
  "(string \<Rightarrow> string) \<Rightarrow> taskOwners \<Rightarrow> string \<Rightarrow> string \<Rightarrow> string \<Rightarrow> time \<Rightarrow> taskOwners" where
  "storeTaskAffinity sha s taskID upstreamID owner now =
     (case load_task sha s taskID now of (old, s') \<Rightarrow>
        put_task sha s' taskID (mergeTaskOwner old upstreamID owner) now)"

definition extractTaskID :: "RawMessage \<Rightarrow> string" where
  "extractTaskID raw = (case raw of None \<Rightarrow> '''' | Some t \<Rightarrow> string_field ''taskId'' t)"

definition noteMintedTask ::
  "(string \<Rightarrow> string) \<Rightarrow> taskOwners \<Rightarrow> Principal option \<Rightarrow> string \<Rightarrow> json_map option \<Rightarrow> time \<Rightarrow> taskOwners" where
  "noteMintedTask sha s op upID meta now =
     (case meta of
        None \<Rightarrow> s
      | Some m \<Rightarrow>
          (case fmlookup m metaMintedTask of
             Some (JObj task) \<Rightarrow>
               (case fmlookup task ''taskId'' of
                  Some (JStr i) \<Rightarrow>
                    if i \<noteq> '''' then storeTaskAffinity sha s i upID (taskOwnerKey sha op) now else s
                | _ \<Rightarrow> s)
           | _ \<Rightarrow> s))"

subsection \<open>Routing a task method\<close>

text \<open>
  The part of the routing snapshot and of the gateway that the task methods use. \<open>callTask\<close> is what an
  upstream answers, through its guard, to a method with a parameter object.
\<close>

record task_env =
  te_codec :: codec
  te_upstreams :: "upstream list"
  te_byID :: "string \<Rightarrow> upstream option"
  te_pageSize :: int
  te_callTask :: "upstream \<Rightarrow> string \<Rightarrow> RawMessage \<Rightarrow> jtext answer"
  te_order :: "(string \<times> taskRecord) list \<Rightarrow> (string \<times> taskRecord) list"

type_synonym task_call = "upstream \<times> string \<times> RawMessage"
type_synonym task_reply = "(wire_error + jtext) \<times> task_call list \<times> taskOwners"

definition of_answer :: "'r answer \<Rightarrow> wire_error + 'r" where
  "of_answer a = (case a of Answered r \<Rightarrow> Inr r | Failed e \<Rightarrow> Inl e | Panicked \<Rightarrow> Inl InternalPanic)"

definition probe_params :: "string \<Rightarrow> RawMessage" where
  "probe_params taskID = Some (TObj [(quote ''taskId'', TStr (quote taskID))])"

definition locateTaskOwner :: "task_env \<Rightarrow> tenant option \<Rightarrow> string \<Rightarrow> upstream option \<times> task_call list" where
  "locateTaskOwner env ot taskID =
     (let ups = visibleUpstreams up_ID ot (te_upstreams env);
          (results, _) = fanOut up_ID ups (\<lambda>u. te_callTask env u methodTasksGet (probe_params taskID))
      in (map_option fst (find (\<lambda>p. snd p \<noteq> None) (zip ups results)),
          map (\<lambda>u. (u, methodTasksGet, probe_params taskID)) ups))"

text \<open>Listed tasks with the upstream that returned them, and the loop that hides other callers' tasks.\<close>

definition listed :: "upstream list \<Rightarrow> jtext option list \<Rightarrow> (jtext \<times> string \<times> string) list" where
  "listed ups results =
     concat (map (\<lambda>(u, r).
       (case Option.bind r tasks_field of
          None \<Rightarrow> []
        | Some ts \<Rightarrow> map (\<lambda>t. (t, extractTaskID (Some t), up_ID u)) ts)) (zip ups results))"

fun list_loop ::
  "string \<Rightarrow> (string \<Rightarrow> taskRecord option) \<Rightarrow> (jtext \<times> string \<times> string) list
     \<Rightarrow> (string \<times> taskRecord) list \<Rightarrow> jtext list \<Rightarrow> (string \<times> taskRecord) list \<times> jtext list" where
  "list_loop caller known [] writes merged = (writes, merged)"
| "list_loop caller known ((t, i, up) # ls) writes merged =
     (if i \<noteq> ''''
      then let old = known i;
               rec = mergeTaskOwner old up '''';
               writes' = (if old \<noteq> Some rec then AList.update i rec writes else writes)
           in if tr_owner rec \<noteq> '''' \<and> tr_owner rec \<noteq> caller then list_loop caller known ls writes' merged
              else list_loop caller known ls writes' (merged @ [t])
      else list_loop caller known ls writes (merged @ [t]))"

definition sort_tasks :: "jtext list \<Rightarrow> jtext list" where
  "sort_tasks ts = sort_key (\<lambda>t. (extractTaskID (Some t), json_text t)) ts"

text \<open>\<open>json.Marshal\<close> of the result: members in the order of their names.\<close>

definition failure_text :: "string list \<Rightarrow> jtext" where
  "failure_text failed =
     TObj [(quote metaPartialFailure, TObj [(quote ''failedUpstreams'', TArr (map (TStr \<circ> quote) failed))])]"

definition tasks_result :: "jtext list \<Rightarrow> string \<Rightarrow> jtext option \<Rightarrow> jtext" where
  "tasks_result page nxt meta =
     TObj ((case meta of None \<Rightarrow> [] | Some m \<Rightarrow> [(quote ''_meta'', m)]) @
           (if nxt \<noteq> '''' then [(quote ''nextCursor'', TStr (quote nxt))] else []) @
           [(quote ''tasks'', TArr (map html page))])"

definition cursor_field :: "RawMessage \<Rightarrow> string" where
  "cursor_field raw = (case raw of None \<Rightarrow> '''' | Some t \<Rightarrow> string_field ''cursor'' t)"

definition listTasks ::
  "task_env \<Rightarrow> tenant option \<Rightarrow> Principal option \<Rightarrow> string \<Rightarrow> RawMessage \<Rightarrow> time \<Rightarrow> taskOwners \<Rightarrow> task_reply" where
  "listTasks env ot op caller raw now s =
     (let empty = Some (TObj []);
          ups = visibleUpstreams up_ID ot (te_upstreams env);
          (results, failed) = fanOut up_ID ups (\<lambda>u. te_callTask env u methodTasksList empty);
          calls = map (\<lambda>u. (u, methodTasksList, empty)) ups
      in case partialFailureMeta failed (length ups) of
           Inl e \<Rightarrow> (Inl e, calls, s)
         | Inr meta \<Rightarrow>
             let ls = listed ups results;
                 ids = filter (\<lambda>i. i \<noteq> '''') (map (fst \<circ> snd) ls);
                 (known, s1) = loadMany (sha256 (te_codec env)) s ids now;
                 (writes, merged) = list_loop caller known ls [] [];
                 s2 = putMany (sha256 (te_codec env)) s1 (te_order env writes) now
             in case paginate (te_codec env) (sort_tasks merged) (\<lambda>t. extractTaskID (Some t)) ''tasks''
                       (cursor_field raw) (te_pageSize env) op of
                  None \<Rightarrow> (Inl InternalPanic, calls, s2)
                | Some (Inl e) \<Rightarrow> (Inl e, calls, s2)
                | Some (Inr (page, nxt)) \<Rightarrow>
                    (Inr (tasks_result page nxt (map_option (\<lambda>_. failure_text failed) meta)), calls, s2))"

definition routeTask ::
  "task_env \<Rightarrow> tenant option \<Rightarrow> Principal option \<Rightarrow> string \<Rightarrow> RawMessage \<Rightarrow> time \<Rightarrow> taskOwners \<Rightarrow> task_reply" where
  "routeTask env ot op mth raw0 now s =
     (let sha = sha256 (te_codec env);
          raw = sanitizeRawMeta raw0;
          caller = taskOwnerKey sha op
      in if mth = methodTasksList then listTasks env ot op caller raw now s
         else let taskID = extractTaskID raw in
              if taskID = '''' then (Inl (InvalidParams ''task method requires a taskId''), [], s)
              else (case load_task sha s taskID now of (rec, s1) \<Rightarrow>
                let probe =
                      (case locateTaskOwner env ot taskID of
                         (None, calls) \<Rightarrow> (Inl (TaskNotFound taskID), calls, s1)
                       | (Some u, calls) \<Rightarrow>
                           (of_answer (te_callTask env u mth raw), calls @ [(u, mth, raw)],
                            storeTaskAffinity sha s1 taskID (up_ID u) '''' now))
                in case rec of
                     None \<Rightarrow> probe
                   | Some r \<Rightarrow>
                       if tr_owner r \<noteq> '''' \<and> tr_owner r \<noteq> caller
                       then (Inl (TaskNotFound taskID), [], s1)
                       else if \<not> sees ot (tr_upstreamID r)
                       then (Inl (TaskNotFound taskID), [], s1)
                       else (case te_byID env (tr_upstreamID r) of
                               None \<Rightarrow> probe
                             | Some u \<Rightarrow>
                                 (of_answer (te_callTask env u mth raw), [(u, mth, raw)],
                                  put_task sha s1 taskID r now))))"

subsection \<open>The store as a map of records\<close>

definition rec_at :: "taskOwners \<Rightarrow> time \<Rightarrow> string \<Rightarrow> taskRecord option" where
  "rec_at s t k = Option.bind (map_view s t k) decodeTaskRecord"

lemma key_matches_quote [simp]: "key_matches (quote k) name \<longleftrightarrow> k = name \<or> foldName k = foldName name"
  by (simp add: key_matches_def)

lemma foldName_uo: "foldName ''u'' \<noteq> foldName ''o''"
  by (simp add: lower_char_def)

lemma decode_wire [simp]:
  "decodeTaskRecord (wireTaskRecord r) = (if tr_upstreamID r = '''' then None else Some r)"
proof -
  have n: "foldName ''u'' \<noteq> foldName ''o''" "foldName ''o'' \<noteq> foldName ''u''" using foldName_uo by simp_all
  show ?thesis
    by (cases r) (simp add: decodeTaskRecord_def wireTaskRecord_def fields_ok_def string_field_def n
        del: foldName.simps quote.simps)
qed

lemma load_task_spec:
  assumes "one_home s"
  shows "fst (load_task sha s i now) = rec_at s now (task_key sha i)"
    "one_home (snd (load_task sha s i now))"
    "now \<le> t \<Longrightarrow> map_view (snd (load_task sha s i now)) t = map_view s t"
proof -
  obtain s' where g: "Get_store s (task_key sha i) now = (map_view s now (task_key sha i), s')"
    using ms.get_result [OF assms, of "task_key sha i" now] by (metis prod.collapse)
  then have l: "load_task sha s i now = (rec_at s now (task_key sha i), s')"
    by (cases "map_view s now (task_key sha i)") (simp_all add: load_task_def rec_at_def)
  show "fst (load_task sha s i now) = rec_at s now (task_key sha i)" by (simp add: l)
  show "one_home (snd (load_task sha s i now))"
    using ms.get_invar [OF assms, of "task_key sha i" now] by (simp add: l g)
  show "now \<le> t \<Longrightarrow> map_view (snd (load_task sha s i now)) t = map_view s t"
    using ms.get_view [OF assms, of now t "task_key sha i"] by (simp add: l g)
qed

lemma hex_digit_inj: "m < 16 \<Longrightarrow> n < 16 \<Longrightarrow> hex_digit m = hex_digit n \<Longrightarrow> m = n"
  by (metis hex_value_low hex_low_def hex_digit_def)

lemma hex_encode_inj: "hex_encode s = hex_encode t \<Longrightarrow> s = t"
proof (induction s arbitrary: t)
  case Nil
  then show ?case by (cases t) (simp_all add: hex_encode_def)
next
  case (Cons c s)
  then obtain d t' where t: "t = d # t'" by (cases t) (auto simp: hex_encode_def)
  define m n where "m = (of_char c :: nat)" and "n = (of_char d :: nat)"
  have "m < 256" "n < 256" by (simp_all add: m_def n_def)
  then have "m div 16 < 16" "n div 16 < 16" by (auto intro: less_mult_imp_div_less)
  moreover have "hex_digit (m div 16) = hex_digit (n div 16)" "hex_digit (m mod 16) = hex_digit (n mod 16)"
    "hex_encode s = hex_encode t'"
    using Cons.prems by (simp_all add: t hex_encode_def m_def n_def)
  ultimately have "m div 16 = n div 16" "m mod 16 = n mod 16" "s = t'"
    using hex_digit_inj Cons.IH by simp_all
  then have "m = n" by (metis div_mult_mod_eq)
  then show ?case using \<open>s = t'\<close> by (simp add: t m_def n_def)
qed

lemma task_key_inj: "inj_on sha A \<Longrightarrow> inj_on (task_key sha) A"
  unfolding task_key_def inj_on_def using hex_encode_inj by blast

lemma byKey_loop_pairs:
  "\<forall>p \<in> set acc. fst p = task_key sha (snd p) \<Longrightarrow> p \<in> set (byKey_loop sha acc ids) \<Longrightarrow>
     fst p = task_key sha (snd p) \<and> snd p \<in> snd ` set acc \<union> set ids"
proof (induction ids arbitrary: acc)
  case (Cons j ids)
  define acc' where "acc' = (if task_key sha j \<in> fst ` set acc then acc else acc @ [(task_key sha j, j)])"
  have "byKey_loop sha acc (j # ids) = byKey_loop sha acc' ids" by (simp add: acc'_def Let_def)
  moreover have "\<forall>p \<in> set acc'. fst p = task_key sha (snd p)" using Cons.prems(1) by (simp add: acc'_def)
  moreover have "snd ` set acc' \<subseteq> snd ` set acc \<union> {j}" by (auto simp: acc'_def)
  ultimately show ?case using Cons.IH [of acc'] Cons.prems(2) by auto
qed auto

lemma byKey_loop_mono: "set acc \<subseteq> set (byKey_loop sha acc ids)"
  by (induction ids arbitrary: acc) (fastforce simp: Let_def)+

lemma byKey_loop_complete:
  "i \<in> set ids \<Longrightarrow> task_key sha i \<in> fst ` set (byKey_loop sha acc ids)"
proof (induction ids arbitrary: acc)
  case (Cons j ids)
  define acc' where "acc' = (if task_key sha j \<in> fst ` set acc then acc else acc @ [(task_key sha j, j)])"
  have "task_key sha j \<in> fst ` set acc'" by (simp add: acc'_def)
  then have "task_key sha j \<in> fst ` set (byKey_loop sha acc' ids)" using byKey_loop_mono by blast
  moreover have "byKey_loop sha acc (j # ids) = byKey_loop sha acc' ids" by (simp add: acc'_def Let_def)
  ultimately show ?case using Cons.IH [of acc'] Cons.prems by auto
qed simp

lemma byKey_find:
  assumes "inj_on sha (set ids)"
  shows "find (\<lambda>p. snd p = i) (byKey_loop sha [] ids) = (if i \<in> set ids then Some (task_key sha i, i) else None)"
proof (cases "i \<in> set ids")
  case False
  then have "snd p \<noteq> i" if "p \<in> set (byKey_loop sha [] ids)" for p
    using byKey_loop_pairs [of "[]" sha p ids] that by auto
  then have "find (\<lambda>p. snd p = i) (byKey_loop sha [] ids) = None" unfolding find_None_iff by blast
  then show ?thesis using False by simp
next
  case True
  obtain p where p: "p \<in> set (byKey_loop sha [] ids)" "fst p = task_key sha i"
    using byKey_loop_complete [OF True, of sha "[]"] by auto
  then have "fst p = task_key sha (snd p)" "snd p \<in> set ids" using byKey_loop_pairs [of "[]" sha p ids] by simp_all
  then have "snd p = i" using p(2) True task_key_inj [OF assms] by (metis inj_onD)
  then have "find (\<lambda>p. snd p = i) (byKey_loop sha [] ids) \<noteq> None" using p(1) unfolding find_None_iff by blast
  then obtain q where q: "find (\<lambda>p. snd p = i) (byKey_loop sha [] ids) = Some q" by blast
  then have "snd q = i" "q \<in> set (byKey_loop sha [] ids)" by (auto simp: find_Some_iff)
  then have "q = (task_key sha i, i)" using byKey_loop_pairs [of "[]" sha q ids] by (simp add: prod_eq_iff)
  then show ?thesis using q True by simp
qed

lemma byKey_keys: "i \<in> set ids \<Longrightarrow> task_key sha i \<in> set (map fst (byKey_loop sha [] ids))"
  using byKey_loop_complete [of i ids sha "[]"] by simp

lemma loadMany_spec:
  assumes "one_home s" "inj_on sha (set ids)"
  shows "fst (loadMany sha s ids now) i = (if i \<in> set ids then rec_at s now (task_key sha i) else None)"
    "one_home (snd (loadMany sha s ids now))"
    "now \<le> t \<Longrightarrow> map_view (snd (loadMany sha s ids now)) t = map_view s t"
proof -
  let ?ks = "map fst (byKey_loop sha [] ids)"
  obtain found s' where g: "GetMany_store s ?ks now = (found, s')" by fastforce
  have f: "fmlookup found k = (if k \<in> set ?ks then map_view s now k else None)" for k
    using ms.get_many_result [OF assms(1), of ?ks now k] g by simp
  show "fst (loadMany sha s ids now) i = (if i \<in> set ids then rec_at s now (task_key sha i) else None)"
    using byKey_keys [of i ids sha] by (auto simp: loadMany_def Let_def g byKey_find [OF assms(2)] f rec_at_def)
  show "one_home (snd (loadMany sha s ids now))"
    using ms.get_many_invar [OF assms(1), of ?ks now] g by (simp add: loadMany_def Let_def)
  show "now \<le> t \<Longrightarrow> map_view (snd (loadMany sha s ids now)) t = map_view s t"
    using ms.get_many_view [OF assms(1), of now t ?ks] g by (simp add: loadMany_def Let_def)
qed

subsection \<open>An owner on record stays\<close>

text \<open>
  From \<open>s\<close> to \<open>s'\<close> no record changes owner: one that was owned at \<open>now\<close> is, as long as it is there,
  still owned by the same principal.
\<close>

definition keeps_owner :: "taskOwners \<Rightarrow> taskOwners \<Rightarrow> time \<Rightarrow> bool" where
  "keeps_owner s s' now \<longleftrightarrow>
     (\<forall>k r r' t. now \<le> t \<longrightarrow> rec_at s now k = Some r \<longrightarrow> tr_owner r \<noteq> '''' \<longrightarrow>
        rec_at s' t k = Some r' \<longrightarrow> tr_owner r' = tr_owner r)"

definition may_write :: "taskOwners \<Rightarrow> time \<Rightarrow> string \<Rightarrow> jtext \<Rightarrow> bool" where
  "may_write s now k d \<longleftrightarrow>
     (\<forall>r r'. rec_at s now k = Some r \<longrightarrow> tr_owner r \<noteq> '''' \<longrightarrow> decodeTaskRecord d = Some r' \<longrightarrow> tr_owner r' = tr_owner r)"

lemma may_write_present: "one_home s \<Longrightarrow> now \<le> t \<Longrightarrow> map_view s t k = Some d \<Longrightarrow> may_write s now k d"
  using ms.view_antimono [of s now t k d] by (auto simp: may_write_def rec_at_def)

lemma keeps_ownerI:
  "(\<And>t k d. now \<le> t \<Longrightarrow> map_view s' t k = Some d \<Longrightarrow> may_write s now k d) \<Longrightarrow> keeps_owner s s' now"
proof -
  assume w: "\<And>t k d. now \<le> t \<Longrightarrow> map_view s' t k = Some d \<Longrightarrow> may_write s now k d"
  have "tr_owner r' = tr_owner r"
    if "now \<le> t" "rec_at s now k = Some r" "tr_owner r \<noteq> ''''" "rec_at s' t k = Some r'" for k r r' t
  proof -
    from that(4) obtain d where "map_view s' t k = Some d" "decodeTaskRecord d = Some r'"
      by (auto simp: rec_at_def bind_eq_Some_conv)
    moreover from this(1) have "may_write s now k d" by (rule w [OF that(1)])
    ultimately show ?thesis using that(2,3) unfolding may_write_def by blast
  qed
  then show ?thesis unfolding keeps_owner_def by blast
qed

lemma keeps_owner_same:
  "one_home s \<Longrightarrow> (\<And>t. now \<le> t \<Longrightarrow> map_view s' t = map_view s t) \<Longrightarrow> keeps_owner s s' now"
  by (rule keeps_ownerI) (simp add: may_write_present)

lemma keeps_owner_put:
  assumes "one_home s" "one_home s1" "\<And>t. now \<le> t \<Longrightarrow> map_view s1 t = map_view s t" "0 < now"
    and "may_write s now (task_key sha i) (wireTaskRecord r)"
  shows "keeps_owner s (put_task sha s1 i r now) now"
proof (rule keeps_ownerI)
  fix t k d assume t: "now \<le> t" and "map_view (put_task sha s1 i r now) t k = Some d"
  then have v: "map_view (Set_store s1 (task_key sha i) (wireTaskRecord r) taskOwnerTTL now) t k = Some d"
    by (simp add: put_task_def)
  show "may_write s now k d"
    by (rule ms.put_pres [where P = "may_write s now", OF assms(2,4) _ assms(5) v])
      (simp add: assms(3) [OF t] may_write_present [OF assms(1) t])
qed

lemma keeps_owner_putMany:
  assumes "one_home s" "one_home s1" "\<And>t. now \<le> t \<Longrightarrow> map_view s1 t = map_view s t" "0 < now"
    and "\<forall>(i, r) \<in> set recs. may_write s now (task_key sha i) (wireTaskRecord r)"
  shows "keeps_owner s (putMany sha s1 recs now) now"
proof (cases "recs = []")
  case True
  then show ?thesis using keeps_owner_same [OF assms(1,3)] by (simp add: putMany_def)
next
  case False
  show ?thesis
  proof (rule keeps_ownerI)
    fix t k d assume t: "now \<le> t" and "map_view (putMany sha s1 recs now) t k = Some d"
    then have v: "map_view (SetMany_store s1 (map (\<lambda>(i, r). (task_key sha i, wireTaskRecord r)) recs) taskOwnerTTL now) t k = Some d"
      using False by (simp add: putMany_def)
    have m: "\<forall>(k, d) \<in> set (map (\<lambda>(i, r). (task_key sha i, wireTaskRecord r)) recs). may_write s now k d"
      using assms(5) by auto
    show "may_write s now k d"
      by (rule ms.put_many_pres [where P = "may_write s now", OF assms(2,4) _ m v])
        (simp add: assms(3) [OF t] may_write_present [OF assms(1) t])
  qed
qed

lemma may_write_merge: "may_write s now (task_key sha i) (wireTaskRecord (mergeTaskOwner (rec_at s now (task_key sha i)) up owner))"
  by (auto simp: may_write_def mergeTaskOwner_def split: if_splits)

lemma may_write_same: "rec_at s now (task_key sha i) = Some r \<Longrightarrow> may_write s now (task_key sha i) (wireTaskRecord r)"
  by (auto simp: may_write_def split: if_splits)

lemma keeps_owner_affinity:
  assumes "one_home s" "0 < now" "one_home s0" "\<And>t. now \<le> t \<Longrightarrow> map_view s0 t = map_view s t"
  shows "keeps_owner s (storeTaskAffinity sha s0 i up owner now) now"
proof -
  obtain old s1 where l: "load_task sha s0 i now = (old, s1)" by fastforce
  note sp = load_task_spec [OF assms(3), where sha = sha and i = i and now = now]
  have o: "old = rec_at s now (task_key sha i)" using sp(1) l assms(4) [of now] by (simp add: rec_at_def)
  have "keeps_owner s (put_task sha s1 i (mergeTaskOwner old up owner) now) now"
  proof (rule keeps_owner_put [OF assms(1) _ _ assms(2)])
    show "one_home s1" using sp(2) l by simp
    show "map_view s1 t = map_view s t" if "now \<le> t" for t using sp(3) [OF that] l assms(4) [OF that] by simp
    show "may_write s now (task_key sha i) (wireTaskRecord (mergeTaskOwner old up owner))"
      unfolding o by (rule may_write_merge)
  qed
  then show ?thesis by (simp add: storeTaskAffinity_def l)
qed

lemma update_pair: "(i, r) \<in> set (AList.update j x ws) \<Longrightarrow> (i, r) \<in> set ws \<or> (i = j \<and> r = x)"
  by (induction ws) (auto split: if_splits)

lemma list_loop_writes:
  "(i, r) \<in> set (fst (list_loop caller known ls writes merged)) \<Longrightarrow>
     (i, r) \<in> set writes \<or> (i \<in> fst ` snd ` set ls \<and> i \<noteq> '''' \<and> (\<exists>up. r = mergeTaskOwner (known i) up ''''))"
proof (induction ls arbitrary: writes merged)
  case (Cons l ls)
  obtain t j up where l: "l = (t, j, up)" by (metis prod_cases3)
  show ?case
  proof (cases "j = ''''")
    case True
    then show ?thesis using Cons by (auto simp: l)
  next
    case False
    define rec where "rec = mergeTaskOwner (known j) up ''''"
    define ws where "ws = (if known j \<noteq> Some rec then AList.update j rec writes else writes)"
    have w: "(i, r) \<in> set ws \<Longrightarrow> (i, r) \<in> set writes \<or> (i = j \<and> r = rec)"
      using update_pair by (fastforce simp: ws_def split: if_splits)
    define merged' where "merged' = (if tr_owner rec \<noteq> '''' \<and> tr_owner rec \<noteq> caller then merged else merged @ [t])"
    have "list_loop caller known (l # ls) writes merged = list_loop caller known ls ws merged'"
      using False by (simp add: l Let_def rec_def ws_def merged'_def)
    then have "(i, r) \<in> set ws \<or> (i \<in> fst ` snd ` set ls \<and> i \<noteq> '''' \<and> (\<exists>up. r = mergeTaskOwner (known i) up ''''))"
      using Cons.IH [of ws merged'] Cons.prems by simp
    then show ?thesis using w False by (auto simp: l rec_def)
  qed
qed simp

lemma one_home_put_task [inv_intros]: "one_home s \<Longrightarrow> one_home (put_task sha s i r now)"
  by (simp add: put_task_def ms.put_invar)

lemma one_home_putMany [inv_intros]: "one_home s \<Longrightarrow> one_home (putMany sha s rs now)"
  by (simp add: putMany_def ms.put_many_invar)

lemma one_home_affinity [inv_intros]: "one_home s \<Longrightarrow> one_home (storeTaskAffinity sha s i up owner now)"
  using load_task_spec(2) [of s sha i now]
  by (auto simp: storeTaskAffinity_def split: prod.splits intro!: one_home_put_task)

text \<open>The ids the upstreams a caller sees list right now.\<close>

definition listed_ids :: "task_env \<Rightarrow> tenant option \<Rightarrow> string list" where
  "listed_ids env ot =
     (let ups = visibleUpstreams up_ID ot (te_upstreams env) in
      filter (\<lambda>i. i \<noteq> '''') (map (fst \<circ> snd)
        (listed ups (fst (fanOut up_ID ups (\<lambda>u. te_callTask env u methodTasksList (Some (TObj []))))))))"

lemma listTasks_store:
  assumes "one_home s" "0 < now" "\<And>ws. set (te_order env ws) \<subseteq> set ws"
    and "inj_on (sha256 (te_codec env)) (set (listed_ids env ot))"
  shows "keeps_owner s (snd (snd (listTasks env ot op caller raw now s))) now \<and>
     one_home (snd (snd (listTasks env ot op caller raw now s)))"
proof -
  define sha ups where "sha = sha256 (te_codec env)" and "ups = visibleUpstreams up_ID ot (te_upstreams env)"
  obtain results failed where f: "fanOut up_ID ups (\<lambda>u. te_callTask env u methodTasksList (Some (TObj []))) = (results, failed)"
    by fastforce
  define ls where "ls = listed ups results"
  have ids: "listed_ids env ot = filter (\<lambda>i. i \<noteq> '''') (map (fst \<circ> snd) ls)"
    by (simp add: listed_ids_def ups_def [symmetric] f ls_def Let_def)
  obtain known s1 where k: "loadMany sha s (listed_ids env ot) now = (known, s1)" by fastforce
  obtain ws merged where w: "list_loop caller known ls [] [] = (ws, merged)" by fastforce
  define s2 where "s2 = putMany sha s1 (te_order env ws) now"
  note sp = loadMany_spec [OF assms(1) assms(4) [folded sha_def], where now = now]
  have s1: "one_home s1" "\<And>t. now \<le> t \<Longrightarrow> map_view s1 t = map_view s t" using sp(2,3) k by simp_all
  have "may_write s now (task_key sha i) (wireTaskRecord r)" if "(i, r) \<in> set (te_order env ws)" for i r
  proof -
    have "(i, r) \<in> set ws" using that assms(3) by blast
    then obtain up where i: "i \<in> set (listed_ids env ot)" and r: "r = mergeTaskOwner (known i) up ''''"
      using list_loop_writes [of i r caller known ls "[]" "[]"] w by (auto simp: ids image_iff)
    have "known i = rec_at s now (task_key sha i)" using sp(1) [of i] k i by simp
    then show ?thesis using may_write_merge r by simp
  qed
  then have "keeps_owner s s2 now"
    unfolding s2_def by (intro keeps_owner_putMany [OF assms(1) s1 assms(2)]) auto
  moreover have "one_home s2" unfolding s2_def by (rule one_home_putMany [OF s1(1)])
  moreover have "snd (snd (listTasks env ot op caller raw now s)) \<in> {s, s2}"
    by (simp add: listTasks_def Let_def ups_def [symmetric] f sha_def [symmetric] ls_def [symmetric] ids [symmetric] k w
        s2_def [symmetric] split: sum.split option.split prod.split)
  ultimately show ?thesis using keeps_owner_same [OF assms(1)] assms(1) by auto
qed

lemma routeTask_cases:
  fixes env ot op mth raw0 now s
  defines "sha \<equiv> sha256 (te_codec env)" and "raw \<equiv> sanitizeRawMeta raw0"
  obtains (listing) "mth = methodTasksList"
      "routeTask env ot op mth raw0 now s = listTasks env ot op (taskOwnerKey sha op) raw now s"
  | (no_id) "mth \<noteq> methodTasksList" "extractTaskID raw = ''''"
      "routeTask env ot op mth raw0 now s = (Inl (InvalidParams ''task method requires a taskId''), [], s)"
  | (hidden) s1 r where "mth \<noteq> methodTasksList" "extractTaskID raw \<noteq> ''''"
      "load_task sha s (extractTaskID raw) now = (Some r, s1)"
      "tr_owner r \<noteq> '''' \<and> tr_owner r \<noteq> taskOwnerKey sha op \<or> \<not> sees ot (tr_upstreamID r)"
      "routeTask env ot op mth raw0 now s = (Inl (TaskNotFound (extractTaskID raw)), [], s1)"
  | (pinned) s1 r u where "mth \<noteq> methodTasksList" "extractTaskID raw \<noteq> ''''"
      "load_task sha s (extractTaskID raw) now = (Some r, s1)"
      "tr_owner r = '''' \<or> tr_owner r = taskOwnerKey sha op" "sees ot (tr_upstreamID r)"
      "te_byID env (tr_upstreamID r) = Some u"
      "routeTask env ot op mth raw0 now s = (of_answer (te_callTask env u mth raw), [(u, mth, raw)],
         put_task sha s1 (extractTaskID raw) r now)"
  | (unknown) s1 old calls where "mth \<noteq> methodTasksList" "extractTaskID raw \<noteq> ''''"
      "load_task sha s (extractTaskID raw) now = (old, s1)"
      "old = None \<or> (\<exists>r. old = Some r \<and> (tr_owner r = '''' \<or> tr_owner r = taskOwnerKey sha op) \<and>
         sees ot (tr_upstreamID r) \<and> te_byID env (tr_upstreamID r) = None)"
      "locateTaskOwner env ot (extractTaskID raw) = (None, calls)"
      "routeTask env ot op mth raw0 now s = (Inl (TaskNotFound (extractTaskID raw)), calls, s1)"
  | (probed) s1 old u calls where "mth \<noteq> methodTasksList" "extractTaskID raw \<noteq> ''''"
      "load_task sha s (extractTaskID raw) now = (old, s1)"
      "old = None \<or> (\<exists>r. old = Some r \<and> (tr_owner r = '''' \<or> tr_owner r = taskOwnerKey sha op) \<and>
         sees ot (tr_upstreamID r) \<and> te_byID env (tr_upstreamID r) = None)"
      "locateTaskOwner env ot (extractTaskID raw) = (Some u, calls)"
      "routeTask env ot op mth raw0 now s = (of_answer (te_callTask env u mth raw), calls @ [(u, mth, raw)],
         storeTaskAffinity sha s1 (extractTaskID raw) (up_ID u) '''' now)"
proof (cases "mth = methodTasksList \<or> extractTaskID raw = ''''")
  case True
  then show ?thesis using listing no_id by (auto simp: routeTask_def Let_def sha_def raw_def)
next
  case False
  obtain old s1 where l: "load_task sha s (extractTaskID raw) now = (old, s1)" by fastforce
  obtain loc calls where p: "locateTaskOwner env ot (extractTaskID raw) = (loc, calls)" by fastforce
  have e: "routeTask env ot op mth raw0 now s =
    (let probe = (case loc of None \<Rightarrow> (Inl (TaskNotFound (extractTaskID raw)), calls, s1)
        | Some u \<Rightarrow> (of_answer (te_callTask env u mth raw), calls @ [(u, mth, raw)],
            storeTaskAffinity sha s1 (extractTaskID raw) (up_ID u) '''' now))
     in case old of None \<Rightarrow> probe
        | Some r \<Rightarrow> if tr_owner r \<noteq> '''' \<and> tr_owner r \<noteq> taskOwnerKey sha op then (Inl (TaskNotFound (extractTaskID raw)), [], s1)
            else if \<not> sees ot (tr_upstreamID r) then (Inl (TaskNotFound (extractTaskID raw)), [], s1)
            else (case te_byID env (tr_upstreamID r) of None \<Rightarrow> probe
               | Some u \<Rightarrow> (of_answer (te_callTask env u mth raw), [(u, mth, raw)], put_task sha s1 (extractTaskID raw) r now)))"
    using False l p by (simp add: routeTask_def Let_def sha_def [symmetric] raw_def [symmetric] split: option.splits)
  show ?thesis
  proof (cases "old = None \<or> (\<exists>r. old = Some r \<and> (tr_owner r = '''' \<or> tr_owner r = taskOwnerKey sha op) \<and>
         sees ot (tr_upstreamID r) \<and> te_byID env (tr_upstreamID r) = None)")
    case go: True
    show ?thesis
    proof (cases loc)
      case None
      then show ?thesis using unknown [OF _ _ l go, of calls] False p e go by (auto simp: Let_def)
    next
      case (Some u)
      then show ?thesis using probed [OF _ _ l go, of u calls] False p e go by (auto simp: Let_def)
    qed
  next
    case stop: False
    then obtain r where r: "old = Some r" by auto
    show ?thesis
    proof (cases "tr_owner r \<noteq> '''' \<and> tr_owner r \<noteq> taskOwnerKey sha op \<or> \<not> sees ot (tr_upstreamID r)")
      case True
      then show ?thesis using hidden [of r s1] False l r e by (auto simp: Let_def)
    next
      case ok: False
      then obtain u where "te_byID env (tr_upstreamID r) = Some u" using stop r by auto
      then show ?thesis using pinned [of r s1 u] False l r e ok by (auto simp: Let_def)
    qed
  qed
qed

lemma store_of_load:
  assumes "one_home s" "load_task sha s i now = (old, s1)"
  shows "old = rec_at s now (task_key sha i)" "one_home s1" "\<And>t. now \<le> t \<Longrightarrow> map_view s1 t = map_view s t"
proof -
  show "old = rec_at s now (task_key sha i)" "one_home s1"
    using load_task_spec(1,2) [OF assms(1), of sha i now] assms(2) by simp_all
  show "map_view s1 t = map_view s t" if "now \<le> t" for t
    using load_task_spec(3) [OF assms(1) that, of sha i] assms(2) by simp
qed

lemma routeTask_store:
  assumes "one_home s" "0 < now" "\<And>ws. set (te_order env ws) \<subseteq> set ws"
    and "inj_on (sha256 (te_codec env)) (set (listed_ids env ot))"
  shows "keeps_owner s (snd (snd (routeTask env ot op mth raw now s))) now \<and>
     one_home (snd (snd (routeTask env ot op mth raw now s)))"
proof (cases rule: routeTask_cases [of mth env ot op raw now s])
  case listing
  then show ?thesis using listTasks_store [OF assms] by simp
next
  case no_id
  then show ?thesis using assms(1) keeps_owner_same by auto
next
  case (hidden s1 r)
  note l = store_of_load [OF assms(1) hidden(3)]
  show ?thesis using hidden(5) keeps_owner_same [OF assms(1) l(3)] l(2) by simp
next
  case (unknown s1 old calls)
  note l = store_of_load [OF assms(1) unknown(3)]
  show ?thesis using unknown(6) keeps_owner_same [OF assms(1) l(3)] l(2) by simp
next
  case (pinned s1 r u)
  note l = store_of_load [OF assms(1) pinned(3)]
  have "keeps_owner s (put_task (sha256 (te_codec env)) s1 (extractTaskID (sanitizeRawMeta raw)) r now) now"
    by (rule keeps_owner_put [OF assms(1) l(2) l(3) assms(2)]) (use l(1) may_write_same in auto)
  then show ?thesis using pinned(7) one_home_put_task [OF l(2)] by simp
next
  case (probed s1 old u calls)
  note l = store_of_load [OF assms(1) probed(3)]
  have "keeps_owner s (storeTaskAffinity (sha256 (te_codec env)) s1 (extractTaskID (sanitizeRawMeta raw)) (up_ID u) '''' now) now"
    by (rule keeps_owner_affinity [OF assms(1,2) l(2) l(3)])
  then show ?thesis using probed(6) one_home_affinity [OF l(2)] by simp
qed

lemma noteMinted_store:
  assumes "one_home s" "0 < now"
  shows "keeps_owner s (noteMintedTask sha s op up meta now) now \<and> one_home (noteMintedTask sha s op up meta now)"
  using assms keeps_owner_same [OF assms(1)] keeps_owner_affinity [OF assms assms(1)] one_home_affinity [OF assms(1)]
  by (auto simp: noteMintedTask_def split: option.splits json.splits)

subsection \<open>Other callers' tasks\<close>

lemma string_field_html [simp]: "string_field name (html t) = string_field name t"
proof (cases t)
  case (TObj ms)
  have "(case html v of TStr ps \<Rightarrow> unquote ps | _ \<Rightarrow> acc) = (case v of TStr ps \<Rightarrow> unquote ps | _ \<Rightarrow> acc)" for v acc
    by (cases v) simp_all
  then show ?thesis by (simp add: string_field_def TObj foldl_map key_matches_def case_prod_unfold cong: if_cong)
qed (simp_all add: string_field_def)

lemma list_loop_merged:
  "t \<in> set (snd (list_loop caller known ls writes merged)) \<Longrightarrow> t \<in> set merged \<or>
     (\<exists>i up. (t, i, up) \<in> set ls \<and> (i = '''' \<or> tr_owner (mergeTaskOwner (known i) up '''') \<in> {'''', caller}))"
proof (induction ls arbitrary: writes merged)
  case (Cons l ls)
  obtain t' j up where l: "l = (t', j, up)" by (metis prod_cases3)
  define merged' where "merged' = (if j \<noteq> '''' \<and> tr_owner (mergeTaskOwner (known j) up '''') \<notin> {'''', caller}
    then merged else merged @ [t'])"
  define ws where "ws = (if j \<noteq> '''' \<and> known j \<noteq> Some (mergeTaskOwner (known j) up '''')
    then AList.update j (mergeTaskOwner (known j) up '''') writes else writes)"
  have "list_loop caller known (l # ls) writes merged = list_loop caller known ls ws merged'"
    by (cases "j = ''''") (simp_all add: l Let_def merged'_def ws_def)
  then have "t \<in> set merged' \<or> (\<exists>i up. (t, i, up) \<in> set ls \<and> (i = '''' \<or> tr_owner (mergeTaskOwner (known i) up '''') \<in> {'''', caller}))"
    using Cons.IH [of ws merged'] Cons.prems by simp
  then show ?case by (auto simp: l merged'_def split: if_splits)
qed simp

lemma listed_id: "(t, i, up) \<in> set (listed ups results) \<Longrightarrow> i = extractTaskID (Some t)"
  by (auto simp: listed_def split: option.splits)

lemma paginate_subset: "paginate cd items name kind rawc n op = Some (Inr (page, nxt)) \<Longrightarrow> set page \<subseteq> set items"
  by (auto simp: paginate_def Let_def split: if_splits sum.splits option.splits dest: in_set_takeD in_set_dropD)

lemma foldName_tasks: "foldName ''_meta'' \<noteq> foldName ''tasks''" "foldName ''nextCursor'' \<noteq> foldName ''tasks''"
  by (simp_all add: lower_char_def)

lemma tasks_of_result: "tasks_field (tasks_result page nxt meta) = Some (map html page)"
  using foldName_tasks
  by (simp add: tasks_result_def tasks_field_def del: foldName.simps quote.simps split: option.splits)

end
