(* ===== verification/Task_Ownership.thy ===== *)
theory Task_Ownership
  imports Task_Routing
begin

section \<open>Whose task it is\<close>

text \<open>
  The properties of the task routing: what protects a task from other callers, and where that
  protection can be got round. The hypothesis that \<open>sha256\<close> has no collision among the ids at hand
  is what the code relies on when it keys records by digest.
\<close>

text \<open>A federation of one upstream that answers every task call, and a store with two records.\<close>

definition worker :: upstream where
  "worker = app_upstream ''w''"

definition alice :: Principal where
  "alice = \<lparr>p_Subject = ''alice'', p_Issuer = ''idp'', p_Groups = [], p_Scopes = [], p_Token = '''', p_Expiry = 0,
     p_Claims = fmempty\<rparr>"

definition bob :: Principal where
  "bob = alice\<lparr>p_Subject := ''bob''\<rparr>"

definition id_codec :: codec where
  "id_codec = \<lparr>sha256 = id, marshal = (\<lambda>_. ''''), unmarshal = (\<lambda>_. None)\<rparr>"

definition one_worker :: task_env where
  "one_worker =
     \<lparr>te_codec = id_codec, te_upstreams = [worker], te_byID = [''w'' \<mapsto> worker], te_pageSize = 0,
      te_callTask = (\<lambda>_ _ _. Answered (TObj [])), te_order = id\<rparr>"

definition two_tasks :: taskOwners where
  "two_tasks =
     put_task id (put_task id NewMemStore ''of-bob'' \<lparr>tr_upstreamID = ''w'', tr_owner = taskOwnerKey id (Some bob)\<rparr> 1)
       ''mine'' \<lparr>tr_upstreamID = ''w'', tr_owner = taskOwnerKey id (Some alice)\<rparr> 1"

definition id_params :: "string \<Rightarrow> jtext" where
  "id_params i = TObj [(quote ''taskId'', TStr (quote i))]"

lemma foldName_ids [simp]: "foldName ''taskId'' = ''taskid''" "foldName ''taskid'' = ''taskid''"
  by (simp_all add: lower_char_def char_of_eq)

lemma one_home_two [simp]: "one_home two_tasks"
  unfolding two_tasks_def NewMemStore_def by (intro one_home_put_task) (simp add: New_one_home)

lemma two_tasks_mine:
  "rec_at two_tasks 2 (task_key id ''mine'') = Some \<lparr>tr_upstreamID = ''w'', tr_owner = taskOwnerKey id (Some alice)\<rparr>"
proof -
  have "map_view two_tasks 2 (task_key id ''mine'')
      = Some (wireTaskRecord \<lparr>tr_upstreamID = ''w'', tr_owner = taskOwnerKey id (Some alice)\<rparr>)"
    unfolding two_tasks_def put_task_def [of _ _ "''mine''"]
    by (rule ms.put_own) (simp_all add: taskOwnerTTL_def one_home_put_task NewMemStore_def New_one_home)
  then show ?thesis by (simp add: rec_at_def)
qed
lemma two_keys: "task_key id ''of-bob'' \<noteq> task_key id ''mine''"
  using task_key_inj [of id "{''of-bob'', ''mine''}"] by (auto simp: inj_on_def)

lemma two_tasks_bob:
  "rec_at two_tasks 2 (task_key id ''of-bob'') = Some \<lparr>tr_upstreamID = ''w'', tr_owner = taskOwnerKey id (Some bob)\<rparr>"
  using two_keys
  by (simp add: rec_at_def two_tasks_def put_task_def Set_store_def Store_map_def storeLocked_def NewMemStore_def
      New_map_def map_view_def held_def fmap_len_def live_def maxStoreEntries_def taskOwnerTTL_def Let_def)



text \<open>
  C8. Another principal's task cannot be told from one that does not exist: a task method (other than
  the list) for a task minted for someone else is answered exactly as if no upstream owned the id, no call is
  forwarded or probed on the caller's behalf, and the record stays as it was.
\<close>

theorem foreign_task_unreachable:
  assumes "one_home s" "mth \<noteq> methodTasksList" "extractTaskID (sanitizeRawMeta raw) = i" "i \<noteq> ''''"
    and "rec_at s now (task_key (sha256 (te_codec env)) i) = Some r"
    and "tr_owner r \<noteq> ''''" "tr_owner r \<noteq> taskOwnerKey (sha256 (te_codec env)) op"
  shows "fst (routeTask env ot op mth raw now s) = Inl (TaskNotFound i) \<and>
     fst (snd (routeTask env ot op mth raw now s)) = [] \<and>
     (\<forall>t. now \<le> t \<longrightarrow> map_view (snd (snd (routeTask env ot op mth raw now s))) t = map_view s t) \<and>
     (\<forall>s'. one_home s' \<longrightarrow> rec_at s' now (task_key (sha256 (te_codec env)) i) = None \<longrightarrow>
        fst (locateTaskOwner env ot i) = None \<longrightarrow>
        fst (routeTask env ot op mth raw now s') = fst (routeTask env ot op mth raw now s))"
proof -
  obtain s1 where l: "load_task (sha256 (te_codec env)) s i now = (Some r, s1)"
    using load_task_spec(1) [OF assms(1), of "sha256 (te_codec env)" i now] assms(5) by (metis prod.collapse)
  have e: "routeTask env ot op mth raw now s = (Inl (TaskNotFound i), [], s1)"
    using assms(2,3,4,6,7) l by (simp add: routeTask_def Let_def)
  have "fst (routeTask env ot op mth raw now s') = Inl (TaskNotFound i)"
    if h: "one_home s'" "rec_at s' now (task_key (sha256 (te_codec env)) i) = None" "fst (locateTaskOwner env ot i) = None" for s'
  proof -
    obtain s2 where "load_task (sha256 (te_codec env)) s' i now = (None, s2)"
      using load_task_spec(1) [OF h(1), of "sha256 (te_codec env)" i now] h(2) by (metis prod.collapse)
    moreover obtain calls where "locateTaskOwner env ot i = (None, calls)" using h(3) by (metis prod.collapse)
    ultimately show ?thesis using assms(2,3,4) by (simp add: routeTask_def Let_def)
  qed
  then show ?thesis using store_of_load(3) [OF assms(1) l] e by simp
qed

lemma extract_id_params: "extractTaskID (sanitizeRawMeta (Some (id_params i))) = i"
proof -
  have "sanitizeRawMeta (Some (id_params i)) = Some (id_params i)"
    by (cases "id_params i" rule: sanitize_cases) (simp_all add: id_params_def values_of_def del: quote.simps)
  then show ?thesis by (simp add: extractTaskID_def id_params_def string_field_def del: quote.simps)
qed

lemma bob_not_alice: "taskOwnerKey id (Some bob) \<noteq> taskOwnerKey id (Some alice)" "taskOwnerKey id (Some bob) \<noteq> ''''"
proof -
  show "taskOwnerKey id (Some bob) \<noteq> taskOwnerKey id (Some alice)"
  proof
    assume "taskOwnerKey id (Some bob) = taskOwnerKey id (Some alice)"
    then have "p_Issuer bob @ [nul] @ p_Subject bob = p_Issuer alice @ [nul] @ p_Subject alice"
      using hex_encode_inj [of "p_Issuer bob @ [nul] @ p_Subject bob" "p_Issuer alice @ [nul] @ p_Subject alice"]
      by (simp add: taskOwnerKey_def)
    then show False by (simp add: bob_def alice_def)
  qed
  show "taskOwnerKey id (Some bob) \<noteq> ''''"
    using hex_encode_inj [of "p_Issuer bob @ [nul] @ p_Subject bob" "''''"]
    by (auto simp: taskOwnerKey_def hex_encode_def)
qed

theorem foreign_task_unreachable_witness:
  "fst (routeTask one_worker None (Some alice) ''tasks/cancel'' (Some (id_params ''of-bob'')) 2 two_tasks)
     = Inl (TaskNotFound ''of-bob'')"
  using foreign_task_unreachable [OF one_home_two _ extract_id_params, of "''tasks/cancel''" "''of-bob''" 2 one_worker
      "\<lparr>tr_upstreamID = ''w'', tr_owner = taskOwnerKey id (Some bob)\<rparr>" "Some alice" None]
    two_tasks_bob bob_not_alice
  by (simp add: one_worker_def id_codec_def methodTasksList_def)

text \<open>
  C9. A list shows no one else's tasks: every task in a page of \<open>tasks/list\<close> that carries an id has, in
  the records, no owner or the caller as its owner, whichever upstreams list it and under whatever
  cursor the page was asked for.
\<close>

theorem list_hides_foreign_tasks:
  assumes "one_home s" "inj_on (sha256 (te_codec env)) (set (listed_ids env ot))"
    and "fst (routeTask env ot op methodTasksList raw now s) = Inr res" "tasks_field res = Some ts" "t \<in> set ts"
    and "extractTaskID (Some t) = i" "i \<noteq> ''''"
  shows "case rec_at s now (task_key (sha256 (te_codec env)) i) of None \<Rightarrow> True
     | Some r \<Rightarrow> tr_owner r = '''' \<or> tr_owner r = taskOwnerKey (sha256 (te_codec env)) op"
proof -
  define sha where "sha = sha256 (te_codec env)"
  define ups where "ups = visibleUpstreams up_ID ot (te_upstreams env)"
  define caller where "caller = taskOwnerKey sha op"
  obtain results failed where f: "fanOut up_ID ups (\<lambda>u. te_callTask env u methodTasksList (Some (TObj []))) = (results, failed)"
    by fastforce
  define ls where "ls = listed ups results"
  have ids: "listed_ids env ot = filter (\<lambda>i. i \<noteq> '''') (map (fst \<circ> snd) ls)"
    by (simp add: listed_ids_def ups_def [symmetric] f ls_def Let_def)
  obtain known s1 where k: "loadMany sha s (listed_ids env ot) now = (known, s1)" by fastforce
  obtain ws merged where w: "list_loop caller known ls [] [] = (ws, merged)" by fastforce
  obtain page nxt meta where p: "set page \<subseteq> set merged" "res = tasks_result page nxt meta"
  proof -
    have "fst (listTasks env ot op caller (sanitizeRawMeta raw) now s) = Inr res"
      using assms(3) by (simp add: routeTask_def Let_def caller_def sha_def)
    then obtain page nxt meta where "res = tasks_result page nxt meta"
      "paginate (te_codec env) (sort_tasks merged) (\<lambda>t. extractTaskID (Some t)) ''tasks''
         (cursor_field (sanitizeRawMeta raw)) (te_pageSize env) op = Some (Inr (page, nxt))"
      by (auto simp: listTasks_def Let_def ups_def [symmetric] f sha_def [symmetric] ls_def [symmetric]
          ids [symmetric] k w split: sum.splits option.splits prod.splits)
    moreover from this(2) have "set page \<subseteq> set (sort_tasks merged)" by (rule paginate_subset)
    ultimately show ?thesis using that by (simp add: sort_tasks_def)
  qed
  have "ts = map html page" using assms(4) by (simp add: p(2) tasks_of_result)
  then obtain t0 where t0: "t0 \<in> set merged" "t = html t0" using assms(5) p(1) by auto
  obtain i' up where l: "(t0, i', up) \<in> set ls" "i' = '''' \<or> tr_owner (mergeTaskOwner (known i') up '''') \<in> {'''', caller}"
    using list_loop_merged [of t0 caller known ls "[]" "[]"] w t0(1) by auto
  have i: "i' = i" using listed_id l(1) assms(6) t0(2) by (simp add: ls_def extractTaskID_def)
  then have "i \<in> set (listed_ids env ot)" using l(1) assms(7) by (force simp: ids)
  then have "known i = rec_at s now (task_key sha i)"
    using loadMany_spec(1) [OF assms(1,2), of now i] k by (simp add: sha_def)
  then show ?thesis
    using l(2) i assms(7) by (auto simp: mergeTaskOwner_def caller_def sha_def split: option.splits if_splits)
qed

definition both_listed :: task_env where
  "both_listed = one_worker\<lparr>te_callTask := (\<lambda>_ _ _. Answered (TObj [(quote ''tasks'', TArr [id_params ''mine'', id_params ''of-bob''])]))\<rparr>"


lemma extract_id: "extractTaskID (Some (id_params i)) = i"
  by (simp add: extractTaskID_def id_params_def string_field_def del: quote.simps)

lemma both_fan:
  "fanOut up_ID (visibleUpstreams up_ID None (te_upstreams both_listed)) (\<lambda>u. te_callTask both_listed u methodTasksList (Some (TObj [])))
     = ([Some (TObj [(quote ''tasks'', TArr [id_params ''mine'', id_params ''of-bob''])])], [])"
  by (simp add: both_listed_def one_worker_def visibleUpstreams_def fanOut_def result_of_def del: quote.simps)

lemma both_ls:
  "listed (visibleUpstreams up_ID None (te_upstreams both_listed))
     [Some (TObj [(quote ''tasks'', TArr [id_params ''mine'', id_params ''of-bob''])])]
     = [(id_params ''mine'', ''mine'', ''w''), (id_params ''of-bob'', ''of-bob'', ''w'')]"
  by (simp add: listed_def tasks_field_def both_listed_def one_worker_def visibleUpstreams_def worker_def
      app_upstream_def extract_id del: quote.simps)

lemma mine_shown:
  "fst (routeTask both_listed None (Some alice) methodTasksList None 2 two_tasks) =
     Inr (tasks_result [id_params ''mine''] '''' None)"
proof -
  obtain known s1 where k: "loadMany id two_tasks [''mine'', ''of-bob''] 2 = (known, s1)" by fastforce
  have kn: "known ''mine'' = Some \<lparr>tr_upstreamID = ''w'', tr_owner = taskOwnerKey id (Some alice)\<rparr>"
    "known ''of-bob'' = Some \<lparr>tr_upstreamID = ''w'', tr_owner = taskOwnerKey id (Some bob)\<rparr>"
    using loadMany_spec(1) [of two_tasks id "[''mine'', ''of-bob'']" 2] k two_tasks_mine two_tasks_bob by simp_all
  have l: "list_loop (taskOwnerKey id (Some alice)) known
      [(id_params ''mine'', ''mine'', ''w''), (id_params ''of-bob'', ''of-bob'', ''w'')] [] [] = ([], [id_params ''mine''])"
    using bob_not_alice by (simp add: kn mergeTaskOwner_def Let_def)
  have c: "sha256 (te_codec both_listed) = id" "te_pageSize both_listed = 0"
    by (simp_all add: both_listed_def one_worker_def id_codec_def)
  show ?thesis
    by (simp add: routeTask_def listTasks_def both_fan both_ls c k l partialFailureMeta_def paginate_def sort_tasks_def
        sanitizeRawMeta_def skipRawScan_def cursor_field_def Let_def del: quote.simps list_loop.simps)
qed

theorem list_hides_foreign_tasks_witness:
  "case rec_at two_tasks 2 (task_key id ''mine'') of None \<Rightarrow> True
     | Some r \<Rightarrow> tr_owner r = '''' \<or> tr_owner r = taskOwnerKey id (Some alice)"
proof -
  have c: "sha256 (te_codec both_listed) = id" by (simp add: both_listed_def one_worker_def id_codec_def)
  have "extractTaskID (Some (html (id_params ''mine''))) = ''mine''"
    using extract_id [of "''mine''"] by (simp add: extractTaskID_def)
  then show ?thesis
    using list_hides_foreign_tasks [OF one_home_two _ mine_shown tasks_of_result, of "html (id_params ''mine'')" "''mine''"]
    unfolding c by simp
qed

subsection \<open>Two ways round it\<close>

text \<open>Parameters with the id twice: spelled as documented, and in another case.\<close>

definition alias_params :: "string \<Rightarrow> string \<Rightarrow> jtext" where
  "alias_params victim own =
     TObj [(quote ''taskId'', TStr (quote victim)), (quote ''taskid'', TStr (quote own))]"

lemma sanitize_alias: "sanitizeRawMeta (Some (alias_params v i)) = Some (alias_params v i)"
  by (cases "alias_params v i" rule: sanitize_cases) (simp_all add: alias_params_def values_of_def del: quote.simps)

lemma extract_alias: "extractTaskID (Some (alias_params v i)) = i"
  by (simp add: extractTaskID_def alias_params_def string_field_def del: quote.simps foldName.simps)

text \<open>
  C35. The owner check can be got round with a second spelling of the field: a caller that has some
  task of its own, or knows an ownerless one, on an upstream can have any method forwarded to that upstream with
  parameters whose only member named \<open>taskId\<close> names another principal's task. The gateway reads the
  id from the member \<open>taskid\<close>, which its decoder matches without regard to case and which comes last; an upstream
  that matches names exactly, as JSON parsers in other languages do, acts on the other task.
\<close>

theorem alias_reaches_foreign_task:
  assumes "one_home s" "mth \<noteq> methodTasksList" "own \<noteq> ''''"
    and "rec_at s now (task_key (sha256 (te_codec env)) own) = Some r"
    and "tr_owner r = '''' \<or> tr_owner r = taskOwnerKey (sha256 (te_codec env)) op"
    and "sees ot (tr_upstreamID r)" "te_byID env (tr_upstreamID r) = Some u"
  shows "fst (snd (routeTask env ot op mth (Some (alias_params victim own)) now s))
      = [(u, mth, Some (alias_params victim own))] \<and>
     map denote (values_of ''taskId'' (alias_params victim own)) = [MStr victim]"
proof
  obtain s1 where l: "load_task (sha256 (te_codec env)) s own now = (Some r, s1)"
    using load_task_spec(1) [OF assms(1), of "sha256 (te_codec env)" own now] assms(4) by (metis prod.collapse)
  show "fst (snd (routeTask env ot op mth (Some (alias_params victim own)) now s)) = [(u, mth, Some (alias_params victim own))]"
    using assms(2,3,5,6,7) l by (auto simp: routeTask_def sanitize_alias extract_alias Let_def)
  show "map denote (values_of ''taskId'' (alias_params victim own)) = [MStr victim]"
    by (simp add: values_of_def alias_params_def del: quote.simps)
qed

theorem alias_reaches_foreign_task_witness:
  "fst (snd (routeTask one_worker None (Some alice) ''tasks/cancel'' (Some (alias_params ''of-bob'' ''mine'')) 2 two_tasks))
      = [(worker, ''tasks/cancel'', Some (alias_params ''of-bob'' ''mine''))] \<and>
   rec_at two_tasks 2 (task_key id ''of-bob'') = Some \<lparr>tr_upstreamID = ''w'', tr_owner = taskOwnerKey id (Some bob)\<rparr> \<and>
   taskOwnerKey id (Some bob) \<noteq> taskOwnerKey id (Some alice)"
  using alias_reaches_foreign_task [of two_tasks "''tasks/cancel''" "''mine''" 2 one_worker
      "\<lparr>tr_upstreamID = ''w'', tr_owner = taskOwnerKey id (Some alice)\<rparr>" "Some alice" None worker "''of-bob''"]
    two_tasks_mine two_tasks_bob bob_not_alice
  by (simp add: one_worker_def id_codec_def methodTasksList_def sees_def)

text \<open>
  A refresh can undo a mint: the routing of a task call reads the record, and writes it back to
  extend its life. When the record it read was ownerless and a tool call of another request records
  its principal as the owner in between, the write restores the ownerless record, which from then on
  is open to every caller for the whole of a record's life.
\<close>

theorem refresh_undoes_mint:
  assumes "one_home s" "0 < t0" "t0 \<le> t1" "t1 \<le> t2" "t2 \<le> t" "t < t2 + taskOwnerTTL" "owner \<noteq> ''''" "up \<noteq> ''''"
    and "load_task sha s i t0 = (Some r, s1)" "tr_owner r = ''''" "tr_upstreamID r \<noteq> ''''"
    and "rec_at s t1 (task_key sha i) = Some r"
  shows "(\<exists>m. rec_at (storeTaskAffinity sha s1 i up owner t1) t1 (task_key sha i) = Some m \<and> tr_owner m = owner) \<and>
     rec_at (put_task sha (storeTaskAffinity sha s1 i up owner t1) i r t2) t (task_key sha i) = Some r"
proof
  note l0 = store_of_load [OF assms(1,9)]
  obtain old s2 where l: "load_task sha s1 i t1 = (old, s2)" by fastforce
  note l1 = store_of_load [OF l0(2) l]
  have s2: "one_home s2" by (rule l1(2))
  have o: "old = Some r" using l1(1) l0(3) [OF assms(3)] assms(12) by (simp add: rec_at_def)
  have "map_view (storeTaskAffinity sha s1 i up owner t1) t1 (task_key sha i) = Some (wireTaskRecord (mergeTaskOwner old up owner))"
    unfolding storeTaskAffinity_def l put_task_def prod.case
    by (rule ms.put_own [OF s2]) (use assms(2,3) in \<open>simp_all add: taskOwnerTTL_def\<close>)
  then show "\<exists>m. rec_at (storeTaskAffinity sha s1 i up owner t1) t1 (task_key sha i) = Some m \<and> tr_owner m = owner"
    using assms(8,10) by (simp add: rec_at_def o mergeTaskOwner_def)
  have "map_view (put_task sha (storeTaskAffinity sha s1 i up owner t1) i r t2) t (task_key sha i) = Some (wireTaskRecord r)"
    unfolding put_task_def
    by (rule ms.put_own [OF one_home_affinity [OF l0(2)]])
      (use assms(2-6) in \<open>simp_all add: taskOwnerTTL_def\<close>)
  then show "rec_at (put_task sha (storeTaskAffinity sha s1 i up owner t1) i r t2) t (task_key sha i) = Some r"
    using assms(11) by (simp add: rec_at_def)
qed

definition ownerless_task :: taskOwners where
  "ownerless_task = put_task id NewMemStore ''x'' \<lparr>tr_upstreamID = ''w'', tr_owner = ''''\<rparr> 1"

lemma ownerless_at: "t < 1 + taskOwnerTTL \<Longrightarrow>
  rec_at ownerless_task t (task_key id ''x'') = Some \<lparr>tr_upstreamID = ''w'', tr_owner = ''''\<rparr>"
  using ms.put_own [of NewMemStore 1 taskOwnerTTL t "task_key id ''x''" "wireTaskRecord \<lparr>tr_upstreamID = ''w'', tr_owner = ''''\<rparr>"]
  by (simp add: ownerless_task_def put_task_def rec_at_def NewMemStore_def New_one_home taskOwnerTTL_def)

theorem refresh_undoes_mint_witness:
  "rec_at (put_task id (storeTaskAffinity id (snd (load_task id ownerless_task ''x'' 2)) ''x'' ''w'' ''bob'' 3) ''x''
      \<lparr>tr_upstreamID = ''w'', tr_owner = ''''\<rparr> 4) 5 (task_key id ''x'') = Some \<lparr>tr_upstreamID = ''w'', tr_owner = ''''\<rparr>"
proof -
  have h: "one_home ownerless_task"
    unfolding ownerless_task_def by (rule one_home_put_task) (simp add: NewMemStore_def New_one_home)
  have "load_task id ownerless_task ''x'' 2
      = (Some \<lparr>tr_upstreamID = ''w'', tr_owner = ''''\<rparr>, snd (load_task id ownerless_task ''x'' 2))"
    using load_task_spec(1) [OF h, of id "''x''" 2] ownerless_at [of 2] by (simp add: prod_eq_iff taskOwnerTTL_def)
  then show ?thesis
    using refresh_undoes_mint [OF h, of 2 3 4 5 "''bob''" "''w''" id "''x''"] ownerless_at [of 3]
    by (simp add: taskOwnerTTL_def)
qed

end
