(* ===== verification/Config_Document.thy ===== *)
theory Config_Document
  imports Decision_Hook
begin

section \<open>The configuration document\<close>

text \<open>
  The sections of the document that are not modelled with the component that reads them, and the accessors
  that resolve their defaults (src/config/config.go). A pointer to a section is an option; a map
  whose order matters nowhere is a list of its entries; integers are the decoded JSON integers.

  \<open>HostAllowed\<close> is the host pattern check that bounds discovered upstreams; \<open>net.SplitHostPort\<close> and,
  for patterns outside ASCII, the Unicode lower casing are arguments.
\<close>

subsection \<open>Upstreams\<close>

record Owner =
  ow_Org :: string
  ow_Team :: string
  ow_Contact :: string

record ClientAuth =
  ca_Type :: string
  ca_SecretRef :: string

record UpstreamAuth =
  ua_Strategy :: string
  ua_SecretRef :: string
  ua_Header :: string
  ua_Scheme :: string
  ua_TokenEndpoint :: string
  ua_ClientID :: string
  ua_ClientAuth :: "ClientAuth option"
  ua_Scopes :: "string list"
  ua_Resource :: string
  ua_Audience :: string

record Timeouts =
  to_ConnectMs :: int
  to_RequestMs :: int
  to_StreamIdleMs :: int

record HealthCheck =
  hc_IntervalMs :: int

record CircuitBreaker =
  cb_FailureThreshold :: int
  cb_HalfOpenAfterMs :: int

record Upstream =
  uc_ID :: string
  uc_URL :: string
  uc_URLs :: "string list"
  uc_Namespace :: string
  uc_Protocol :: string
  uc_Owner :: "Owner option"
  uc_Labels :: "(string \<times> string) list"
  uc_Auth :: "UpstreamAuth option"
  uc_Timeouts :: "Timeouts option"
  uc_CircuitBreaker :: "CircuitBreaker option"
  uc_RateLimit :: "RateLimitCfg option"
  uc_Budget :: "BudgetCfg option"
  uc_HealthCheck :: "HealthCheck option"
  uc_CacheTTLMs :: int
  uc_MaxResponseBytes :: int
  uc_PinDefinitions :: string

subsection \<open>Authentication, audit, routing, tracing, discovery\<close>

record Issuer =
  is_Issuer :: string
  is_JWKSURI :: string
  is_GroupsClaim :: string
  is_Mode :: string

record EMAConfig =
  em_IdpIssuer :: string
  em_IdpJWKSURI :: string
  em_SigningKeyRef :: string
  em_TokenTTLSec :: int
  em_TokenRateLimitPerMinute :: int
  em_AllowedAssertionTypes :: "string list"
  em_AllowedClientIDs :: "string list"

record Auth =
  au_Mode :: string
  au_Resource :: string
  au_Issuers :: "Issuer list"
  au_EMA :: "EMAConfig option"

record AuditScrub =
  sc_RedactUsageKeys :: "string list"
  sc_MaxErrorLength :: int

record AuditRetry =
  ar_MaxAttempts :: int
  ar_InitialBackoffMs :: int
  ar_MaxBackoffMs :: int

record AuditSink =
  sk_Type :: string
  sk_URL :: string
  sk_Headers :: "(string \<times> string) list"
  sk_BearerSecretRef :: string
  sk_Path :: string
  sk_MaxSizeMb :: int
  sk_MaxFiles :: int
  sk_Retry :: "AuditRetry option"
  sk_DeadLetterPath :: string

record Audit =
  ad_Sinks :: "AuditSink list"
  ad_Scrub :: "AuditScrub option"
  ad_RequireDurable :: bool

record Routing =
  ro_NamespaceSeparator :: string
  ro_PageSize :: int

record Tracing =
  tg_OTLPEndpoint :: string
  tg_ServiceName :: string
  tg_SampleRatio :: rat
  tg_RecordPrincipal :: bool

text \<open>An allowlist that is absent (\<open>None\<close>) restricts nothing; an empty one permits nothing.\<close>

record Discovery =
  di_URL :: string
  di_IntervalMs :: int
  di_BearerSecretRef :: string
  di_AllowedAuthStrategies :: "string list option"
  di_AllowedSecretRefs :: "string list option"
  di_AllowedCredentialHosts :: "string list option"
  di_AllowedUpstreamHosts :: "string list option"
  di_MinHealthCheckIntervalMs :: int

subsection \<open>The server section\<close>

record IconsSection =
  ics_Enabled :: "bool option"
  ics_MaxBytes :: int
  ics_TimeoutMs :: int
  ics_CacheTTLMs :: int

record IdentityIcon =
  ii_Src :: string
  ii_MIMEType :: string
  ii_Sizes :: "string list"
  ii_Theme :: string

record Identity =
  id_WebsiteURL :: string
  id_Icons :: "IdentityIcon list"

record Introspection =
  in_Enabled :: bool
  in_Groups :: "string list"

record ConsoleOAuth =
  co_ClientID :: string
  co_Issuer :: string
  co_Scopes :: "string list"

record Console =
  cs_Enabled :: bool
  cs_OAuth :: "ConsoleOAuth option"

record ServerSection =
  sv_MCPPath :: string
  sv_AllowedHosts :: "string list"
  sv_RateLimit :: "RateLimitCfg option"
  sv_AllowedOrigins :: "string list"
  sv_Budget :: "BudgetCfg option"
  sv_MaxBodyBytes :: int
  sv_KeepAliveMs :: int
  sv_SessionIdleTimeoutMs :: int
  sv_RedisURL :: string
  sv_MetricsAllowedHosts :: "string list"
  sv_MetricsAddr :: string
  sv_Introspection :: "Introspection option"
  sv_Console :: "Console option"
  sv_PublicURL :: string
  sv_Icons :: "IconsSection option"
  sv_Identity :: "Identity option"

record Config =
  cf_Upstreams :: "Upstream list"
  cf_Auth :: "Auth option"
  cf_Policy :: "Policy option"
  cf_Audit :: "Audit option"
  cf_Routing :: "Routing option"
  cf_Server :: "ServerSection option"
  cf_Tracing :: "Tracing option"
  cf_Discovery :: "Discovery option"
  cf_Tenants :: "TenantCfg list"
  cf_Hook :: "HookCfg option"

subsection \<open>Library functions on hosts and headers\<close>

text \<open>
  Parsing a URL is an argument, \<open>url_parse\<close>: it yields the scheme and the authority's host or fails. So are
  the lower casing of a string with bytes outside ASCII and the JSON text of a selector. What the
  other library functions do is written out: \<open>Hostname\<close> drops a valid port and the brackets of an
  address, \<open>SplitHostPort\<close> is strict about both.
\<close>

record URL =
  u_Scheme :: string
  u_Host :: string

record lib =
  url_parse :: "string \<Rightarrow> URL option"
  lower_unicode :: "string \<Rightarrow> string"
  marshal_subjects :: "PolicySubjects \<Rightarrow> string option"

definition is_digit :: "char \<Rightarrow> bool" where
  "is_digit c \<longleftrightarrow> c \<in> set ''0123456789''"

fun last_index :: "char \<Rightarrow> string \<Rightarrow> nat option" where
  "last_index c [] = None"
| "last_index c (x # xs) =
     (case last_index c xs of Some i \<Rightarrow> Some (Suc i) | None \<Rightarrow> if x = c then Some 0 else None)"

definition validOptionalPort :: "string \<Rightarrow> bool" where
  "validOptionalPort port = (case port of [] \<Rightarrow> True | c # ds \<Rightarrow> c = CHR '':'' \<and> list_all is_digit ds)"

definition Hostname :: "URL \<Rightarrow> string" where
  "Hostname u =
     (let host = u_Host u;
          host = (case last_index CHR '':'' host of
                    None \<Rightarrow> host
                  | Some i \<Rightarrow> if validOptionalPort (drop i host) then take i host else host)
      in if prefix ''['' host \<and> suffix '']'' host \<and> 2 \<le> length host then butlast (tl host) else host)"

definition SplitHostPort :: "string \<Rightarrow> (string \<times> string) option" where
  "SplitHostPort s =
     (case last_index CHR '':'' s of
        None \<Rightarrow> None
      | Some i \<Rightarrow>
          (case (if prefix ''['' s
                 then (case str_index s '']'' of
                         None \<Rightarrow> None
                       | Some e \<Rightarrow> if e + 1 = i then Some (drop 1 (take e s), 1, e + 1) else None)
                 else if CHR '':'' \<in> set (take i s) then None else Some (take i s, 0, 0)) of
             None \<Rightarrow> None
           | Some (host, j, k) \<Rightarrow>
               if CHR ''['' \<in> set (drop j s) \<or> CHR '']'' \<in> set (drop k s) then None
               else Some (host, drop (i + 1) s)))"

definition is_ascii :: "string \<Rightarrow> bool" where
  "is_ascii s \<longleftrightarrow> list_all (\<lambda>c. of_char c \<le> (127::nat)) s"

definition lower_byte :: "char \<Rightarrow> char" where
  "lower_byte c = (let n = of_char c :: nat in if 65 \<le> n \<and> n \<le> 90 then char_of (n + 32) else c)"

definition ToLower :: "lib \<Rightarrow> string \<Rightarrow> string" where
  "ToLower L s = (if is_ascii s then map lower_byte s else lower_unicode L s)"

definition TrimBrackets :: "string \<Rightarrow> string" where
  "TrimBrackets s =
     (let cut = dropWhile (\<lambda>c. c = CHR ''['' \<or> c = CHR '']'') in rev (cut (rev (cut s))))"

text \<open>A string of white space only, in UTF-8: the strings \<open>TrimSpace\<close> maps to the empty one.\<close>

fun blank :: "string \<Rightarrow> bool" where
  "blank [] = True"
| "blank (a # s) =
     (if a \<in> {CHR 0x09, CHR 0x0A, CHR 0x0B, CHR 0x0C, CHR 0x0D, CHR 0x20} then blank s
      else (case s of
              [] \<Rightarrow> False
            | b # s' \<Rightarrow>
                if a = CHR 0xC2 \<and> b \<in> {CHR 0x85, CHR 0xA0} then blank s'
                else (case s' of
                        [] \<Rightarrow> False
                      | c # s'' \<Rightarrow>
                          if (a, b, c) = (CHR 0xE1, CHR 0x9A, CHR 0x80) \<or>
                             (a = CHR 0xE2 \<and> b = CHR 0x80 \<and>
                                c \<in> {CHR 0x80, CHR 0x81, CHR 0x82, CHR 0x83, CHR 0x84, CHR 0x85, CHR 0x86, CHR 0x87,
                                     CHR 0x88, CHR 0x89, CHR 0x8A, CHR 0xA8, CHR 0xA9, CHR 0xAF}) \<or>
                             (a, b, c) = (CHR 0xE2, CHR 0x81, CHR 0x9F) \<or> (a, b, c) = (CHR 0xE3, CHR 0x80, CHR 0x80)
                          then blank s'' else False)))"

definition host_matches :: "lib \<Rightarrow> string \<Rightarrow> string \<Rightarrow> bool" where
  "host_matches L host pat =
     (let p = ToLower L pat
      in if prefix ''*.'' p then suffix (''.'' @ drop 2 p) host else host = p)"

definition HostAllowed :: "lib \<Rightarrow> string list \<Rightarrow> string \<Rightarrow> bool" where
  "HostAllowed L patterns host0 =
     (let host = (case SplitHostPort host0 of Some (h, _) \<Rightarrow> h | None \<Rightarrow> host0)
      in if \<not> is_ascii host then False
         else list_ex (host_matches L (map lower_byte (TrimBrackets host))) patterns)"

definition hasAuthorizationHeader :: "(string \<times> string) list \<Rightarrow> bool" where
  "hasAuthorizationHeader headers \<longleftrightarrow> list_ex (\<lambda>(name, _). map lower_byte name = ''authorization'') headers"

subsection \<open>Resolved values\<close>

definition ms :: "int \<Rightarrow> duration" where
  "ms n = wrap64 (n * 1000000)"

definition MinHealthCheckIntervalResolved :: "Discovery \<Rightarrow> int" where
  "MinHealthCheckIntervalResolved d =
     (if 0 < di_MinHealthCheckIntervalMs d then di_MinHealthCheckIntervalMs d else 1000)"

definition ResolvedTokenTTLSec :: "EMAConfig \<Rightarrow> int" where
  "ResolvedTokenTTLSec e = (if 0 < em_TokenTTLSec e then em_TokenTTLSec e else 600)"

definition ResolvedTokenRateLimit :: "EMAConfig \<Rightarrow> int" where
  "ResolvedTokenRateLimit e = (if 0 < em_TokenRateLimitPerMinute e then em_TokenRateLimitPerMinute e else 600)"

definition Endpoints :: "Upstream \<Rightarrow> string list" where
  "Endpoints u = (if uc_URLs u \<noteq> [] then uc_URLs u else if uc_URL u \<noteq> '''' then [uc_URL u] else [])"

definition Durable :: "AuditSink \<Rightarrow> bool" where
  "Durable s =
     (if sk_Type s = ''file'' then True
      else if sk_Type s = ''webhook'' \<or> sk_Type s = ''otlp-logs'' then sk_DeadLetterPath s \<noteq> ''''
      else False)"

definition hasUpstream :: "Config \<Rightarrow> string \<Rightarrow> bool" where
  "hasUpstream c i \<longleftrightarrow> list_ex (\<lambda>u. uc_ID u = i) (cf_Upstreams c)"

definition AuthRequired :: "Config \<Rightarrow> bool" where
  "AuthRequired c = (case cf_Auth c of None \<Rightarrow> False | Some a \<Rightarrow> au_Mode a = ''required'')"

definition Passthrough :: "Config \<Rightarrow> bool" where
  "Passthrough c = (case cf_Upstreams c of [u] \<Rightarrow> uc_Namespace u = '''' | _ \<Rightarrow> False)"

definition PageSize :: "Config \<Rightarrow> int" where
  "PageSize c =
     (case cf_Routing c of
        None \<Rightarrow> 200
      | Some r \<Rightarrow> if ro_PageSize r = 0 then 200 else if ro_PageSize r < 0 then 0 else ro_PageSize r)"

definition NamespaceSeparator :: "Config \<Rightarrow> string" where
  "NamespaceSeparator c =
     (case cf_Routing c of
        Some r \<Rightarrow> if ro_NamespaceSeparator r \<noteq> '''' then ro_NamespaceSeparator r else ''__''
      | None \<Rightarrow> ''__'')"

definition MaxBodyBytes :: "Config \<Rightarrow> int" where
  "MaxBodyBytes c =
     (case cf_Server c of Some s \<Rightarrow> if 0 < sv_MaxBodyBytes s then sv_MaxBodyBytes s else 1048576 | None \<Rightarrow> 1048576)"

definition SessionIdleTimeoutMs :: "Config \<Rightarrow> int" where
  "SessionIdleTimeoutMs c =
     (case cf_Server c of
        Some s \<Rightarrow> if sv_SessionIdleTimeoutMs s \<noteq> 0 then max (sv_SessionIdleTimeoutMs s) 0 else 30 * 60 * 1000
      | None \<Rightarrow> 30 * 60 * 1000)"

definition MCPPath :: "Config \<Rightarrow> string" where
  "MCPPath c = (case cf_Server c of Some s \<Rightarrow> if sv_MCPPath s \<noteq> '''' then sv_MCPPath s else ''/mcp'' | None \<Rightarrow> ''/mcp'')"

definition icons_section :: "Config \<Rightarrow> IconsSection option" where
  "icons_section c = Option.bind (cf_Server c) sv_Icons"

definition IconsEnabled :: "Config \<Rightarrow> bool" where
  "IconsEnabled c =
     (case icons_section c of None \<Rightarrow> True | Some i \<Rightarrow> (case ics_Enabled i of None \<Rightarrow> True | Some b \<Rightarrow> b))"

definition IconMaxBytes :: "Config \<Rightarrow> int" where
  "IconMaxBytes c = (case icons_section c of Some i \<Rightarrow> if 0 < ics_MaxBytes i then ics_MaxBytes i else 262144 | None \<Rightarrow> 262144)"

definition IconTimeout :: "Config \<Rightarrow> duration" where
  "IconTimeout c =
     (case icons_section c of Some i \<Rightarrow> if 0 < ics_TimeoutMs i then ms (ics_TimeoutMs i) else 5 * second | None \<Rightarrow> 5 * second)"

definition IconCacheTTL :: "Config \<Rightarrow> duration" where
  "IconCacheTTL c =
     (case icons_section c of Some i \<Rightarrow> if 0 < ics_CacheTTLMs i then ms (ics_CacheTTLMs i) else hour | None \<Rightarrow> hour)"

definition trim_slashes :: "string \<Rightarrow> string" where
  "trim_slashes s = rev (dropWhile (\<lambda>c. c = CHR ''/'') (rev s))"

definition PublicURL :: "Config \<Rightarrow> string" where
  "PublicURL c =
     (case cf_Server c of
        Some s \<Rightarrow> if sv_PublicURL s \<noteq> '''' then trim_slashes (sv_PublicURL s)
                 else (case cf_Auth c of Some a \<Rightarrow> trim_slashes (au_Resource a) | None \<Rightarrow> '''')
      | None \<Rightarrow> (case cf_Auth c of Some a \<Rightarrow> trim_slashes (au_Resource a) | None \<Rightarrow> ''''))"

definition KeepAlive :: "Config \<Rightarrow> duration" where
  "KeepAlive c = (case cf_Server c of Some s \<Rightarrow> if sv_KeepAliveMs s \<le> 0 then 0 else ms (sv_KeepAliveMs s) | None \<Rightarrow> 0)"

definition IntrospectionEnabled :: "Config \<Rightarrow> bool" where
  "IntrospectionEnabled c = (case Option.bind (cf_Server c) sv_Introspection of None \<Rightarrow> False | Some i \<Rightarrow> in_Enabled i)"

definition IntrospectionGroups :: "Config \<Rightarrow> string list" where
  "IntrospectionGroups c = (case Option.bind (cf_Server c) sv_Introspection of None \<Rightarrow> [] | Some i \<Rightarrow> in_Groups i)"

definition ConsoleEnabled :: "Config \<Rightarrow> bool" where
  "ConsoleEnabled c = (case Option.bind (cf_Server c) sv_Console of None \<Rightarrow> False | Some x \<Rightarrow> cs_Enabled x)"

definition console_oauth :: "Config \<Rightarrow> ConsoleOAuth option" where
  "console_oauth c = Option.bind (Option.bind (cf_Server c) sv_Console) cs_OAuth"

end
