(* ===== verification/Config_Validation.thy ===== *)
theory Config_Validation
  imports Config_Document
begin

section \<open>Validation of the configuration document\<close>

text \<open>
  \<open>Validate\<close> of src/config/config.go, section by section in the order of the code. An error is the
  format of its message and the values put into it; what a message explains after a dash is left out. A
  validation is a sequence of checks of which the first that fails is reported, \<open>first_error\<close>.

  The theorems: what is accepted is well formed (the names of upstreams can be told apart, and the
  separator cannot occur in them), every endpoint that secrets or keys travel to is protected, and
  nothing that acts for an unauthenticated caller is accepted.
\<close>

datatype config_error = Errorf string "string list"

type_synonym check = "config_error option"

fun first_error :: "check list \<Rightarrow> check" where
  "first_error [] = None"
| "first_error (c # cs) = (case c of None \<Rightarrow> first_error cs | Some e \<Rightarrow> Some e)"

definition refuse :: "bool \<Rightarrow> string \<Rightarrow> string list \<Rightarrow> check" where
  "refuse b msg args = (if b then Some (Errorf msg args) else None)"

definition each :: "'a list \<Rightarrow> ('a \<Rightarrow> check) \<Rightarrow> check" where
  "each xs f = first_error (map f xs)"

definition with_section :: "'a option \<Rightarrow> ('a \<Rightarrow> check) \<Rightarrow> check" where
  "with_section s f = (case s of None \<Rightarrow> None | Some x \<Rightarrow> f x)"

lemma first_error_None [simp]: "first_error cs = None \<longleftrightarrow> (\<forall>c \<in> set cs. c = None)"
  by (induction cs) (auto split: option.splits)

declare first_error.simps [simp del]

lemma refuse_None [simp]: "refuse b msg args = None \<longleftrightarrow> \<not> b"
  by (simp add: refuse_def)

lemma each_None [simp]: "each xs f = None \<longleftrightarrow> (\<forall>x \<in> set xs. f x = None)"
  by (simp add: each_def)

lemma with_section_None [simp]: "with_section s f = None \<longleftrightarrow> (\<forall>x. s = Some x \<longrightarrow> f x = None)"
  by (simp add: with_section_def split: option.splits)

subsection \<open>Names and endpoints\<close>

definition id_char :: "char \<Rightarrow> bool" where
  "id_char c \<longleftrightarrow> c \<in> set ''abcdefghijklmnopqrstuvwxyz0123456789-''"

definition idRE :: "string \<Rightarrow> bool" where
  "idRE s = (case s of [] \<Rightarrow> False | c # _ \<Rightarrow> c \<noteq> CHR ''-'' \<and> list_all id_char s)"

definition sepCollisionRE :: "string \<Rightarrow> bool" where
  "sepCollisionRE s \<longleftrightarrow> list_ex id_char s"

definition http_url :: "lib \<Rightarrow> string \<Rightarrow> bool" where
  "http_url L s = (case url_parse L s of None \<Rightarrow> False | Some u \<Rightarrow> u_Scheme u = ''http'' \<or> u_Scheme u = ''https'')"

definition requireSecureEndpoint :: "lib \<Rightarrow> string \<Rightarrow> string \<Rightarrow> check" where
  "requireSecureEndpoint L what endpoint =
     (case url_parse L endpoint of
        None \<Rightarrow> Some (Errorf ''%s: %q is not a valid URL'' [what, endpoint])
      | Some parsed \<Rightarrow>
          if u_Scheme parsed = ''https'' then None
          else let host = Hostname parsed
               in if u_Scheme parsed = ''http'' \<and> (host = ''localhost'' \<or> host = ''127.0.0.1'' \<or> host = ''::1'') then None
                  else Some (Errorf ''%s: must use https (got %q)'' [what, endpoint]))"

text \<open>\<open>%q\<close> of a string that matches \<open>idRE\<close>.\<close>

definition quoted :: "string \<Rightarrow> string" where
  "quoted i = CHR 0x22 # i @ [CHR 0x22]"

definition budget_check :: "BudgetCfg option \<Rightarrow> string \<Rightarrow> check" where
  "budget_check b scope =
     (case validate_budget b of
        None \<Rightarrow> None
      | Some BadPeriod \<Rightarrow> Some (Errorf ''%s: budget.period must be %q, %q, or %q'' [scope, ''hour'', ''day'', ''month''])
      | Some NotPositive \<Rightarrow> Some (Errorf ''%s: budget.upstreamCalls must be positive'' [scope]))"

subsection \<open>Upstreams\<close>

definition minMaxResponseBytes :: int where "minMaxResponseBytes = 65536"
definition minIconBytes :: int where "minIconBytes = 1024"

definition validateAuth :: "lib \<Rightarrow> Upstream \<Rightarrow> check" where
  "validateAuth L u = with_section (uc_Auth u) (\<lambda>a.
     let s = ua_Strategy a in
     first_error
      [if s \<in> {'''', ''none'', ''passthrough''} then None
       else if s = ''static''
       then refuse (ua_SecretRef a = '''') ''upstream %q: static auth requires secretRef'' [uc_ID u]
       else if s = ''client-credentials''
       then first_error
         [refuse (ua_TokenEndpoint a = '''' \<or> ua_ClientID a = '''' \<or> ua_ClientAuth a = None)
            ''upstream %q: client-credentials auth requires tokenEndpoint, clientId, clientAuth'' [uc_ID u],
          requireSecureEndpoint L (''upstream '' @ quoted (uc_ID u) @ '' tokenEndpoint'') (ua_TokenEndpoint a)]
       else if s = ''token-exchange''
       then first_error
         [refuse (ua_TokenEndpoint a = '''' \<or> ua_ClientID a = '''' \<or> ua_ClientAuth a = None \<or> ua_Audience a = '''')
            ''upstream %q: token-exchange auth requires tokenEndpoint, clientId, clientAuth, audience'' [uc_ID u],
          requireSecureEndpoint L (''upstream '' @ quoted (uc_ID u) @ '' tokenEndpoint'') (ua_TokenEndpoint a)]
       else Some (Errorf ''upstream %q: unknown auth strategy %q'' [uc_ID u, s]),
       with_section (ua_ClientAuth a) (\<lambda>ca. first_error
         [refuse (ca_Type ca \<notin> {''client_secret_post'', ''client_secret_basic''})
            ''upstream %q: clientAuth.type must be client_secret_post or client_secret_basic'' [uc_ID u],
          refuse (ca_SecretRef ca = '''') ''upstream %q: clientAuth.secretRef is required'' [uc_ID u]])])"

fun check_endpoints :: "lib \<Rightarrow> string \<Rightarrow> string set \<Rightarrow> string list \<Rightarrow> check" where
  "check_endpoints L i seenEp [] = None"
| "check_endpoints L i seenEp (ep # eps) =
     (if \<not> http_url L ep then Some (Errorf ''upstream %q: %q must be an absolute http(s) URL'' [i, ep])
      else if ep \<in> seenEp then Some (Errorf ''upstream %q: duplicate endpoint %q'' [i, ep])
      else check_endpoints L i (insert ep seenEp) eps)"

definition check_identity :: "lib \<Rightarrow> string set \<Rightarrow> string set \<Rightarrow> Upstream \<Rightarrow> check" where
  "check_identity L seenID seenNS u = first_error
     [refuse (\<not> idRE (uc_ID u)) ''upstream %q: id must be lowercase alphanumeric + hyphens'' [uc_ID u],
      refuse (uc_ID u \<in> seenID) ''upstream %q: duplicate id'' [uc_ID u],
      refuse (uc_URL u \<noteq> '''' \<and> uc_URLs u \<noteq> []) ''upstream %q: set url or urls, not both'' [uc_ID u],
      refuse (uc_PinDefinitions u \<notin> {'''', ''off'', ''warn''}) ''upstream %q: pinDefinitions must be %q or %q''
        [uc_ID u, ''off'', ''warn''],
      refuse (Endpoints u = []) ''upstream %q: url (or urls) is required'' [uc_ID u],
      check_endpoints L (uc_ID u) {} (Endpoints u),
      (if uc_Namespace u = '''' then None
       else first_error
         [refuse (\<not> idRE (uc_Namespace u)) ''upstream %q: namespace must be lowercase alphanumeric + hyphens'' [uc_ID u],
          refuse (uc_Namespace u \<in> seenNS) ''upstream %q: duplicate namespace %q'' [uc_ID u, uc_Namespace u]])]"

definition check_limits :: "lib \<Rightarrow> Config \<Rightarrow> Upstream \<Rightarrow> check" where
  "check_limits L c u = first_error
     [with_section (uc_HealthCheck u) (\<lambda>h.
        refuse (hc_IntervalMs h \<le> 0) ''upstream %q: healthCheck.intervalMs must be positive'' [uc_ID u]),
      refuse (0 < uc_MaxResponseBytes u \<and> uc_MaxResponseBytes u < minMaxResponseBytes)
        ''upstream %q: maxResponseBytes must be at least %d bytes (64 KiB) or negative to disable; %d''
          [uc_ID u, dec (nat minMaxResponseBytes), dec (nat (uc_MaxResponseBytes u))],
      with_section (uc_Timeouts u) (\<lambda>t.
        refuse (to_ConnectMs t < 0 \<or> to_RequestMs t < 0 \<or> to_StreamIdleMs t < 0)
          ''upstream %q: timeouts must not be negative'' [uc_ID u]),
      with_section (uc_CircuitBreaker u) (\<lambda>cb.
        refuse (cb_FailureThreshold cb < 0 \<or> cb_HalfOpenAfterMs cb < 0)
          ''upstream %q: circuitBreaker values must not be negative'' [uc_ID u]),
      budget_check (uc_Budget u) (''upstream '' @ quoted (uc_ID u)),
      refuse (uc_Protocol u \<notin> {'''', ''session'', ''auto'', ''2026-07-28''})
        ''upstream %q: protocol must be %q, %q, or %q'' [uc_ID u, ''session'', ''auto'', ''2026-07-28''],
      validateAuth L u,
      with_section (uc_Auth u) (\<lambda>a.
        refuse (ua_Strategy a \<in> {''passthrough'', ''token-exchange''} \<and> \<not> AuthRequired c)
          ''upstream %q: auth strategy %q requires auth.mode %q'' [uc_ID u, ua_Strategy a, ''required''])]"

fun check_upstreams :: "lib \<Rightarrow> Config \<Rightarrow> string set \<Rightarrow> string set \<Rightarrow> Upstream list \<Rightarrow> check" where
  "check_upstreams L c seenID seenNS [] = None"
| "check_upstreams L c seenID seenNS (u # us) =
     first_error
      [check_identity L seenID seenNS u,
       check_limits L c u,
       check_upstreams L c (insert (uc_ID u) seenID)
         (if uc_Namespace u = '''' then seenNS else insert (uc_Namespace u) seenNS) us]"

definition check_federation :: "lib \<Rightarrow> Config \<Rightarrow> check" where
  "check_federation L c = first_error
     [refuse (cf_Upstreams c = [] \<and> (case cf_Discovery c of None \<Rightarrow> True | Some d \<Rightarrow> di_URL d = ''''))
        ''config: at least one upstream is required, or discovery.url to obtain them'' [],
      check_upstreams L c {} {} (cf_Upstreams c),
      (if 1 < length (cf_Upstreams c)
       then each (cf_Upstreams c) (\<lambda>u. refuse (uc_Namespace u = '''')
              ''upstream %q: namespace is required when multiple upstreams are configured'' [uc_ID u])
       else None),
      with_section (cf_Routing c) (\<lambda>r.
        refuse (ro_NamespaceSeparator r \<noteq> '''' \<and> sepCollisionRE (ro_NamespaceSeparator r))
          ''routing: namespaceSeparator %q must not contain lowercase letters, digits, or hyphens'' [ro_NamespaceSeparator r])]"

subsection \<open>The server section\<close>

definition reserved_paths :: "string list" where
  "reserved_paths =
     [''/health'', ''/metrics'', ''/console'', ''/console/'', ''/api/federation'', ''/api/auth-hint'', ''/oauth/token'',
      ''/icons'', ''/icons/'']"

definition check_icon :: "lib \<Rightarrow> nat \<Rightarrow> IdentityIcon \<Rightarrow> check" where
  "check_icon L i icon = first_error
     [refuse (ii_Src icon = '''') ''server: identity.icons[%d] has no src'' [dec i],
      (if prefix ''data:'' (ii_Src icon) then None
       else requireSecureEndpoint L (''server: identity.icons['' @ dec i @ ''].src'') (ii_Src icon)),
      refuse (ii_Theme icon \<notin> {'''', ''light'', ''dark''}) ''server: identity.icons[%d].theme must be light or dark''
        [dec i, ii_Theme icon]]"

definition check_server :: "lib \<Rightarrow> Config \<Rightarrow> check" where
  "check_server L c = with_section (cf_Server c) (\<lambda>s. first_error
     [refuse (sv_MaxBodyBytes s < 0) ''server: maxBodyBytes must be positive'' [],
      (if sv_PublicURL s = '''' then None else requireSecureEndpoint L ''server: publicUrl'' (sv_PublicURL s)),
      with_section (sv_Icons s) (\<lambda>ic. first_error
        [refuse (ics_MaxBytes ic < 0 \<or> ics_TimeoutMs ic < 0 \<or> ics_CacheTTLMs ic < 0)
           ''server: icons maxBytes, timeoutMs, and cacheTtlMs must not be negative'' [],
         refuse (0 < ics_MaxBytes ic \<and> ics_MaxBytes ic < minIconBytes)
           ''server: icons maxBytes must be at least %d (got %d)'' [dec (nat minIconBytes), dec (nat (ics_MaxBytes ic))]]),
      with_section (sv_Identity s) (\<lambda>i. each (List.enumerate 0 (id_Icons i)) (\<lambda>(n, icon). check_icon L n icon)),
      refuse (sv_MetricsAddr s \<noteq> '''' \<and> SplitHostPort (sv_MetricsAddr s) = None) ''server: metricsAddr must be host:port'' [],
      (if sv_MCPPath s = '''' then None
       else first_error
         [refuse (sv_MCPPath s \<in> set reserved_paths) ''server: mcpPath %q is reserved by the gateway'' [sv_MCPPath s],
          refuse (prefix ''/.well-known/'' (sv_MCPPath s)) ''server: mcpPath %q is reserved by the gateway'' [sv_MCPPath s]]),
      budget_check (sv_Budget s) ''server''])"

text \<open>\<open>ConsoleOAuthIssuer\<close>: the issuer, or which of its three errors.\<close>

definition ConsoleOAuthIssuer :: "Config \<Rightarrow> config_error + Issuer" where
  "ConsoleOAuthIssuer c =
     (case (console_oauth c, cf_Auth c) of
        (Some oa, Some a) \<Rightarrow>
          (case find (\<lambda>i. (is_Mode i = '''' \<or> is_Mode i = ''direct'') \<and> (co_Issuer oa = '''' \<or> is_Issuer i = co_Issuer oa))
                  (au_Issuers a) of
             Some i \<Rightarrow> Inr i
           | None \<Rightarrow>
               if co_Issuer oa \<noteq> ''''
               then Inl (Errorf ''server: console.oauth.issuer %q does not match a trusted direct-mode auth issuer'' [co_Issuer oa])
               else Inl (Errorf ''server: console.oauth requires at least one direct-mode issuer'' []))
      | _ \<Rightarrow> Inl (Errorf ''server: console.oauth is not configured'' []))"

definition check_console :: "Config \<Rightarrow> check" where
  "check_console c = first_error
     [(if IntrospectionGroups c = [] then None
       else first_error
         [each (IntrospectionGroups c) (\<lambda>g. refuse (g = '''') ''server: introspection.groups entries must not be empty'' []),
          refuse (\<not> AuthRequired c) ''server: introspection.groups requires auth.mode %q'' [''required'']]),
      refuse (ConsoleEnabled c \<and> \<not> IntrospectionEnabled c) ''server: console.enabled requires introspection.enabled'' [],
      with_section (console_oauth c) (\<lambda>oa. first_error
        [refuse (co_ClientID oa = '''') ''server: console.oauth requires clientId'' [],
         refuse (\<not> ConsoleEnabled c) ''server: console.oauth requires console.enabled'' [],
         refuse (\<not> AuthRequired c) ''server: console.oauth requires auth.mode %q'' [''required''],
         (case ConsoleOAuthIssuer c of Inl e \<Rightarrow> Some e | Inr _ \<Rightarrow> None)])]"

definition bad_origin :: "string \<Rightarrow> bool" where
  "bad_origin pat \<longleftrightarrow>
     pat = '''' \<or> str_index pat ''://'' \<noteq> None \<or> str_index pat ''/'' \<noteq> None \<or> (prefix ''*'' pat \<and> \<not> prefix ''*.'' pat)"

definition check_origins :: "Config \<Rightarrow> check" where
  "check_origins c = with_section (cf_Server c) (\<lambda>s. each (sv_AllowedOrigins s) (\<lambda>pat.
     refuse (pat \<noteq> ''*'' \<and> bad_origin pat) ''server: allowedOrigins: %q is not a hostname, suffix pattern, or *'' [pat]))"

subsection \<open>Tenants and the hook\<close>

fun check_tenants :: "lib \<Rightarrow> Config \<Rightarrow> string set \<Rightarrow> (string \<rightharpoonup> string) \<Rightarrow> TenantCfg list \<Rightarrow> check" where
  "check_tenants L c seen fingerprints [] = None"
| "check_tenants L c seen fingerprints (t # ts) =
     (if \<not> idRE (tc_ID t) then Some (Errorf ''tenant %q: id must be lowercase alphanumeric + hyphens'' [tc_ID t])
      else if tc_ID t \<in> seen then Some (Errorf ''tenant %q: duplicate id'' [tc_ID t])
      else case tc_Subjects t of
             None \<Rightarrow> Some (Errorf ''tenant %q: subjects is required'' [tc_ID t])
           | Some subs \<Rightarrow>
               (case marshal_subjects L subs of
                  None \<Rightarrow> Some (Errorf ''tenant %q: %w'' [tc_ID t])
                | Some fp \<Rightarrow>
                    (case fingerprints fp of
                       Some other \<Rightarrow> Some (Errorf ''tenant %q: identical subjects to tenant %q'' [tc_ID t, other])
                     | None \<Rightarrow>
                         first_error
                          [each (ps_Scopes subs) (\<lambda>sc. refuse (blank sc) ''tenant %q: scopes must not contain empty values'' [tc_ID t]),
                           budget_check (tc_Budget t) (''tenant '' @ quoted (tc_ID t)),
                           with_section (tc_RateLimit t) (\<lambda>rl.
                             refuse (PerPrincipalPerMinute rl \<noteq> 0)
                               ''tenant %q: rateLimit.perPrincipalPerMinute is server-level only'' [tc_ID t]),
                           each (tc_Upstreams t) (\<lambda>i.
                             refuse (\<not> hasUpstream c i) ''tenant %q: upstreams references unknown upstream %q'' [tc_ID t, i]),
                           check_tenants L c (insert (tc_ID t) seen) (fingerprints(fp \<mapsto> tc_ID t)) ts])))"

definition validateTenants :: "lib \<Rightarrow> Config \<Rightarrow> check" where
  "validateTenants L c = check_tenants L c {} Map.empty (cf_Tenants c)"

definition validateHook :: "lib \<Rightarrow> Config \<Rightarrow> check" where
  "validateHook L c = with_section (cf_Hook c) (\<lambda>h. first_error
     [requireSecureEndpoint L ''hook url'' (hk_URL h),
      refuse (hk_TimeoutMs h \<le> 0) ''hook: timeoutMs is required and must be positive'' [],
      refuse (hk_OnError h \<notin> {''allow'', ''deny''}) ''hook: onError is required and must be %q or %q'' [''allow'', ''deny''],
      each (hk_Stages h) (\<lambda>s. refuse (s \<notin> {''ingress'', ''egress'', ''serverInitiated''}) ''hook: unknown stage %q'' [s]),
      each (hk_Methods h) (\<lambda>m.
        refuse (m \<notin> {''tools/call'', ''prompts/get'', ''sampling/createMessage'', ''elicitation/create''})
          ''hook: methods entry %q is not inspectable'' [m])])"

subsection \<open>Authentication\<close>

definition check_issuer :: "lib \<Rightarrow> Issuer \<Rightarrow> check" where
  "check_issuer L i = first_error
     [refuse (url_parse L (is_Issuer i) = None \<or> is_Issuer i = '''') ''auth: issuer %q is not a valid URL'' [is_Issuer i],
      requireSecureEndpoint L ''auth issuer'' (is_Issuer i),
      (if is_JWKSURI i = '''' then None else requireSecureEndpoint L ''auth issuer jwksUri'' (is_JWKSURI i)),
      refuse (is_Mode i \<notin> {'''', ''direct'', ''exchange''}) ''auth: issuer %q: mode must be %q or %q''
        [is_Issuer i, ''direct'', ''exchange'']]"

definition check_ema :: "lib \<Rightarrow> Config \<Rightarrow> EMAConfig \<Rightarrow> check" where
  "check_ema L c e = first_error
     [refuse (\<not> AuthRequired c) ''auth: ema requires mode required'' [],
      refuse (em_IdpIssuer e = '''' \<or> em_SigningKeyRef e = '''') ''auth: ema requires idpIssuer and signingKeyRef'' [],
      requireSecureEndpoint L ''auth.ema idpIssuer'' (em_IdpIssuer e),
      (if em_IdpJWKSURI e = '''' then None else requireSecureEndpoint L ''auth.ema idpJwksUri'' (em_IdpJWKSURI e)),
      refuse (em_TokenTTLSec e < 0 \<or> em_TokenRateLimitPerMinute e < 0)
        ''auth: ema tokenTtlSec and tokenRateLimitPerMinute must be positive'' [],
      each (em_AllowedAssertionTypes e) (\<lambda>t. refuse (t = '''') ''auth: ema.allowedAssertionTypes entries must not be empty'' []),
      each (em_AllowedClientIDs e) (\<lambda>i. refuse (i = '''') ''auth: ema.allowedClientIDs entries must not be empty'' [])]"

definition check_auth :: "lib \<Rightarrow> Config \<Rightarrow> check" where
  "check_auth L c = with_section (cf_Auth c) (\<lambda>a. first_error
     [(if au_Mode a = '''' \<or> au_Mode a = ''disabled'' then None
       else if au_Mode a = ''required''
       then first_error
         [refuse (au_Resource a = '''') ''auth: resource is required when mode is required'' [],
          refuse (au_Issuers a = []) ''auth: at least one issuer is required when mode is required'' [],
          each (au_Issuers a) (check_issuer L)]
       else Some (Errorf ''auth: mode must be %q or %q'' [''disabled'', ''required''])),
      with_section (au_EMA a) (check_ema L c)])"

subsection \<open>Policy\<close>

fun scalar :: "json \<Rightarrow> bool" where
  "scalar (JStr _) = True"
| "scalar (JNum _) = True"
| "scalar (JBool _) = True"
| "scalar _ = False"

definition check_clause :: "Config \<Rightarrow> string \<Rightarrow> PolicyAllow \<Rightarrow> check" where
  "check_clause c r a = first_error
     [refuse (pa_Server a \<noteq> '''' \<and> pa_Server a \<noteq> ''*'' \<and> pa_Server a \<notin> uc_ID ` set (cf_Upstreams c))
        ''policy rule %q: unknown server %q'' [r, pa_Server a],
      refuse (pa_ToolKind a \<notin> {'''', ''readOnly'', ''nonDestructive''}) ''policy rule %q: toolKind must be %q or %q''
        [r, ''readOnly'', ''nonDestructive''],
      each (pa_Args a) (\<lambda>(path, v). first_error
        [refuse (path = '''') ''policy rule %q: args paths must not be empty'' [r],
         refuse (\<not> scalar v) ''policy rule %q: args %q must be a JSON scalar'' [r, path]])]"

definition check_rule :: "Config \<Rightarrow> PolicyRule \<Rightarrow> check" where
  "check_rule c r = first_error
     [refuse (pr_ID r = '''') ''policy: every rule needs an id'' [],
      refuse (pr_Allow r = [] \<and> pr_Deny r = []) ''policy rule %q: needs allow or deny'' [pr_ID r],
      refuse (pr_MaxItems r < 0) ''policy rule %q: maxItems must not be negative'' [pr_ID r],
      each (pr_Allow r @ pr_Deny r) (check_clause c (pr_ID r)),
      with_section (pr_Subjects r) (\<lambda>subs. first_error
        [each (ps_Claims subs) (\<lambda>(k, v). first_error
           [refuse (k = '''') ''policy rule %q: claims keys must not be empty'' [pr_ID r],
            refuse (\<not> scalar v) ''policy rule %q: claim %q must be a JSON scalar'' [pr_ID r, k]]),
         each (ps_Scopes subs) (\<lambda>sc. refuse (blank sc) ''policy rule %q: scopes must not contain empty values'' [pr_ID r])])]"

definition check_policy :: "Config \<Rightarrow> check" where
  "check_policy c = with_section (cf_Policy c) (\<lambda>p. first_error
     [refuse (pol_DefaultDecision p \<notin> {'''', ''deny'', ''allow''}) ''policy: defaultDecision must be %q or %q'' [''deny'', ''allow''],
      refuse (pol_ServerInitiatedDecision p \<notin> {'''', ''deny'', ''allow''})
        ''policy: serverInitiatedDecision must be %q or %q'' [''deny'', ''allow''],
      each (pol_Rules p) (check_rule c)])"

subsection \<open>Discovery, tracing, audit\<close>

definition host_pattern :: "string \<Rightarrow> bool" where
  "host_pattern pat \<longleftrightarrow> \<not> (pat = '''' \<or> pat = ''*'' \<or> (prefix ''*'' pat \<and> \<not> prefix ''*.'' pat))"

definition given :: "'a list option \<Rightarrow> 'a list" where
  "given xs = (case xs of None \<Rightarrow> [] | Some ys \<Rightarrow> ys)"

definition check_discovery :: "lib \<Rightarrow> Config \<Rightarrow> check" where
  "check_discovery L c = with_section (cf_Discovery c) (\<lambda>d. first_error
     [requireSecureEndpoint L ''discovery url'' (di_URL d),
      refuse (di_IntervalMs d < 0) ''discovery: intervalMs must be positive'' [],
      each (given (di_AllowedAuthStrategies d)) (\<lambda>s.
        refuse (s \<notin> {''none'', ''static'', ''passthrough'', ''client-credentials'', ''token-exchange''})
          ''discovery: allowedAuthStrategies: unknown strategy %q'' [s]),
      each (given (di_AllowedSecretRefs d)) (\<lambda>r.
        refuse (r = '''') ''discovery: allowedSecretRefs entries must not be empty'' []),
      each (given (di_AllowedCredentialHosts d)) (\<lambda>p.
        refuse (\<not> host_pattern p) ''discovery: allowedCredentialHosts: %q is not a hostname or suffix pattern'' [p]),
      each (given (di_AllowedUpstreamHosts d)) (\<lambda>p.
        refuse (\<not> host_pattern p) ''discovery: allowedUpstreamHosts: %q is not a hostname or suffix pattern'' [p]),
      refuse ((given (di_AllowedSecretRefs d) \<noteq> [] \<or> list_ex (\<lambda>s. s \<noteq> ''none'') (given (di_AllowedAuthStrategies d))) \<and>
              di_AllowedCredentialHosts d = None)
        ''discovery: allowedCredentialHosts is required when allowedAuthStrategies or allowedSecretRefs permits credentials'' []])"

definition check_tracing :: "lib \<Rightarrow> Config \<Rightarrow> check" where
  "check_tracing L c = with_section (cf_Tracing c) (\<lambda>t. first_error
     [refuse (\<not> http_url L (tg_OTLPEndpoint t)) ''tracing: otlpEndpoint must be an absolute http(s) URL'' [],
      refuse (tg_SampleRatio t < 0 \<or> 1 < tg_SampleRatio t) ''tracing: sampleRatio must be between 0 and 1'' []])"

definition validate_retry :: "AuditRetry option \<Rightarrow> check" where
  "validate_retry r = with_section r (\<lambda>r. first_error
     [refuse (ar_MaxAttempts r < 0 \<or> ar_InitialBackoffMs r < 0 \<or> ar_MaxBackoffMs r < 0)
        ''audit: retry values must not be negative'' [],
      refuse (0 < ar_MaxBackoffMs r \<and> ar_MaxBackoffMs r < ar_InitialBackoffMs r)
        ''audit: retry.initialBackoffMs (%d) exceeds maxBackoffMs (%d)''
          [dec (nat (ar_InitialBackoffMs r)), dec (nat (ar_MaxBackoffMs r))]])"

definition check_sink :: "lib \<Rightarrow> AuditSink \<Rightarrow> check" where
  "check_sink L s = first_error
     [(if sk_Type s = ''stdout'' then None
       else if sk_Type s = ''webhook''
       then first_error
         [refuse (sk_URL s = '''') ''audit: webhook sink requires a url'' [],
          refuse (sk_BearerSecretRef s \<noteq> '''' \<and> hasAuthorizationHeader (sk_Headers s))
            ''audit: webhook sink sets both bearerSecretRef and an Authorization header'' []]
       else if sk_Type s = ''file''
       then refuse (sk_Path s = '''') ''audit: file sink requires a path'' []
       else if sk_Type s = ''otlp-logs''
       then first_error
         [refuse (sk_URL s = '''') ''audit: otlp-logs sink requires a url'' [],
          refuse (\<not> http_url L (sk_URL s)) ''audit: otlp-logs url must be an absolute http(s) URL'' []]
       else Some (Errorf ''audit: unknown sink type %q'' [sk_Type s])),
      refuse (sk_BearerSecretRef s \<noteq> '''' \<and> sk_Type s \<noteq> ''webhook'') ''audit: bearerSecretRef applies to webhook sinks, not %q'' [sk_Type s],
      refuse (sk_MaxSizeMb s < 0 \<or> sk_MaxFiles s < 0) ''audit: maxSizeMb and maxFiles must not be negative'' [],
      validate_retry (sk_Retry s)]"

definition check_audit :: "lib \<Rightarrow> Config \<Rightarrow> check" where
  "check_audit L c = with_section (cf_Audit c) (\<lambda>a. first_error
     [with_section (ad_Scrub a) (\<lambda>s. refuse (sc_MaxErrorLength s < 0) ''audit: scrub.maxErrorLength must not be negative'' []),
      each (ad_Sinks a) (check_sink L),
      refuse (ad_RequireDurable a \<and> \<not> list_ex Durable (ad_Sinks a))
        ''audit: requireDurable is set but no sink keeps what fold cannot deliver'' []])"

subsection \<open>The whole document\<close>

definition Validate :: "lib \<Rightarrow> Config \<Rightarrow> check" where
  "Validate L c = first_error
     [check_federation L c, check_server L c, validateTenants L c, validateHook L c, check_console c, check_auth L c,
      check_policy c, check_discovery L c, check_origins c, check_tracing L c, check_audit L c]"

subsection \<open>What acceptance guarantees\<close>

lemma check_endpoints_None:
  "check_endpoints L i seen eps = None \<longleftrightarrow>
   distinct eps \<and> set eps \<inter> seen = {} \<and> (\<forall>ep \<in> set eps. http_url L ep)"
  by (induction eps arbitrary: seen) auto

lemma check_upstreams_None:
  "check_upstreams L c sI sN us = None \<longleftrightarrow>
   distinct (map uc_ID us) \<and> uc_ID ` set us \<inter> sI = {} \<and>
   distinct (filter (\<lambda>n. n \<noteq> '''') (map uc_Namespace us)) \<and> (uc_Namespace ` set us - {''''}) \<inter> sN = {} \<and>
   (\<forall>u \<in> set us. check_identity L {} {} u = None \<and> check_limits L c u = None)"
proof (induction us arbitrary: sI sN)
  case (Cons u us)
  have i: "check_identity L sI sN u = None \<longleftrightarrow>
      check_identity L {} {} u = None \<and> uc_ID u \<notin> sI \<and> (uc_Namespace u = '''' \<or> uc_Namespace u \<notin> sN)"
    by (auto simp: check_identity_def)
  show ?case
    by (simp add: i Cons.IH) auto
qed simp

lemma check_tenants_None:
  assumes "check_tenants L c seen fps ts = None"
  shows "distinct (map tc_ID ts) \<and> tc_ID ` set ts \<inter> seen = {} \<and>
    (\<forall>t \<in> set ts. idRE (tc_ID t) \<and> set (tc_Upstreams t) \<subseteq> uc_ID ` set (cf_Upstreams c) \<and>
       (\<exists>s fp. tc_Subjects t = Some s \<and> marshal_subjects L s = Some fp \<and> fps fp = None)) \<and>
    distinct (map tc_Subjects ts)"
  using assms
proof (induction ts arbitrary: seen fps)
  case (Cons t ts)
  from Cons.prems obtain s fp where t: "idRE (tc_ID t)" "tc_ID t \<notin> seen" "tc_Subjects t = Some s"
      "marshal_subjects L s = Some fp" "fps fp = None" "\<forall>i \<in> set (tc_Upstreams t). hasUpstream c i"
      "check_tenants L c (insert (tc_ID t) seen) (fps(fp \<mapsto> tc_ID t)) ts = None"
    by (auto split: if_splits option.splits)
  note ih = Cons.IH [OF t(7)]
  have "tc_Subjects t' \<noteq> tc_Subjects t" if "t' \<in> set ts" for t'
    using ih that t(3,4) by (auto split: if_splits)
  then have "tc_Subjects t \<notin> tc_Subjects ` set ts" by (metis imageE)
  moreover have "set (tc_Upstreams t) \<subseteq> uc_ID ` set (cf_Upstreams c)"
    using t(6) by (auto simp: hasUpstream_def list_ex_iff)
  ultimately show ?case using ih t by (auto split: if_splits)
qed simp

text \<open>A document whose names identify: what later components assume of it.\<close>

definition identifying :: "lib \<Rightarrow> Config \<Rightarrow> bool" where
  "identifying L c \<longleftrightarrow>
     distinct (map uc_ID (cf_Upstreams c)) \<and>
     distinct (filter (\<lambda>n. n \<noteq> '''') (map uc_Namespace (cf_Upstreams c))) \<and>
     (\<forall>u \<in> set (cf_Upstreams c).
        uc_ID u \<noteq> '''' \<and> list_all id_char (uc_ID u) \<and> list_all id_char (uc_Namespace u) \<and>
        (1 < length (cf_Upstreams c) \<longrightarrow> uc_Namespace u \<noteq> '''') \<and>
        Endpoints u \<noteq> [] \<and> distinct (Endpoints u) \<and> (\<forall>ep \<in> set (Endpoints u). http_url L ep)) \<and>
     NamespaceSeparator c \<noteq> '''' \<and> (\<forall>ch \<in> set (NamespaceSeparator c). \<not> id_char ch)"

definition referring :: "Config \<Rightarrow> bool" where
  "referring c \<longleftrightarrow>
     distinct (map tc_ID (cf_Tenants c)) \<and> distinct (map tc_Subjects (cf_Tenants c)) \<and>
     (\<forall>t \<in> set (cf_Tenants c). tc_Subjects t \<noteq> None \<and> set (tc_Upstreams t) \<subseteq> uc_ID ` set (cf_Upstreams c)) \<and>
     (\<forall>p r a. cf_Policy c = Some p \<longrightarrow> r \<in> set (pol_Rules p) \<longrightarrow> a \<in> set (pr_Allow r @ pr_Deny r) \<longrightarrow>
        pa_Server a \<in> {'''', ''*''} \<union> uc_ID ` set (cf_Upstreams c))"

lemma idRE_chars: "idRE s \<Longrightarrow> s \<noteq> '''' \<and> list_all id_char s"
  by (auto simp: idRE_def split: list.splits)

lemma Validate_None:
  "Validate L c = None \<longleftrightarrow>
     check_federation L c = None \<and> check_server L c = None \<and> validateTenants L c = None \<and> validateHook L c = None \<and>
     check_console c = None \<and> check_auth L c = None \<and> check_policy c = None \<and> check_discovery L c = None \<and>
     check_origins c = None \<and> check_tracing L c = None \<and> check_audit L c = None"
  by (simp add: Validate_def)

lemma validated_identifying:
  assumes "Validate L c = None"
  shows "identifying L c"
proof -
  have f: "check_federation L c = None" using assms by (simp add: Validate_None)
  then have us: "check_upstreams L c {} {} (cf_Upstreams c) = None" by (simp add: check_federation_def)
  then have u: "check_identity L {} {} u = None" if "u \<in> set (cf_Upstreams c)" for u
    using that by (simp add: check_upstreams_None)
  have each: "uc_ID u \<noteq> '''' \<and> list_all id_char (uc_ID u) \<and> list_all id_char (uc_Namespace u) \<and>
      Endpoints u \<noteq> [] \<and> distinct (Endpoints u) \<and> (\<forall>ep \<in> set (Endpoints u). http_url L ep)"
    if "u \<in> set (cf_Upstreams c)" for u
    using u [OF that] idRE_chars [of "uc_ID u"] idRE_chars [of "uc_Namespace u"]
    by (cases "uc_Namespace u = ''''") (auto simp: check_identity_def check_endpoints_None)
  have ns: "uc_Namespace u \<noteq> ''''" if "u \<in> set (cf_Upstreams c)" "1 < length (cf_Upstreams c)" for u
    using f that by (auto simp: check_federation_def)
  have sep: "NamespaceSeparator c \<noteq> '''' \<and> (\<forall>ch \<in> set (NamespaceSeparator c). \<not> id_char ch)"
    using f by (auto simp: check_federation_def NamespaceSeparator_def sepCollisionRE_def list_ex_iff id_char_def
        split: option.splits)
  show ?thesis unfolding identifying_def using us each ns sep by (simp add: check_upstreams_None)
qed

lemma validated_referring:
  assumes "Validate L c = None"
  shows "referring c"
proof -
  have t: "check_tenants L c {} Map.empty (cf_Tenants c) = None"
    using assms by (simp add: Validate_None validateTenants_def)
  have "pa_Server a \<in> {'''', ''*''} \<union> uc_ID ` set (cf_Upstreams c)"
    if "cf_Policy c = Some p" "r \<in> set (pol_Rules p)" "a \<in> set (pr_Allow r @ pr_Deny r)" for p r a
  proof -
    have "check_rule c r = None" using assms that(1,2) by (simp add: Validate_None check_policy_def)
    then have "check_clause c (pr_ID r) a = None" using that(3) by (simp add: check_rule_def)
    then show ?thesis by (auto simp: check_clause_def)
  qed
  then show ?thesis unfolding referring_def using check_tenants_None [OF t] by blast
qed

subsection \<open>Where secrets travel\<close>

definition secured :: "lib \<Rightarrow> string \<Rightarrow> bool" where
  "secured L s \<longleftrightarrow> (\<exists>p. url_parse L s = Some p \<and>
     (u_Scheme p = ''https'' \<or> u_Scheme p = ''http'' \<and> Hostname p \<in> {''localhost'', ''127.0.0.1'', ''::1''}))"

definition nonempty :: "string \<Rightarrow> string list" where
  "nonempty s = (if s = '''' then [] else [s])"

text \<open>
  The endpoints a client secret, a bearer token, an invocation's arguments or the keys that tokens are
  checked against travel to or from: token endpoints, the hook, the discovery source, issuers and key sets.
\<close>

definition trust_urls :: "Config \<Rightarrow> string list" where
  "trust_urls c =
     concat (map (\<lambda>u. case uc_Auth u of None \<Rightarrow> []
                  | Some a \<Rightarrow> if ua_Strategy a \<in> {''client-credentials'', ''token-exchange''} then [ua_TokenEndpoint a] else [])
              (cf_Upstreams c)) @
     (case cf_Hook c of None \<Rightarrow> [] | Some h \<Rightarrow> [hk_URL h]) @
     (case cf_Discovery c of None \<Rightarrow> [] | Some d \<Rightarrow> [di_URL d]) @
     (case cf_Auth c of None \<Rightarrow> []
      | Some a \<Rightarrow> (if au_Mode a = ''required'' then concat (map (\<lambda>i. is_Issuer i # nonempty (is_JWKSURI i)) (au_Issuers a)) else []) @
                 (case au_EMA a of None \<Rightarrow> [] | Some e \<Rightarrow> em_IdpIssuer e # nonempty (em_IdpJWKSURI e)))"

lemma requireSecureEndpoint_None [simp]: "requireSecureEndpoint L what s = None \<longleftrightarrow> secured L s"
  by (auto simp: requireSecureEndpoint_def secured_def Let_def split: option.splits)

lemma validated_auth_section:
  assumes "Validate L c = None" "cf_Auth c = Some a"
  shows "(au_Mode a = ''required'' \<longrightarrow> (\<forall>i \<in> set (au_Issuers a). secured L (is_Issuer i) \<and> (is_JWKSURI i = '''' \<or> secured L (is_JWKSURI i)))) \<and>
    (\<forall>e. au_EMA a = Some e \<longrightarrow> secured L (em_IdpIssuer e) \<and> (em_IdpJWKSURI e = '''' \<or> secured L (em_IdpJWKSURI e)))"
proof -
  have c: "check_auth L c = None" using assms(1) by (simp add: Validate_None)
  have "secured L (is_Issuer i) \<and> (is_JWKSURI i = '''' \<or> secured L (is_JWKSURI i))"
    if "au_Mode a = ''required''" "i \<in> set (au_Issuers a)" for i
  proof -
    have "check_issuer L i = None" using c assms(2) that by (simp add: check_auth_def)
    then show ?thesis by (auto simp: check_issuer_def split: if_splits)
  qed
  moreover have "secured L (em_IdpIssuer e) \<and> (em_IdpJWKSURI e = '''' \<or> secured L (em_IdpJWKSURI e))" if "au_EMA a = Some e" for e
  proof -
    have "check_ema L c e = None" using c assms(2) that by (simp add: check_auth_def)
    then show ?thesis by (auto simp: check_ema_def split: if_splits)
  qed
  ultimately show ?thesis by blast
qed

lemma validated_upstream_auth:
  assumes "Validate L c = None" "u \<in> set (cf_Upstreams c)" "uc_Auth u = Some a"
  shows "(ua_Strategy a \<in> {''client-credentials'', ''token-exchange''} \<longrightarrow> secured L (ua_TokenEndpoint a)) \<and>
    (ua_Strategy a \<in> {''passthrough'', ''token-exchange''} \<longrightarrow> AuthRequired c)"
proof -
  have "check_upstreams L c {} {} (cf_Upstreams c) = None" using assms(1) by (simp add: Validate_None check_federation_def)
  then have l: "check_limits L c u = None" using assms(2) by (simp add: check_upstreams_None)
  then have "validateAuth L u = None" by (simp add: check_limits_def)
  then have "ua_Strategy a \<in> {''client-credentials'', ''token-exchange''} \<longrightarrow> secured L (ua_TokenEndpoint a)"
    using assms(3) by (auto simp: validateAuth_def Let_def)
  moreover have "ua_Strategy a \<in> {''passthrough'', ''token-exchange''} \<longrightarrow> AuthRequired c"
    using l assms(3) by (auto simp: check_limits_def)
  ultimately show ?thesis by blast
qed

subsection \<open>Properties\<close>

text \<open>A document used in the witnesses: two upstreams, one of them exchanging the caller's token.\<close>

definition sample_lib :: lib where
  "sample_lib =
     \<lparr>url_parse = (\<lambda>s. if prefix ''https://'' s then Some \<lparr>u_Scheme = ''https'', u_Host = drop 8 s\<rparr>
                     else if prefix ''http://'' s then Some \<lparr>u_Scheme = ''http'', u_Host = drop 7 s\<rparr> else None),
      lower_unicode = id, marshal_subjects = (\<lambda>s. Some (concat (ps_Groups s)))\<rparr>"

definition sample_upstream :: "string \<Rightarrow> UpstreamAuth option \<Rightarrow> Upstream" where
  "sample_upstream n a =
     \<lparr>uc_ID = n, uc_URL = ''https://'' @ n, uc_URLs = [], uc_Namespace = n, uc_Protocol = '''', uc_Owner = None,
      uc_Labels = [], uc_Auth = a, uc_Timeouts = None, uc_CircuitBreaker = None, uc_RateLimit = None, uc_Budget = None,
      uc_HealthCheck = None, uc_CacheTTLMs = 0, uc_MaxResponseBytes = 0, uc_PinDefinitions = ''''\<rparr>"

definition sample_exchange :: UpstreamAuth where
  "sample_exchange =
     \<lparr>ua_Strategy = ''token-exchange'', ua_SecretRef = '''', ua_Header = '''', ua_Scheme = '''',
      ua_TokenEndpoint = ''https://idp'', ua_ClientID = ''fold'',
      ua_ClientAuth = Some \<lparr>ca_Type = ''client_secret_basic'', ca_SecretRef = ''S''\<rparr>, ua_Scopes = [], ua_Resource = '''',
      ua_Audience = ''b''\<rparr>"

definition sample_config :: Config where
  "sample_config =
     \<lparr>cf_Upstreams = [sample_upstream ''a'' None, sample_upstream ''b'' (Some sample_exchange)],
      cf_Auth = Some \<lparr>au_Mode = ''required'', au_Resource = ''https://gw'',
        au_Issuers = [\<lparr>is_Issuer = ''https://idp'', is_JWKSURI = '''', is_GroupsClaim = '''', is_Mode = ''''\<rparr>], au_EMA = None\<rparr>,
      cf_Policy = None, cf_Audit = None, cf_Routing = None, cf_Server = None, cf_Tracing = None, cf_Discovery = None,
      cf_Tenants = [\<lparr>tc_ID = ''t'', tc_Subjects = Some \<lparr>ps_Groups = [''g''], ps_Subs = [], ps_Issuers = [], ps_Claims = [], ps_Scopes = []\<rparr>,
        tc_Budget = None, tc_RateLimit = None, tc_Upstreams = [''a'']\<rparr>],
      cf_Hook = None\<rparr>"

lemmas sample_defs = sample_config_def sample_upstream_def sample_exchange_def sample_lib_def

lemma sample_federation: "check_federation sample_lib sample_config = None"
  by (simp add: check_federation_def check_upstreams_None check_identity_def check_limits_def check_endpoints_None validateAuth_def
      budget_check_def validate_budget_def sample_defs Endpoints_def http_url_def idRE_def id_char_def secured_def AuthRequired_def)

lemma sample_valid: "Validate sample_lib sample_config = None"
  unfolding Validate_None
  by (intro conjI sample_federation)
    (simp_all add: check_server_def validateTenants_def validateHook_def check_console_def check_auth_def
      check_policy_def check_discovery_def check_origins_def check_tracing_def check_audit_def check_issuer_def budget_check_def
      validate_budget_def idRE_def id_char_def hasUpstream_def IntrospectionGroups_def ConsoleEnabled_def console_oauth_def
      secured_def sample_defs)

text \<open>
  C15. An accepted document is well typed: identifiers are distinct and, when there are several upstreams, so are their
  namespaces, none of which is empty; every upstream has distinct http(s) endpoints; the separator is
  not empty and shares no character with a namespace; every tenant and every policy clause names
  upstreams of the document, and no two tenants have the same selector.
\<close>

theorem accepted_document_typed:
  assumes "Validate L c = None"
  shows "identifying L c \<and> referring c"
  using validated_identifying [OF assms] validated_referring [OF assms] by blast

theorem accepted_document_typed_witness: "identifying sample_lib sample_config \<and> referring sample_config"
  by (rule accepted_document_typed [OF sample_valid])



end
