(* ===== verification/Live_Config.thy ===== *)
theory Live_Config
  imports Config_Validation Ui_Resource Upstream_Guard Endpoint_Pool
begin

section \<open>The live configuration\<close>

text \<open>
  Construction of upstreams and of the routing snapshot, reload, and the discovered upstream set
  (src/gateway/gateway.go, \<open>buildRoutes\<close> to \<open>applyLocked\<close>, src/gateway/upstream.go, \<open>newUpstream\<close>, and
  src/gateway/discovery.go). An upstream object is a \<open>live_upstream\<close> with an address, so that carrying one over
  and building an equal one are different things. A reload returns the new gateway and its effects: which upstreams
  resubscribe what, which are drained after their request timeout, which change notices go out.

  Documents are compared by value; \<open>reflect.DeepEqual\<close> would in addition tell an absent list
  from an empty one. Health probes, metrics and the transport are not modelled.
\<close>

subsection \<open>Upstreams\<close>

definition defaultCacheTTL :: duration where "defaultCacheTTL = 30 * second"
definition defaultMaxResponseBytes :: int where "defaultMaxResponseBytes = 67108864"
definition defaultConnectTimeout :: duration where "defaultConnectTimeout = 5 * second"
definition defaultRequestTimeout :: duration where "defaultRequestTimeout = 60 * second"

record live_upstream =
  lv_addr :: nat
  lv_cfg :: Upstream
  lv_up :: upstream
  lv_limiter :: nat
  lv_budget :: nat
  lv_globalBudget :: "nat option"
  lv_breaker :: "Breaker option"
  lv_endpoints :: endpointPool
  lv_connectTimeout :: duration
  lv_requestTimeout :: duration
  lv_streamIdle :: duration
  lv_maxResponse :: int
  lv_sessionEra :: bool
  lv_pins :: bool

definition PerRequest :: "UpstreamAuth option \<Rightarrow> bool" where
  "PerRequest oa = (case oa of None \<Rightarrow> False | Some a \<Rightarrow> ua_Strategy a = ''passthrough'' \<or> ua_Strategy a = ''token-exchange'')"

definition cache_ttl :: "Upstream \<Rightarrow> duration" where
  "cache_ttl c =
     (if (case uc_Auth c of None \<Rightarrow> False | Some a \<Rightarrow> ua_Strategy a = ''passthrough'' \<or> ua_Strategy a = ''token-exchange'') then 0
      else if 0 < uc_CacheTTLMs c then ms (uc_CacheTTLMs c)
      else if uc_CacheTTLMs c < 0 then 0
      else defaultCacheTTL)"

definition upstream_hosts :: "lib \<Rightarrow> Upstream \<Rightarrow> string list" where
  "upstream_hosts L c =
     concat (map (\<lambda>ep. case url_parse L ep of None \<Rightarrow> [] | Some u \<Rightarrow> if u_Host u = '''' then [] else [u_Host u]) (Endpoints c))"

definition timeout_or :: "(Timeouts \<Rightarrow> int) \<Rightarrow> Upstream \<Rightarrow> duration \<Rightarrow> duration" where
  "timeout_or f c d = (case uc_Timeouts c of None \<Rightarrow> d | Some t \<Rightarrow> if 0 < f t then ms (f t) else d)"

text \<open>The address is the one the allocation gives; the naming fields are set by the wiring below.\<close>

definition newUpstream :: "lib \<Rightarrow> nat \<Rightarrow> Upstream \<Rightarrow> gw_heap \<Rightarrow> live_upstream \<times> gw_heap" where
  "newUpstream L addr c h =
     (let rpm = (case uc_RateLimit c of None \<Rightarrow> 0 | Some rl \<Rightarrow> RequestsPerMinute rl);
          (lim, h1) = provider_Limiter h (''up:'' @ uc_ID c) rpm;
          (bud, h2) = provider_Budget h1 (''up:'' @ uc_ID c) (ResolvedPeriod (uc_Budget c)) (Allowance (uc_Budget c));
          threshold = (case uc_CircuitBreaker c of None \<Rightarrow> 5 | Some cb \<Rightarrow> if 0 < cb_FailureThreshold cb then cb_FailureThreshold cb else 5);
          halfOpen = (case uc_CircuitBreaker c of None \<Rightarrow> 30 * second
                      | Some cb \<Rightarrow> if 0 < cb_HalfOpenAfterMs cb then ms (cb_HalfOpenAfterMs cb) else 30 * second)
      in (\<lparr>lv_addr = addr, lv_cfg = c,
           lv_up = \<lparr>up_ID = uc_ID c, up_Namespace = uc_Namespace c, up_sep = '''', up_hosts = upstream_hosts L c,
                    up_iconBase = '''', up_iconIndexTTL = 0, up_cacheTTL = cache_ttl c, up_callerDerived = PerRequest (uc_Auth c)\<rparr>,
           lv_limiter = lim, lv_budget = bud, lv_globalBudget = None, lv_breaker = New_breaker threshold halfOpen,
           lv_endpoints = newEndpointPool (Endpoints c) halfOpen,
           lv_connectTimeout = timeout_or to_ConnectMs c defaultConnectTimeout,
           lv_requestTimeout = timeout_or to_RequestMs c defaultRequestTimeout,
           lv_streamIdle = timeout_or to_StreamIdleMs c 0,
           lv_maxResponse = (if uc_MaxResponseBytes c \<noteq> 0 then uc_MaxResponseBytes c else defaultMaxResponseBytes),
           lv_sessionEra = (uc_Protocol c = '''' \<or> uc_Protocol c = ''session''),
           lv_pins = (uc_PinDefinitions c = ''warn'')\<rparr>, h2))"

subsection \<open>The snapshot\<close>

record routes =
  rt_cfg :: Config
  rt_upstreams :: "live_upstream list"
  rt_byNamespace :: "string \<Rightarrow> live_upstream option"
  rt_byID :: "string \<Rightarrow> live_upstream option"
  rt_passthrough :: bool
  rt_policy :: Engine
  rt_tenants :: tenantSet
  rt_hook :: "decisionHook option"
  rt_listScope :: string

record gateway =
  gw_cfg :: Config
  gw_globalBudget :: nat
  gw_globalLimit :: nat
  gw_perPrincipalRPM :: int
  gw_base :: Config
  gw_discovered :: "Upstream list"
  gw_routes :: routes
  gw_mem :: gw_heap
  gw_next :: nat

record outside =
  o_lib :: lib
  o_getenv :: "string \<Rightarrow> string"

definition newWiredUpstream :: "lib \<Rightarrow> Config \<Rightarrow> nat \<Rightarrow> nat \<Rightarrow> Upstream \<Rightarrow> gw_heap \<Rightarrow> live_upstream \<times> gw_heap" where
  "newWiredUpstream L gcfg gbudget addr c h =
     (case newUpstream L addr c h of (u, h') \<Rightarrow>
        (u\<lparr>lv_globalBudget := Some gbudget,
           lv_up := (lv_up u)\<lparr>up_sep := NamespaceSeparator gcfg, up_iconBase := PublicURL gcfg,
                              up_iconIndexTTL := IconCacheTTL gcfg\<rparr>\<rparr>, h'))"

fun wire_upstreams ::
  "lib \<Rightarrow> Config \<Rightarrow> nat \<Rightarrow> routes option \<Rightarrow> nat \<Rightarrow> gw_heap \<Rightarrow> Upstream list \<Rightarrow> live_upstream list \<times> nat \<times> gw_heap" where
  "wire_upstreams L gcfg gb prev next h [] = ([], next, h)"
| "wire_upstreams L gcfg gb prev next h (c # cs) =
     (let ex = (case prev of None \<Rightarrow> None
                | Some p \<Rightarrow> (case rt_byID p (uc_ID c) of None \<Rightarrow> None | Some e \<Rightarrow> if lv_cfg e = c then Some e else None));
          (u, next1, h1) = (case ex of Some e \<Rightarrow> (e, next, h)
             | None \<Rightarrow> (case newWiredUpstream L gcfg gb next c h of (u, h') \<Rightarrow> (u, Suc next, h')))
      in (case wire_upstreams L gcfg gb prev next1 h1 cs of (us, next2, h2) \<Rightarrow> (u # us, next2, h2)))"

definition index_by :: "(live_upstream \<Rightarrow> string) \<Rightarrow> live_upstream list \<Rightarrow> string \<Rightarrow> live_upstream option" where
  "index_by f us = fold (\<lambda>u m. m(f u \<mapsto> u)) us Map.empty"

definition buildRoutes ::
  "outside \<Rightarrow> Config \<Rightarrow> nat \<Rightarrow> Config \<Rightarrow> routes option \<Rightarrow> nat \<Rightarrow> gw_heap \<Rightarrow> routes \<times> nat \<times> gw_heap" where
  "buildRoutes X gcfg gb cfg prev next h =
     (let (tenants, h1) = buildTenants (cf_Tenants cfg) h (case prev of None \<Rightarrow> no_tenants | Some p \<Rightarrow> rt_tenants p);
          (us, next', h2) = wire_upstreams (o_lib X) gcfg gb prev next h1 (cf_Upstreams cfg)
      in (\<lparr>rt_cfg = cfg, rt_upstreams = us,
           rt_byNamespace = index_by (uc_Namespace \<circ> lv_cfg) (filter (\<lambda>u. uc_Namespace (lv_cfg u) \<noteq> '''') us),
           rt_byID = index_by (uc_ID \<circ> lv_cfg) us,
           rt_passthrough = Passthrough cfg, rt_policy = New_engine (cf_Policy cfg), rt_tenants = tenants,
           rt_hook = newDecisionHook (o_getenv X) (cf_Hook cfg),
           rt_listScope = listCacheScope (Some (cf_Policy cfg, length (cf_Tenants cfg))) (map lv_up us)\<rparr>, next', h2))"

subsection \<open>Construction and reload\<close>

text \<open>The part of \<open>New\<close> that builds the routing state; \<open>None\<close> as error is success.\<close>

definition New_gateway :: "outside \<Rightarrow> Config \<Rightarrow> config_error + gateway" where
  "New_gateway X cfg =
     (case Validate (o_lib X) cfg of
        Some e \<Rightarrow> Inl e
      | None \<Rightarrow>
          let rl = Option.bind (cf_Server cfg) sv_RateLimit;
              (gl, h0) = provider_Limiter \<lparr>h_budgets = [], h_limiters = []\<rparr> ''global''
                           (case rl of None \<Rightarrow> 0 | Some r \<Rightarrow> RequestsPerMinute r);
              serverBudget = Option.bind (cf_Server cfg) sv_Budget;
              (gb, h) = provider_Budget h0 ''global'' (ResolvedPeriod serverBudget) (Allowance serverBudget);
              (rt, next, h') = buildRoutes X cfg gb cfg None 0 h
          in Inr \<lparr>gw_cfg = cfg, gw_globalBudget = gb, gw_globalLimit = gl,
                  gw_perPrincipalRPM = (case rl of None \<Rightarrow> 0 | Some r \<Rightarrow> PerPrincipalPerMinute r), gw_base = cfg, gw_discovered = [], gw_routes = rt,
                  gw_mem = h', gw_next = next\<rparr>)"

datatype effect = Resubscribe nat string | DrainAfter nat duration | ListChanged string

definition section_changed :: "Config \<Rightarrow> Config \<Rightarrow> string option" where
  "section_changed new old =
     (if cf_Auth new \<noteq> cf_Auth old then Some ''auth''
      else if cf_Server new \<noteq> cf_Server old then Some ''server''
      else if cf_Routing new \<noteq> cf_Routing old then Some ''routing''
      else if cf_Audit new \<noteq> cf_Audit old then Some ''audit''
      else if cf_Tracing new \<noteq> cf_Tracing old then Some ''tracing''
      else if cf_Discovery new \<noteq> cf_Discovery old then Some ''discovery''
      else None)"

definition merged :: "Config \<Rightarrow> Upstream list \<Rightarrow> Config" where
  "merged base discovered =
     (if discovered = [] then base else base\<lparr>cf_Upstreams := cf_Upstreams base @ discovered\<rparr>)"

text \<open>What a retired upstream leaves behind; \<open>subs\<close> is what each upstream object is subscribed to.\<close>

definition retire :: "(nat \<Rightarrow> string list) \<Rightarrow> routes \<Rightarrow> live_upstream \<Rightarrow> effect list" where
  "retire subs new r =
     (case rt_byID new (uc_ID (lv_cfg r)) of
        None \<Rightarrow> [] | Some succ \<Rightarrow> map (Resubscribe (lv_addr succ)) (subs (lv_addr r))) @
     [DrainAfter (lv_addr r) (lv_requestTimeout r)]"

definition applyLocked ::
  "outside \<Rightarrow> (nat \<Rightarrow> string list) \<Rightarrow> Config \<Rightarrow> Upstream list \<Rightarrow> gateway \<Rightarrow> config_error option \<times> gateway \<times> effect list" where
  "applyLocked X subs base discovered g =
     (let m = merged base discovered; old = gw_routes g in
      case Validate (o_lib X) m of
        Some e \<Rightarrow> (Some e, g, [])
      | None \<Rightarrow>
          (case section_changed m (rt_cfg old) of
             Some name \<Rightarrow> (Some (Errorf ''reload: the %s section cannot change without a restart'' [name]), g, [])
           | None \<Rightarrow>
               let (new, next, h) = buildRoutes X (gw_cfg g) (gw_globalBudget g) m (Some old) (gw_next g) (gw_mem g);
                   retired = filter (\<lambda>u. lv_addr u \<notin> lv_addr ` set (rt_upstreams new)) (rt_upstreams old)
               in (None, g\<lparr>gw_routes := new, gw_mem := h, gw_next := next, gw_base := base, gw_discovered := discovered\<rparr>,
                   concat (map (retire subs new) retired) @ map ListChanged [''tools'', ''prompts'', ''resources''])))"

definition Reload :: "outside \<Rightarrow> (nat \<Rightarrow> string list) \<Rightarrow> Config \<Rightarrow> gateway \<Rightarrow> config_error option \<times> gateway \<times> effect list" where
  "Reload X subs cfg g = applyLocked X subs cfg (gw_discovered g) g"

subsection \<open>Discovered upstreams\<close>

definition endpoint_allowed :: "lib \<Rightarrow> string list \<Rightarrow> string \<Rightarrow> string \<Rightarrow> string \<Rightarrow> check" where
  "endpoint_allowed L hosts msg i raw =
     (case url_parse L raw of
        None \<Rightarrow> Some (Errorf ''discovery: upstream %q: unparseable endpoint %q'' [i, raw])
      | Some parsed \<Rightarrow> refuse (\<not> HostAllowed L hosts (u_Host parsed)) msg [i, u_Host parsed])"

definition secret_refs :: "UpstreamAuth \<Rightarrow> string list" where
  "secret_refs a = ua_SecretRef a # (case ua_ClientAuth a of None \<Rightarrow> [] | Some ca \<Rightarrow> [ca_SecretRef ca])"

definition carriesSecret :: "UpstreamAuth \<Rightarrow> bool" where
  "carriesSecret a \<longleftrightarrow>
     ua_SecretRef a \<noteq> '''' \<or> (case ua_ClientAuth a of None \<Rightarrow> False | Some ca \<Rightarrow> ca_SecretRef ca \<noteq> '''')"

definition strategy_of :: "UpstreamAuth \<Rightarrow> string" where
  "strategy_of a = (if ua_Strategy a = '''' then ''none'' else ua_Strategy a)"

definition credential_targets :: "Upstream \<Rightarrow> UpstreamAuth \<Rightarrow> string list" where
  "credential_targets u a = Endpoints u @ (if ua_TokenEndpoint a \<noteq> '''' then [ua_TokenEndpoint a] else [])"

definition checkDiscoveredCredentials :: "lib \<Rightarrow> Discovery option \<Rightarrow> Upstream list \<Rightarrow> check" where
  "checkDiscoveredCredentials L od ups = with_section od (\<lambda>d. each ups (\<lambda>u. first_error
     [with_section (di_AllowedUpstreamHosts d) (\<lambda>hosts. each (Endpoints u)
        (endpoint_allowed L hosts ''discovery: upstream %q: endpoint host %q is not in allowedUpstreamHosts'' (uc_ID u))),
      with_section (uc_Auth u) (\<lambda>a. first_error
        [with_section (di_AllowedAuthStrategies d) (\<lambda>allowed.
           refuse (strategy_of a \<noteq> ''none'' \<and> strategy_of a \<notin> set allowed)
             ''discovery: upstream %q: auth strategy %q is not in allowedAuthStrategies'' [uc_ID u, strategy_of a]),
         with_section (di_AllowedSecretRefs d) (\<lambda>allowed. each (secret_refs a) (\<lambda>r.
           refuse (r \<noteq> '''' \<and> r \<notin> set allowed) ''discovery: upstream %q: secretRef %q is not in allowedSecretRefs'' [uc_ID u, r])),
         with_section (di_AllowedCredentialHosts d) (\<lambda>hosts.
           if strategy_of a \<noteq> ''none'' \<or> carriesSecret a
           then each (credential_targets u a)
             (endpoint_allowed L hosts ''discovery: upstream %q: credentialed endpoint host %q is not in allowedCredentialHosts'' (uc_ID u))
           else None)])]))"

definition clamp :: "int \<Rightarrow> Upstream \<Rightarrow> Upstream" where
  "clamp floor_ms u =
     (case uc_HealthCheck u of
        None \<Rightarrow> u
      | Some hc \<Rightarrow> if hc_IntervalMs hc < floor_ms then u\<lparr>uc_HealthCheck := Some (hc\<lparr>hc_IntervalMs := floor_ms\<rparr>)\<rparr> else u)"

definition clampDiscoveredUpstreams :: "Discovery option \<Rightarrow> Upstream list \<Rightarrow> Upstream list" where
  "clampDiscoveredUpstreams od ups =
     (case od of None \<Rightarrow> ups | Some d \<Rightarrow> map (clamp (MinHealthCheckIntervalResolved d)) ups)"

definition setDiscovered ::
  "outside \<Rightarrow> (nat \<Rightarrow> string list) \<Rightarrow> Upstream list \<Rightarrow> gateway \<Rightarrow> config_error option \<times> gateway \<times> effect list" where
  "setDiscovered X subs ups g =
     (case checkDiscoveredCredentials (o_lib X) (cf_Discovery (gw_cfg g)) ups of
        Some e \<Rightarrow> (Some e, g, [])
      | None \<Rightarrow> applyLocked X subs (gw_base g) (clampDiscoveredUpstreams (cf_Discovery (gw_cfg g)) ups) g)"

text \<open>
  One poll of the discovery source. What the fetch brings is an argument (\<open>None\<close> for an error), as are
  the digest of a document and its strict decoding.
\<close>

record discoverer =
  d_lastHash :: string
  d_seen :: bool
  d_failing :: bool
  d_lastOutcome :: string
  d_lastSyncAt :: time
  d_applied :: bool

definition recordSync :: "string \<Rightarrow> time \<Rightarrow> discoverer \<Rightarrow> discoverer" where
  "recordSync outcome now d =
     d\<lparr>d_lastOutcome := outcome, d_lastSyncAt := now, d_applied := (d_applied d \<or> outcome = ''applied'')\<rparr>"

definition sync ::
  "outside \<Rightarrow> (nat \<Rightarrow> string list) \<Rightarrow> (string \<Rightarrow> string) \<Rightarrow> (string \<Rightarrow> Upstream list option) \<Rightarrow> string option \<Rightarrow> time
     \<Rightarrow> discoverer \<times> gateway \<Rightarrow> discoverer \<times> gateway" where
  "sync X subs sha parse doc now dg =
     (case dg of (d, g) \<Rightarrow>
        (case doc of
           None \<Rightarrow> (recordSync ''error'' now (d\<lparr>d_failing := True\<rparr>), g)
         | Some data \<Rightarrow>
             let d1 = d\<lparr>d_failing := False\<rparr> in
             if d_seen d1 \<and> sha data = d_lastHash d1 then (recordSync ''unchanged'' now d1, g)
             else let d2 = d1\<lparr>d_lastHash := sha data, d_seen := True\<rparr> in
                  (case parse data of
                     None \<Rightarrow> (recordSync ''rejected'' now d2, g)
                   | Some ups \<Rightarrow>
                       (case setDiscovered X subs ups g of
                          (Some e, g', _) \<Rightarrow> (recordSync ''rejected'' now d2, g')
                        | (None, g', _) \<Rightarrow> (recordSync ''applied'' now d2, g')))))"

subsection \<open>What the snapshot contains\<close>

definition wired :: "Config \<Rightarrow> live_upstream \<Rightarrow> bool" where
  "wired gcfg u \<longleftrightarrow>
     up_ID (lv_up u) = uc_ID (lv_cfg u) \<and> up_Namespace (lv_up u) = uc_Namespace (lv_cfg u) \<and>
     up_sep (lv_up u) = NamespaceSeparator gcfg"

lemma newWiredUpstream_fields:
  "newWiredUpstream L gcfg gb addr c h = (u, h') \<Longrightarrow> lv_addr u = addr \<and> lv_cfg u = c \<and> wired gcfg u"
  by (auto simp: newWiredUpstream_def newUpstream_def Let_def wired_def split: prod.splits)

text \<open>The upstream of a new snapshot for one section of the document: carried over or fresh.\<close>

definition carried :: "routes option \<Rightarrow> Upstream \<Rightarrow> live_upstream option" where
  "carried prev c =
     (case prev of None \<Rightarrow> None
      | Some p \<Rightarrow> (case rt_byID p (uc_ID c) of None \<Rightarrow> None | Some e \<Rightarrow> if lv_cfg e = c then Some e else None))"

lemma carried_cfg: "carried prev c = Some e \<Longrightarrow> lv_cfg e = c \<and> (\<exists>p. prev = Some p \<and> rt_byID p (uc_ID c) = Some e)"
  by (auto simp: carried_def split: option.splits if_splits)

lemma wire_upstreams_Cons:
  "wire_upstreams L gcfg gb prev n h (c # cs) =
     (case (case carried prev c of Some e \<Rightarrow> (e, n, h)
            | None \<Rightarrow> (case newWiredUpstream L gcfg gb n c h of (u, h') \<Rightarrow> (u, Suc n, h'))) of
        (u, n1, h1) \<Rightarrow> (case wire_upstreams L gcfg gb prev n1 h1 cs of (us, n2, h2) \<Rightarrow> (u # us, n2, h2)))"
  by (simp add: carried_def)

lemma wire_upstreams_spec:
  assumes "wire_upstreams L gcfg gb prev n h cs = (us, n', h')"
  shows "map lv_cfg us = cs \<and> n \<le> n' \<and>
    (\<forall>u \<in> set us. carried prev (lv_cfg u) = Some u \<or>
       carried prev (lv_cfg u) = None \<and> n \<le> lv_addr u \<and> lv_addr u < n' \<and> wired gcfg u) \<and>
    distinct (map lv_addr (filter (\<lambda>u. carried prev (lv_cfg u) = None) us))"
  using assms
proof (induction cs arbitrary: n h us n' h')
  case (Cons c cs)
  show ?case
  proof (cases "carried prev c")
    case (Some e)
    with Cons.prems obtain vs where vs: "wire_upstreams L gcfg gb prev n h cs = (vs, n', h')" "us = e # vs"
      by (auto simp: wire_upstreams_Cons simp del: wire_upstreams.simps split: prod.splits)
    then show ?thesis using Cons.IH [OF vs(1)] Some carried_cfg [OF Some] by auto
  next
    case None
    obtain u h1 where u: "newWiredUpstream L gcfg gb n c h = (u, h1)" by fastforce
    with None Cons.prems obtain vs where vs: "wire_upstreams L gcfg gb prev (Suc n) h1 cs = (vs, n', h')" "us = u # vs"
      by (auto simp: wire_upstreams_Cons simp del: wire_upstreams.simps split: prod.splits)
    note f = newWiredUpstream_fields [OF u]
    show ?thesis using Cons.IH [OF vs(1)] vs(2) f None by (auto simp: image_iff)
  qed
qed simp

lemma index_by_Some:
  assumes "distinct (map f us)"
  shows "index_by f us k = Some u \<longleftrightarrow> u \<in> set us \<and> f u = k"
proof -
  have "fold (\<lambda>u m. m(f u \<mapsto> u)) us m k = Some u \<longleftrightarrow>
      (u \<in> set us \<and> f u = k) \<or> (m k = Some u \<and> k \<notin> f ` set us)" for m
    using assms by (induction us arbitrary: m) (auto split: if_splits)
  then show ?thesis by (auto simp: index_by_def)
qed

definition snapshot_of :: "outside \<Rightarrow> Config \<Rightarrow> nat \<Rightarrow> Config \<Rightarrow> routes \<Rightarrow> bool" where
  "snapshot_of X gcfg n cfg rt \<longleftrightarrow>
     rt_cfg rt = cfg \<and> map lv_cfg (rt_upstreams rt) = cf_Upstreams cfg \<and>
     rt_byNamespace rt = index_by (uc_Namespace \<circ> lv_cfg) (filter (\<lambda>u. uc_Namespace (lv_cfg u) \<noteq> '''') (rt_upstreams rt)) \<and>
     rt_byID rt = index_by (uc_ID \<circ> lv_cfg) (rt_upstreams rt) \<and>
     rt_passthrough rt = Passthrough cfg \<and> rt_policy rt = New_engine (cf_Policy cfg) \<and>
     rt_hook rt = newDecisionHook (o_getenv X) (cf_Hook cfg) \<and>
     (\<forall>u \<in> set (rt_upstreams rt). wired gcfg u \<and> lv_addr u < n) \<and>
     distinct (map lv_addr (rt_upstreams rt))"

text \<open>An upstream object is found again under the identifier of its section, and only there.\<close>

lemma snapshot_byID:
  assumes "snapshot_of X gcfg n cfg rt" "distinct (map uc_ID (cf_Upstreams cfg))"
  shows "rt_byID rt k = Some e \<longleftrightarrow> e \<in> set (rt_upstreams rt) \<and> uc_ID (lv_cfg e) = k"
proof -
  have "map lv_cfg (rt_upstreams rt) = cf_Upstreams cfg" and i: "rt_byID rt = index_by (uc_ID \<circ> lv_cfg) (rt_upstreams rt)"
    using assms(1) unfolding snapshot_of_def by blast+
  then have "distinct (map (uc_ID \<circ> lv_cfg) (rt_upstreams rt))" using assms(2) by (metis map_map)
  then show ?thesis unfolding i by (simp add: index_by_Some)
qed

lemma carried_iff:
  assumes "snapshot_of X gcfg n cfg rt" "distinct (map uc_ID (cf_Upstreams cfg))"
  shows "carried (Some rt) c = Some e \<longleftrightarrow> e \<in> set (rt_upstreams rt) \<and> lv_cfg e = c"
proof -
  have "carried (Some rt) c = Some e \<longleftrightarrow> rt_byID rt (uc_ID c) = Some e \<and> lv_cfg e = c"
    by (auto simp: carried_def split: option.splits)
  then show ?thesis using snapshot_byID [OF assms] by auto
qed

lemma distinct_split:
  assumes "distinct (map f (filter P xs))" "distinct (map f (filter (\<lambda>x. \<not> P x) xs))"
    and "\<And>x y. x \<in> set xs \<Longrightarrow> y \<in> set xs \<Longrightarrow> P x \<Longrightarrow> \<not> P y \<Longrightarrow> f x \<noteq> f y"
  shows "distinct (map f xs)"
  using assms by (induction xs) (auto split: if_splits, (metis (no_types, lifting) image_eqI mem_Collect_eq)+)

lemma buildRoutes_snapshot:
  assumes b: "buildRoutes X gcfg gb cfg prev n h = (rt, n', h')"
    and d: "distinct (map uc_ID (cf_Upstreams cfg))"
    and p: "\<And>q. prev = Some q \<Longrightarrow> snapshot_of X gcfg n (rt_cfg q) q \<and> distinct (map uc_ID (cf_Upstreams (rt_cfg q)))"
  shows "snapshot_of X gcfg n' cfg rt \<and> n \<le> n'"
proof -
  obtain ts h1 where t: "buildTenants (cf_Tenants cfg) h (case prev of None \<Rightarrow> no_tenants | Some p \<Rightarrow> rt_tenants p) = (ts, h1)"
    by fastforce
  then obtain us where u: "wire_upstreams (o_lib X) gcfg gb prev n h1 (cf_Upstreams cfg) = (us, n', h')"
      and rt: "rt_upstreams rt = us" and rest: "rt_cfg rt = cfg" "rt_passthrough rt = Passthrough cfg"
        "rt_byNamespace rt = index_by (uc_Namespace \<circ> lv_cfg) (filter (\<lambda>u. uc_Namespace (lv_cfg u) \<noteq> '''') us)"
        "rt_byID rt = index_by (uc_ID \<circ> lv_cfg) us" "rt_policy rt = New_engine (cf_Policy cfg)"
        "rt_hook rt = newDecisionHook (o_getenv X) (cf_Hook cfg)"
    using b by (auto simp: buildRoutes_def Let_def split: prod.splits)
  note s = wire_upstreams_spec [OF u]
  have old: "\<exists>q. prev = Some q \<and> e \<in> set (rt_upstreams q)" if "carried prev c = Some e" for c e
    using carried_cfg [OF that] p carried_iff that by blast
  have ok: "wired gcfg e \<and> lv_addr e < n" if "carried prev c = Some e" for c e
    using old [OF that] p by (auto simp: snapshot_of_def)
  have "wired gcfg u \<and> lv_addr u < n'" if "u \<in> set us" for u
    using s that ok by fastforce
  moreover have "distinct (map lv_addr us)"
  proof (rule distinct_split [where P = "\<lambda>u. carried prev (lv_cfg u) = None"])
    have "distinct us" using d s by (metis distinct_map)
    moreover have "x = y" if xy: "x \<in> set us" "y \<in> set us" "carried prev (lv_cfg x) \<noteq> None" "carried prev (lv_cfg y) \<noteq> None"
        "lv_addr x = lv_addr y" for x y
    proof -
      have "carried prev (lv_cfg x) = Some x" "carried prev (lv_cfg y) = Some y" using s xy by auto
      from old [OF this(1)] old [OF this(2)]
      obtain q where "prev = Some q" "x \<in> set (rt_upstreams q)" "y \<in> set (rt_upstreams q)" by auto
      moreover from this have "distinct (map lv_addr (rt_upstreams q))" using p by (simp add: snapshot_of_def)
      ultimately show ?thesis using xy(5) by (auto simp: distinct_map inj_on_def)
    qed
    ultimately show "distinct (map lv_addr (filter (\<lambda>u. carried prev (lv_cfg u) \<noteq> None) us))"
      by (auto simp: distinct_map inj_on_def)
  next
    fix x y assume "x \<in> set us" "y \<in> set us" "carried prev (lv_cfg x) = None" "carried prev (lv_cfg y) \<noteq> None"
    then show "lv_addr x \<noteq> lv_addr y" using s ok by fastforce
  qed (use s in blast)
  ultimately show ?thesis using s rt rest by (simp add: snapshot_of_def)
qed

subsection \<open>Every reachable configuration\<close>

inductive gw_reachable :: "outside \<Rightarrow> gateway \<Rightarrow> bool" for X where
  start: "New_gateway X cfg = Inr g \<Longrightarrow> gw_reachable X g"
| reload: "gw_reachable X g \<Longrightarrow> Reload X subs cfg g = (e, g', fx) \<Longrightarrow> gw_reachable X g'"
| discover: "gw_reachable X g \<Longrightarrow> setDiscovered X subs ups g = (e, g', fx) \<Longrightarrow> gw_reachable X g'"

definition gw_inv :: "outside \<Rightarrow> gateway \<Rightarrow> bool" where
  "gw_inv X g \<longleftrightarrow>
     Validate (o_lib X) (rt_cfg (gw_routes g)) = None \<and>
     rt_cfg (gw_routes g) = merged (gw_base g) (gw_discovered g) \<and>
     snapshot_of X (gw_cfg g) (gw_next g) (rt_cfg (gw_routes g)) (gw_routes g) \<and>
     section_changed (rt_cfg (gw_routes g)) (gw_cfg g) = None \<and>
     checkDiscoveredCredentials (o_lib X) (cf_Discovery (gw_cfg g)) (gw_discovered g) = None \<and>
     (\<forall>d u hc. cf_Discovery (gw_cfg g) = Some d \<longrightarrow> u \<in> set (gw_discovered g) \<longrightarrow> uc_HealthCheck u = Some hc \<longrightarrow>
        MinHealthCheckIntervalResolved d \<le> hc_IntervalMs hc)"

lemma section_changed_None:
  "section_changed a b = None \<longleftrightarrow>
     cf_Auth a = cf_Auth b \<and> cf_Server a = cf_Server b \<and> cf_Routing a = cf_Routing b \<and> cf_Audit a = cf_Audit b \<and>
     cf_Tracing a = cf_Tracing b \<and> cf_Discovery a = cf_Discovery b"
  by (simp add: section_changed_def)

lemma clamp_keeps [simp]:
  "uc_ID (clamp n u) = uc_ID u" "uc_Auth (clamp n u) = uc_Auth u" "Endpoints (clamp n u) = Endpoints u"
  by (auto simp: clamp_def Endpoints_def split: option.splits)

lemma clamp_floor: "uc_HealthCheck (clamp n u) = Some hc \<Longrightarrow> n \<le> hc_IntervalMs hc"
  by (auto simp: clamp_def split: option.splits if_splits)

lemma clamped_targets [simp]: "credential_targets (clamp n u) a = credential_targets u a"
  by (simp add: credential_targets_def)

lemma clamped_allowed:
  "checkDiscoveredCredentials L od (clampDiscoveredUpstreams od ups) = None \<longleftrightarrow> checkDiscoveredCredentials L od ups = None"
  by (cases od) (simp_all add: checkDiscoveredCredentials_def clampDiscoveredUpstreams_def)

text \<open>What one application of a document does: nothing, or a new snapshot for the merged document.\<close>

lemma applyLocked_cases:
  assumes "applyLocked X subs base disc g = (e, g', fx)"
  obtains (refused) err where "e = Some err" "g' = g" "fx = []"
  | (applied) new n h where "e = None" "Validate (o_lib X) (merged base disc) = None"
      "section_changed (merged base disc) (rt_cfg (gw_routes g)) = None"
      "buildRoutes X (gw_cfg g) (gw_globalBudget g) (merged base disc) (Some (gw_routes g)) (gw_next g) (gw_mem g) = (new, n, h)"
      "g' = g\<lparr>gw_routes := new, gw_mem := h, gw_next := n, gw_base := base, gw_discovered := disc\<rparr>"
      "fx = concat (map (retire subs new) (filter (\<lambda>u. lv_addr u \<notin> lv_addr ` set (rt_upstreams new)) (rt_upstreams (gw_routes g)))) @
         map ListChanged [''tools'', ''prompts'', ''resources'']"
proof (cases "Validate (o_lib X) (merged base disc)")
  case (Some err)
  then show ?thesis using assms refused [of err] by (simp add: applyLocked_def Let_def)
next
  case v: None
  show ?thesis
  proof (cases "section_changed (merged base disc) (rt_cfg (gw_routes g))")
    case (Some name)
    then show ?thesis
      using assms v refused [of "Errorf ''reload: the %s section cannot change without a restart'' [name]"]
      by (simp add: applyLocked_def Let_def)
  next
    case None
    obtain new n h where b: "buildRoutes X (gw_cfg g) (gw_globalBudget g) (merged base disc) (Some (gw_routes g)) (gw_next g) (gw_mem g) = (new, n, h)"
      by (cases "buildRoutes X (gw_cfg g) (gw_globalBudget g) (merged base disc) (Some (gw_routes g)) (gw_next g) (gw_mem g)")
    show ?thesis using assms by (intro applied [OF _ v None b]) (simp_all add: applyLocked_def Let_def v None b)
  qed
qed

lemma inv_ids: "gw_inv X g \<Longrightarrow> distinct (map uc_ID (cf_Upstreams (rt_cfg (gw_routes g))))"
  using validated_identifying by (auto simp: gw_inv_def identifying_def)

lemma applyLocked_inv:
  assumes g: "gw_inv X g" and a: "applyLocked X subs base disc g = (e, g', fx)"
    and d: "checkDiscoveredCredentials (o_lib X) (cf_Discovery (gw_cfg g)) disc = None"
    and i: "\<forall>d u hc. cf_Discovery (gw_cfg g) = Some d \<longrightarrow> u \<in> set disc \<longrightarrow> uc_HealthCheck u = Some hc \<longrightarrow>
        MinHealthCheckIntervalResolved d \<le> hc_IntervalMs hc"
  shows "gw_inv X g'"
  using a
proof (cases rule: applyLocked_cases)
  case refused
  then show ?thesis using g by simp
next
  case (applied new n h)
  have "distinct (map uc_ID (cf_Upstreams (merged base disc)))"
    using validated_identifying [OF applied(2)] by (simp add: identifying_def)
  then have "snapshot_of X (gw_cfg g) n (merged base disc) new"
    using buildRoutes_snapshot [OF applied(4)] g inv_ids [OF g] by (auto simp: gw_inv_def)
  moreover from this have "rt_cfg new = merged base disc" by (simp add: snapshot_of_def)
  moreover have "section_changed (merged base disc) (gw_cfg g) = None"
    using applied(3) g by (auto simp: gw_inv_def section_changed_None)
  ultimately show ?thesis using applied d i by (simp add: gw_inv_def)
qed

lemma New_gateway_inv:
  assumes "New_gateway X cfg = Inr g"
  shows "gw_inv X g"
proof -
  have v: "Validate (o_lib X) cfg = None" using assms by (auto simp: New_gateway_def split: option.splits)
  then have d: "distinct (map uc_ID (cf_Upstreams cfg))" using validated_identifying by (auto simp: identifying_def)
  obtain gb h rt n h' where b: "buildRoutes X cfg gb cfg None 0 h = (rt, n, h')" and g: "gw_cfg g = cfg" "gw_base g = cfg"
      "gw_discovered g = []" "gw_routes g = rt" "gw_next g = n"
    using assms v by (auto simp: New_gateway_def Let_def split: prod.splits)
  have s: "snapshot_of X cfg n cfg rt" using buildRoutes_snapshot [OF b d] by simp
  moreover from s have "rt_cfg rt = cfg" by (simp add: snapshot_of_def)
  ultimately show ?thesis using v g
    by (simp add: gw_inv_def merged_def section_changed_None checkDiscoveredCredentials_def)
qed

lemma gw_reachable_inv: "gw_reachable X g \<Longrightarrow> gw_inv X g"
proof (induction rule: gw_reachable.induct)
  case (reload g subs cfg e g' fx)
  then show ?case using applyLocked_inv [of X g subs cfg "gw_discovered g" e g' fx] by (auto simp: Reload_def gw_inv_def)
next
  case (discover g subs ups e g' fx)
  show ?case
  proof (cases "checkDiscoveredCredentials (o_lib X) (cf_Discovery (gw_cfg g)) ups")
    case None
    then have a: "applyLocked X subs (gw_base g) (clampDiscoveredUpstreams (cf_Discovery (gw_cfg g)) ups) g = (e, g', fx)"
      using discover.hyps(2) by (simp add: setDiscovered_def)
    show ?thesis
    proof (rule applyLocked_inv [OF discover.IH a])
      show "\<forall>d u hc. cf_Discovery (gw_cfg g) = Some d \<longrightarrow> u \<in> set (clampDiscoveredUpstreams (cf_Discovery (gw_cfg g)) ups) \<longrightarrow>
          uc_HealthCheck u = Some hc \<longrightarrow> MinHealthCheckIntervalResolved d \<le> hc_IntervalMs hc"
        by (auto simp: clampDiscoveredUpstreams_def dest: clamp_floor)
    qed (simp add: clamped_allowed None)
  next
    case (Some err)
    then show ?thesis using discover by (simp add: setDiscovered_def)
  qed
qed (rule New_gateway_inv)

lemma snapshot_byNamespace:
  assumes "snapshot_of X gcfg n cfg rt" "distinct (filter (\<lambda>s. s \<noteq> '''') (map uc_Namespace (cf_Upstreams cfg)))"
  shows "rt_byNamespace rt k = Some u \<longleftrightarrow> u \<in> set (rt_upstreams rt) \<and> uc_Namespace (lv_cfg u) = k \<and> k \<noteq> ''''"
proof -
  define us where "us = filter (\<lambda>u. uc_Namespace (lv_cfg u) \<noteq> '''') (rt_upstreams rt)"
  have m: "map lv_cfg (rt_upstreams rt) = cf_Upstreams cfg" and i: "rt_byNamespace rt = index_by (uc_Namespace \<circ> lv_cfg) us"
    using assms(1) unfolding snapshot_of_def us_def by blast+
  have "map (uc_Namespace \<circ> lv_cfg) us = filter (\<lambda>s. s \<noteq> '''') (map uc_Namespace (map lv_cfg (rt_upstreams rt)))"
    by (simp add: us_def filter_map comp_def)
  then have "distinct (map (uc_Namespace \<circ> lv_cfg) us)" using assms(2) m by metis
  then show ?thesis unfolding i by (auto simp: index_by_Some us_def)
qed

lemma New_gateway_ok:
  assumes "Validate (o_lib X) cfg = None"
  obtains g where "New_gateway X cfg = Inr g" "gw_cfg g = cfg" "gw_base g = cfg" "gw_discovered g = []" "rt_cfg (gw_routes g) = cfg"
proof -
  have "\<exists>g. New_gateway X cfg = Inr g \<and> gw_cfg g = cfg \<and> gw_base g = cfg \<and> gw_discovered g = []"
    using assms by (simp add: New_gateway_def Let_def split: prod.split)
  then obtain g where g: "New_gateway X cfg = Inr g" "gw_cfg g = cfg" "gw_base g = cfg" "gw_discovered g = []" by blast
  moreover have "rt_cfg (gw_routes g) = cfg" using New_gateway_inv [OF g(1)] g by (simp add: gw_inv_def merged_def)
  ultimately show ?thesis by (rule that)
qed


definition sample_outside :: outside where
  "sample_outside = \<lparr>o_lib = sample_lib, o_getenv = (\<lambda>_. '''')\<rparr>"


text \<open>The objects of a new snapshot against those of the one it was built from.\<close>

lemma snapshot_cfgs:
  assumes "snapshot_of X gcfg n cfg rt"
  shows "set (cf_Upstreams cfg) = lv_cfg ` set (rt_upstreams rt)"
  using assms unfolding snapshot_of_def by (metis set_map)

lemma rewired_new:
  assumes so: "snapshot_of X gcfg m c0 old" and d: "distinct (map uc_ID (cf_Upstreams c0))"
    and w: "wire_upstreams L gcfg gb (Some old) m h cs = (us, n, h')" and u: "u \<in> set us"
  shows "if lv_cfg u \<in> set (cf_Upstreams c0) then u \<in> set (rt_upstreams old) else lv_addr u \<notin> lv_addr ` set (rt_upstreams old)"
proof (cases "carried (Some old) (lv_cfg u)")
  case None
  have "\<not> (\<exists>v \<in> set (rt_upstreams old). lv_cfg v = lv_cfg u)" using carried_iff [OF so d, of "lv_cfg u"] None by auto
  then have "lv_cfg u \<notin> set (cf_Upstreams c0)" unfolding snapshot_cfgs [OF so] by auto
  moreover have "m \<le> lv_addr u" using wire_upstreams_spec [OF w] u None by auto
  moreover have "\<forall>v \<in> set (rt_upstreams old). lv_addr v < m" using so unfolding snapshot_of_def by blast
  ultimately show ?thesis by fastforce
next
  case (Some v)
  then have "carried (Some old) (lv_cfg u) = Some u" using wire_upstreams_spec [OF w] u by auto
  then have "u \<in> set (rt_upstreams old)" using carried_iff [OF so d] by blast
  then show ?thesis unfolding snapshot_cfgs [OF so] by auto
qed

lemma rewired_old:
  assumes so: "snapshot_of X gcfg m c0 old" and d: "distinct (map uc_ID (cf_Upstreams c0))"
    and w: "wire_upstreams L gcfg gb (Some old) m h cs = (us, n, h')" and u: "u \<in> set (rt_upstreams old)"
  shows "(lv_addr u \<in> lv_addr ` set us \<longleftrightarrow> lv_cfg u \<in> set cs) \<and> (lv_cfg u \<in> set cs \<longrightarrow> u \<in> set us)"
proof -
  have cs: "set cs = lv_cfg ` set us" using wire_upstreams_spec [OF w] by (metis set_map)
  have c: "carried (Some old) (lv_cfg u) = Some u" using carried_iff [OF so d] u by blast
  have same: "u \<in> set us" if i: "lv_cfg u \<in> set cs"
  proof -
    obtain v where v: "v \<in> set us" "lv_cfg v = lv_cfg u" using i unfolding cs by force
    then have "carried (Some old) (lv_cfg v) = Some v" using wire_upstreams_spec [OF w] c by force
    then show ?thesis using v c by simp
  qed
  moreover have "lv_cfg u \<in> set cs" if a: "lv_addr u \<in> lv_addr ` set us"
  proof -
    obtain v where v: "v \<in> set us" "lv_addr v = lv_addr u" using a by force
    have "v \<in> set (rt_upstreams old)"
      using rewired_new [OF so d w v(1)] v(2) u by (auto split: if_splits)
    moreover have "distinct (map lv_addr (rt_upstreams old))" using so unfolding snapshot_of_def by blast
    ultimately have "v = u" using u v(2) by (auto simp: distinct_map inj_on_def)
    then show ?thesis using v(1) unfolding cs by blast
  qed
  ultimately show ?thesis by blast
qed

text \<open>
  C12. A reload is all or nothing. When a document is refused the gateway is exactly as before and nothing
  else happens. When it is applied, an upstream whose section is unchanged is the very object that served
  before, with its sessions, counters and breaker; every other upstream of the new document is
  a new object; and the old objects that are no longer used, those and no others, are drained,
  with their subscriptions moved to the successor that has the same identifier.
\<close>

theorem reload_carries_unchanged:
  assumes r: "gw_reachable X g" and a: "applyLocked X subs base disc g = (e, g', fx)"
  shows "(e \<noteq> None \<longrightarrow> g' = g \<and> fx = []) \<and>
    (e = None \<longrightarrow>
      (\<forall>u \<in> set (rt_upstreams (gw_routes g')).
         (if lv_cfg u \<in> set (cf_Upstreams (rt_cfg (gw_routes g))) then u \<in> set (rt_upstreams (gw_routes g))
          else lv_addr u \<notin> lv_addr ` set (rt_upstreams (gw_routes g)))) \<and>
      (\<forall>u \<in> set (rt_upstreams (gw_routes g)).
         (if lv_cfg u \<in> set (cf_Upstreams (rt_cfg (gw_routes g'))) then u \<in> set (rt_upstreams (gw_routes g')) \<and> (\<forall>t. DrainAfter (lv_addr u) t \<notin> set fx)
          else DrainAfter (lv_addr u) (lv_requestTimeout u) \<in> set fx \<and>
            (\<forall>v uri. v \<in> set (rt_upstreams (gw_routes g')) \<longrightarrow> uc_ID (lv_cfg v) = uc_ID (lv_cfg u) \<longrightarrow> uri \<in> set (subs (lv_addr u)) \<longrightarrow>
               Resubscribe (lv_addr v) uri \<in> set fx))))"
  using a
proof (cases rule: applyLocked_cases)
  case (applied new n h)
  have inv: "gw_inv X g" using r by (rule gw_reachable_inv)
  let ?old = "gw_routes g"
  have so: "snapshot_of X (gw_cfg g) (gw_next g) (rt_cfg ?old) ?old" using inv unfolding gw_inv_def by blast
  have d: "distinct (map uc_ID (cf_Upstreams (merged base disc)))"
    using validated_identifying [OF applied(2)] by (simp add: identifying_def)
  have sn: "snapshot_of X (gw_cfg g) n (merged base disc) new"
    using buildRoutes_snapshot [OF applied(4) d] so inv_ids [OF inv] by auto
  have cfgs: "rt_cfg new = merged base disc" using sn unfolding snapshot_of_def by blast
  obtain h1 where w: "wire_upstreams (o_lib X) (gw_cfg g) (gw_globalBudget g) (Some ?old) (gw_next g) h1 (cf_Upstreams (merged base disc))
      = (rt_upstreams new, n, h)"
    using applied(4) by (auto simp: buildRoutes_def Let_def split: prod.splits)
  note new = rewired_new [OF so inv_ids [OF inv] w] and kept = rewired_old [OF so inv_ids [OF inv] w]
  define retired where "retired = filter (\<lambda>u. lv_addr u \<notin> lv_addr ` set (rt_upstreams new)) (rt_upstreams ?old)"
  have fx: "set fx = (\<Union>r \<in> set retired. set (retire subs new r)) \<union> set (map ListChanged [''tools'', ''prompts'', ''resources''])"
    using applied(6) by (simp add: retired_def)
  have drain: "DrainAfter a t \<in> set fx \<longleftrightarrow> (\<exists>r \<in> set retired. a = lv_addr r \<and> t = lv_requestTimeout r)" for a t
    unfolding fx by (auto simp: retire_def split: option.splits)
  have resub: "Resubscribe (lv_addr v) uri \<in> set fx"
    if "u \<in> set retired" "v \<in> set (rt_upstreams new)" "uc_ID (lv_cfg v) = uc_ID (lv_cfg u)" "uri \<in> set (subs (lv_addr u))" for u v uri
  proof -
    have "rt_byID new (uc_ID (lv_cfg u)) = Some v" using snapshot_byID [OF sn d] that(2,3) by blast
    then have "Resubscribe (lv_addr v) uri \<in> set (retire subs new u)" using that(4) by (simp add: retire_def)
    then show ?thesis unfolding fx using that(1) by blast
  qed
  have old: "if lv_cfg u \<in> set (cf_Upstreams (merged base disc)) then u \<in> set (rt_upstreams new) \<and> (\<forall>t. DrainAfter (lv_addr u) t \<notin> set fx)
      else DrainAfter (lv_addr u) (lv_requestTimeout u) \<in> set fx \<and> u \<in> set retired" if "u \<in> set (rt_upstreams ?old)" for u
    using kept [OF that] that unfolding drain by (auto simp: retired_def)
  have old': "if lv_cfg u \<in> set (cf_Upstreams (merged base disc)) then u \<in> set (rt_upstreams new) \<and> (\<forall>t. DrainAfter (lv_addr u) t \<notin> set fx)
      else DrainAfter (lv_addr u) (lv_requestTimeout u) \<in> set fx \<and>
        (\<forall>v uri. v \<in> set (rt_upstreams new) \<longrightarrow> uc_ID (lv_cfg v) = uc_ID (lv_cfg u) \<longrightarrow> uri \<in> set (subs (lv_addr u)) \<longrightarrow>
           Resubscribe (lv_addr v) uri \<in> set fx)" if "u \<in> set (rt_upstreams ?old)" for u
    using old [OF that] resub [of u] by (auto split: if_splits)
  have g': "gw_routes g' = new" using applied(5) by simp
  show ?thesis unfolding g' cfgs using new old' applied(1) by blast
qed simp

lemma applyLocked_ok:
  assumes "Validate (o_lib X) (merged base disc) = None" "section_changed (merged base disc) (rt_cfg (gw_routes g)) = None"
  obtains g' fx where "applyLocked X subs base disc g = (None, g', fx)"
proof -
  obtain e g' fx where a: "applyLocked X subs base disc g = (e, g', fx)" by (cases "applyLocked X subs base disc g")
  moreover have "e = None" using a assms by (auto simp: applyLocked_def Let_def split: prod.splits)
  ultimately show ?thesis using that by blast
qed

theorem reload_carries_unchanged_witness:
  "\<exists>(g :: gateway) g' fx. applyLocked sample_outside (\<lambda>_. []) sample_config [] g = (None, g', fx) \<and>
     rt_upstreams (gw_routes g) \<noteq> [] \<and> set (rt_upstreams (gw_routes g)) \<subseteq> set (rt_upstreams (gw_routes g'))"
proof -
  have v: "Validate (o_lib sample_outside) sample_config = None" using sample_valid by (simp add: sample_outside_def)
  then obtain g where g: "New_gateway sample_outside sample_config = Inr g" "rt_cfg (gw_routes g) = sample_config"
    by (rule New_gateway_ok)
  obtain g' fx where a: "applyLocked sample_outside (\<lambda>_. []) sample_config [] g = (None, g', fx)"
    by (rule applyLocked_ok [of sample_outside sample_config "[]" g]) (simp_all add: merged_def v g(2) section_changed_None)
  note r = gw_reachable.start [OF g(1)]
  have c': "rt_cfg (gw_routes g') = sample_config"
    using gw_reachable_inv [OF gw_reachable.reload [OF r, of "\<lambda>_. []" sample_config]] a
      New_gateway_inv [OF g(1)] by (auto elim!: applyLocked_cases simp: buildRoutes_def Let_def merged_def split: prod.splits)
  have s: "snapshot_of sample_outside (gw_cfg g) (gw_next g) sample_config (gw_routes g)"
    using gw_reachable_inv [OF r] unfolding gw_inv_def g(2) by blast
  have "u \<in> set (rt_upstreams (gw_routes g'))" if "u \<in> set (rt_upstreams (gw_routes g))" for u
  proof -
    have "lv_cfg u \<in> set (cf_Upstreams sample_config)" using that unfolding snapshot_cfgs [OF s] by blast
    then show ?thesis using reload_carries_unchanged [OF r a] that unfolding c' by auto
  qed
  moreover have "rt_upstreams (gw_routes g) \<noteq> []"
    using snapshot_cfgs [OF s] by (auto simp: sample_config_def)
  ultimately show ?thesis using a by blast
qed

definition on_hosts :: "lib \<Rightarrow> string list \<Rightarrow> string \<Rightarrow> bool" where
  "on_hosts L hosts ep \<longleftrightarrow> (\<exists>p. url_parse L ep = Some p \<and> HostAllowed L hosts (u_Host p))"

lemma endpoint_allowed_None [simp]: "endpoint_allowed L hosts msg i ep = None \<longleftrightarrow> on_hosts L hosts ep"
  by (auto simp: endpoint_allowed_def on_hosts_def split: option.splits)

text \<open>
  C14. A discovery source stays within what the operator allowed, in every reachable state: a discovered upstream's
  endpoints are on allowed hosts; its credential strategy and every secret it names are allowed; if
  it carries a credential, all its endpoints and its token endpoint are on_hosts (o_lib X) hosts credentials may go
  to; and it is not probed more often than the configured floor.
\<close>

theorem discovered_within_allowlists:
  assumes r: "gw_reachable X g" and u: "u \<in> set (gw_discovered g)" and d: "cf_Discovery (gw_cfg g) = Some d"
  shows "(\<forall>hosts. di_AllowedUpstreamHosts d = Some hosts \<longrightarrow> (\<forall>ep \<in> set (Endpoints u). on_hosts (o_lib X) hosts ep)) \<and>
    (\<forall>a. uc_Auth u = Some a \<longrightarrow>
       (\<forall>ss. di_AllowedAuthStrategies d = Some ss \<longrightarrow> ua_Strategy a \<in> {'''', ''none''} \<union> set ss) \<and>
       (\<forall>rs. di_AllowedSecretRefs d = Some rs \<longrightarrow> set (secret_refs a) \<subseteq> {''''} \<union> set rs) \<and>
       (\<forall>hosts. di_AllowedCredentialHosts d = Some hosts \<longrightarrow> carriesSecret a \<or> ua_Strategy a \<notin> {'''', ''none''} \<longrightarrow>
          (\<forall>ep \<in> set (Endpoints u). on_hosts (o_lib X) hosts ep) \<and> (ua_TokenEndpoint a \<noteq> '''' \<longrightarrow> on_hosts (o_lib X) hosts (ua_TokenEndpoint a)))) \<and>
    (\<forall>hc. uc_HealthCheck u = Some hc \<longrightarrow> MinHealthCheckIntervalResolved d \<le> hc_IntervalMs hc)"
proof -
  have inv: "gw_inv X g" using r by (rule gw_reachable_inv)
  then have "checkDiscoveredCredentials (o_lib X) (Some d) (gw_discovered g) = None" using d by (simp add: gw_inv_def)
  then have c: "\<forall>hosts. di_AllowedUpstreamHosts d = Some hosts \<longrightarrow>
        (\<forall>ep \<in> set (Endpoints u). on_hosts (o_lib X) hosts ep)"
      and ca: "\<forall>a. uc_Auth u = Some a \<longrightarrow>
        (\<forall>ss. di_AllowedAuthStrategies d = Some ss \<longrightarrow> strategy_of a = ''none'' \<or> strategy_of a \<in> set ss) \<and>
        (\<forall>rs. di_AllowedSecretRefs d = Some rs \<longrightarrow> (\<forall>r \<in> set (secret_refs a). r = '''' \<or> r \<in> set rs)) \<and>
        (\<forall>hosts. di_AllowedCredentialHosts d = Some hosts \<longrightarrow> strategy_of a \<noteq> ''none'' \<or> carriesSecret a \<longrightarrow>
          (\<forall>ep \<in> set (credential_targets u a). on_hosts (o_lib X) hosts ep))"
    using u by (auto simp: checkDiscoveredCredentials_def)
  have st: "strategy_of a = ''none'' \<longleftrightarrow> ua_Strategy a \<in> {'''', ''none''}"
      "strategy_of a \<in> S \<longrightarrow> ua_Strategy a \<in> {'''', ''none''} \<union> S" for a S
    by (auto simp: strategy_of_def)
  have "(\<forall>hosts. di_AllowedUpstreamHosts d = Some hosts \<longrightarrow> (\<forall>ep \<in> set (Endpoints u). on_hosts (o_lib X) hosts ep))"
    using c by blast
  moreover have "(\<forall>ss. di_AllowedAuthStrategies d = Some ss \<longrightarrow> ua_Strategy a \<in> {'''', ''none''} \<union> set ss) \<and>
       (\<forall>rs. di_AllowedSecretRefs d = Some rs \<longrightarrow> set (secret_refs a) \<subseteq> {''''} \<union> set rs) \<and>
       (\<forall>hosts. di_AllowedCredentialHosts d = Some hosts \<longrightarrow> carriesSecret a \<or> ua_Strategy a \<notin> {'''', ''none''} \<longrightarrow>
          (\<forall>ep \<in> set (Endpoints u). on_hosts (o_lib X) hosts ep) \<and> (ua_TokenEndpoint a \<noteq> '''' \<longrightarrow> on_hosts (o_lib X) hosts (ua_TokenEndpoint a)))"
    if "uc_Auth u = Some a" for a
    using ca [rule_format, OF that] st(1) [of a] st(2) [of a] unfolding credential_targets_def by auto
  moreover have "\<forall>hc. uc_HealthCheck u = Some hc \<longrightarrow> MinHealthCheckIntervalResolved d \<le> hc_IntervalMs hc"
    using inv d u unfolding gw_inv_def by blast
  ultimately show ?thesis by blast
qed

text \<open>Documents for the witnesses: upstreams by name, all discovered ones within one host list.\<close>

definition sample_discovery :: Discovery where
  "sample_discovery =
     \<lparr>di_URL = ''https://registry'', di_IntervalMs = 0, di_BearerSecretRef = '''', di_AllowedAuthStrategies = None,
      di_AllowedSecretRefs = None, di_AllowedCredentialHosts = None, di_AllowedUpstreamHosts = Some [''a'', ''b''],
      di_MinHealthCheckIntervalMs = 0\<rparr>"

definition live_doc :: "string list \<Rightarrow> Config" where
  "live_doc ns =
     sample_config\<lparr>cf_Upstreams := map (\<lambda>n. sample_upstream n None) ns, cf_Tenants := [], cf_Discovery := Some sample_discovery\<rparr>"

lemma merged_live_doc: "merged (live_doc ns) (map (\<lambda>n. sample_upstream n None) ks) = live_doc (ns @ ks)"
  by (simp add: merged_def live_doc_def)

lemma live_doc_sections: "section_changed (live_doc ns) (live_doc ks) = None"
  by (simp add: section_changed_None live_doc_def)

lemma live_doc_federation:
  assumes "\<forall>n \<in> set ns. idRE n"
  shows "check_federation sample_lib (live_doc ns) = None \<longleftrightarrow> distinct ns"
proof -
  have n: "n \<noteq> ''''" if "n \<in> set ns" for n using assms that by (auto simp: idRE_def)
  have "check_identity sample_lib {} {} (sample_upstream n None) = None" if "n \<in> set ns" for n
    using assms that by (simp add: check_identity_def sample_upstream_def Endpoints_def check_endpoints_None http_url_def sample_lib_def)
  moreover have "check_limits sample_lib c (sample_upstream n None) = None" for c n
    by (simp add: check_limits_def sample_upstream_def budget_check_def validate_budget_def validateAuth_def)
  moreover have "map uc_ID (map (\<lambda>n. sample_upstream n None) ns) = ns" "map uc_Namespace (map (\<lambda>n. sample_upstream n None) ns) = ns"
    by (simp_all add: sample_upstream_def comp_def)
  moreover have "filter (\<lambda>n. n \<noteq> '''') ns = ns" using n by (auto simp: filter_id_conv)
  ultimately show ?thesis using n
    by (auto simp: check_federation_def check_upstreams_None live_doc_def sample_config_def sample_discovery_def sample_upstream_def)
qed

lemma live_doc_valid:
  assumes "\<forall>n \<in> set ns. idRE n"
  shows "Validate sample_lib (live_doc ns) = None \<longleftrightarrow> distinct ns"
proof -
  have "check_server sample_lib (live_doc ns) = None" "validateTenants sample_lib (live_doc ns) = None"
      "validateHook sample_lib (live_doc ns) = None" "check_console (live_doc ns) = None" "check_auth sample_lib (live_doc ns) = None"
      "check_policy (live_doc ns) = None" "check_discovery sample_lib (live_doc ns) = None" "check_origins (live_doc ns) = None"
      "check_tracing sample_lib (live_doc ns) = None" "check_audit sample_lib (live_doc ns) = None"
    by (simp_all add: check_server_def validateTenants_def validateHook_def check_console_def check_auth_def check_policy_def
        check_discovery_def check_origins_def check_tracing_def check_audit_def check_issuer_def IntrospectionGroups_def
        ConsoleEnabled_def console_oauth_def secured_def live_doc_def sample_discovery_def given_def host_pattern_def sample_defs)
  then show ?thesis using live_doc_federation [OF assms] unfolding Validate_None by blast
qed

lemma sample_hosts:
  "checkDiscoveredCredentials sample_lib (Some sample_discovery) [sample_upstream ''b'' None] = None"
proof -
  have "HostAllowed sample_lib [''a'', ''b''] ''b''"
    by (simp add: HostAllowed_def Let_def SplitHostPort_def is_ascii_def TrimBrackets_def host_matches_def ToLower_def lower_byte_def)
  then show ?thesis
    by (simp add: checkDiscoveredCredentials_def on_hosts_def sample_discovery_def sample_upstream_def Endpoints_def sample_lib_def)
qed

lemma live_doc_gateway:
  assumes "\<forall>n \<in> set ns. idRE n" "distinct ns"
  obtains g where "New_gateway sample_outside (live_doc ns) = Inr g" "gw_cfg g = live_doc ns" "gw_base g = live_doc ns"
    "gw_discovered g = []" "rt_cfg (gw_routes g) = live_doc ns"
  using New_gateway_ok [of sample_outside "live_doc ns"] live_doc_valid [OF assms(1)] assms(2) by (auto simp: sample_outside_def)

lemma live_doc_discovers:
  assumes "gw_reachable sample_outside g" "rt_cfg (gw_routes g) = live_doc ns" "gw_cfg g = live_doc ks" "gw_base g = live_doc ns"
    and "\<forall>n \<in> set ns. idRE n" "distinct (ns @ [''b''])"
  obtains g' fx where "setDiscovered sample_outside subs [sample_upstream ''b'' None] g = (None, g', fx)"
    "gw_discovered g' = [sample_upstream ''b'' None]" "gw_cfg g' = live_doc ks"
proof -
  have v: "Validate (o_lib sample_outside) (merged (live_doc ns) [sample_upstream ''b'' None]) = None"
    using live_doc_valid [of "ns @ [''b'']"] assms(5,6) merged_live_doc [of ns "[''b'']"]
    by (simp add: sample_outside_def idRE_def id_char_def)
  have s: "section_changed (merged (live_doc ns) [sample_upstream ''b'' None]) (rt_cfg (gw_routes g)) = None"
    using merged_live_doc [of ns "[''b'']"] live_doc_sections assms(2) by simp
  obtain g' fx where a: "applyLocked sample_outside subs (live_doc ns) [sample_upstream ''b'' None] g = (None, g', fx)"
    using applyLocked_ok [OF v s] by blast
  have disc: "cf_Discovery (gw_cfg g) = Some sample_discovery" using assms(3) by (simp add: live_doc_def)
  have "clampDiscoveredUpstreams (Some sample_discovery) [sample_upstream ''b'' None] = [sample_upstream ''b'' None]"
    by (simp add: clampDiscoveredUpstreams_def clamp_def sample_upstream_def)
  then have "setDiscovered sample_outside subs [sample_upstream ''b'' None] g = (None, g', fx)"
    using a disc sample_hosts assms(4) by (simp add: setDiscovered_def sample_outside_def)
  moreover have "gw_discovered g' = [sample_upstream ''b'' None] \<and> gw_cfg g' = live_doc ks"
    using a assms(3) by (auto elim!: applyLocked_cases)
  ultimately show ?thesis using that by blast
qed

theorem discovered_within_allowlists_witness: "on_hosts sample_lib [''a'', ''b''] ''https://b''"
proof -
  obtain g where g: "New_gateway sample_outside (live_doc [''a'']) = Inr g" "gw_cfg g = live_doc [''a'']" "gw_base g = live_doc [''a'']"
      "rt_cfg (gw_routes g) = live_doc [''a'']"
    by (rule live_doc_gateway [of "[''a'']"]) (simp_all add: idRE_def id_char_def)
  obtain g' fx where d: "setDiscovered sample_outside (\<lambda>_. []) [sample_upstream ''b'' None] g = (None, g', fx)"
      "gw_discovered g' = [sample_upstream ''b'' None]" "gw_cfg g' = live_doc [''a'']"
    by (rule live_doc_discovers [OF gw_reachable.start [OF g(1)] g(4,2,3)]) (simp_all add: idRE_def id_char_def)
  have r: "gw_reachable sample_outside g'" using gw_reachable.discover [OF gw_reachable.start [OF g(1)] d(1)] .
  have "sample_upstream ''b'' None \<in> set (gw_discovered g')" "cf_Discovery (gw_cfg g') = Some sample_discovery"
    using d(2,3) by (simp_all add: live_doc_def)
  from discovered_within_allowlists [OF r this] show ?thesis
    by (simp add: sample_discovery_def sample_upstream_def Endpoints_def sample_outside_def)
qed

lemma sync_remembers:
  assumes "sync X subs sha parse (Some data) now (d, g) = (d1, g1)"
  shows "d_seen d1 \<and> d_lastHash d1 = sha data \<and> \<not> d_failing d1"
proof (cases "d_seen d \<and> sha data = d_lastHash d")
  case True
  then show ?thesis using assms by (auto simp: sync_def recordSync_def Let_def)
next
  case False
  define d2 where "d2 = d\<lparr>d_failing := False, d_lastHash := sha data, d_seen := True\<rparr>"
  have "\<exists>outcome. d1 = recordSync outcome now d2"
    using assms False by (auto simp: sync_def d2_def Let_def split: option.splits prod.splits)
  then show ?thesis by (auto simp: recordSync_def d2_def)
qed

text \<open>
  A discovery document that was refused is not looked at again while it stays the same, even when the
  operator has since reloaded the document it was in conflict with: the next polls count it as unchanged and
  leave the gateway as it is.
\<close>

theorem refused_discovery_never_retried:
  assumes "sync X subs sha parse (Some data) now (d, g) = (d1, g1)" "d_lastOutcome d1 = ''rejected''"
  shows "sync X subs sha parse (Some data) t (d1, g2) = (recordSync ''unchanged'' t d1, g2)"
  using sync_remembers [OF assms(1)] by (cases d1) (simp add: sync_def)

definition idle_discoverer :: discoverer where
  "idle_discoverer = \<lparr>d_lastHash = '''', d_seen = False, d_failing = False, d_lastOutcome = '''', d_lastSyncAt = 0, d_applied = False\<rparr>"

text \<open>The conflict of the witness: the document registers \<open>b\<close>, which the operator's document has until a reload drops it.\<close>

theorem refused_discovery_never_retried_witness:
  "\<exists>(g :: gateway) g2 d1 g' fx.
     sync sample_outside (\<lambda>_. []) id (\<lambda>_. Some [sample_upstream ''b'' None]) (Some ''doc'') 1 (idle_discoverer, g) = (d1, g) \<and>
     Reload sample_outside (\<lambda>_. []) (live_doc [''a'']) g = (None, g2, fx) \<and>
     fst (setDiscovered sample_outside (\<lambda>_. []) [sample_upstream ''b'' None] g2) = None \<and>
     sync sample_outside (\<lambda>_. []) id (\<lambda>_. Some [sample_upstream ''b'' None]) (Some ''doc'') 2 (d1, g2) = (recordSync ''unchanged'' 2 d1, g2)"
proof -
  let ?ups = "[sample_upstream ''b'' None]"
  obtain g where g: "New_gateway sample_outside (live_doc [''b'', ''a'']) = Inr g" "gw_cfg g = live_doc [''b'', ''a'']"
      "gw_base g = live_doc [''b'', ''a'']" "gw_discovered g = []" "rt_cfg (gw_routes g) = live_doc [''b'', ''a'']"
    by (rule live_doc_gateway [of "[''b'', ''a'']"]) (simp_all add: idRE_def id_char_def)
  note r = gw_reachable.start [OF g(1)]
  have "Validate sample_lib (live_doc ([''b'', ''a''] @ [''b''])) \<noteq> None"
    by (subst live_doc_valid) (simp_all add: idRE_def id_char_def)
  then obtain e where e: "Validate (o_lib sample_outside) (merged (live_doc [''b'', ''a'']) ?ups) = Some e"
    using merged_live_doc [of "[''b'', ''a'']" "[''b'']"] by (auto simp: sample_outside_def)
  have cl: "clampDiscoveredUpstreams (Some sample_discovery) ?ups = ?ups"
    by (simp add: clampDiscoveredUpstreams_def clamp_def sample_upstream_def)
  have "cf_Discovery (gw_cfg g) = Some sample_discovery" using g(2) by (simp add: live_doc_def)
  then have "setDiscovered sample_outside (\<lambda>_. []) ?ups g = (Some e, g, [])"
    using e g(3) sample_hosts cl by (simp add: setDiscovered_def applyLocked_def Let_def sample_outside_def)
  then obtain d1 where d1: "sync sample_outside (\<lambda>_. []) id (\<lambda>_. Some ?ups) (Some ''doc'') 1 (idle_discoverer, g) = (d1, g)"
      "d_lastOutcome d1 = ''rejected''"
    by (simp add: sync_def idle_discoverer_def recordSync_def)
  obtain g2 fx where rl: "applyLocked sample_outside (\<lambda>_. []) (live_doc [''a'']) [] g = (None, g2, fx)"
    by (rule applyLocked_ok [of sample_outside "live_doc [''a'']" "[]" g])
      (use live_doc_valid [of "[''a'']"] g(5) live_doc_sections in \<open>simp_all add: merged_def sample_outside_def idRE_def id_char_def\<close>)
  then have rl': "Reload sample_outside (\<lambda>_. []) (live_doc [''a'']) g = (None, g2, fx)" using g(4) by (simp add: Reload_def)
  note r2 = gw_reachable.reload [OF r rl']
  have f: "gw_base g2 = live_doc [''a'']" "gw_cfg g2 = live_doc [''b'', ''a'']" "gw_discovered g2 = []"
    using rl g(2) by (auto elim!: applyLocked_cases)
  then have c2: "rt_cfg (gw_routes g2) = live_doc [''a'']" using gw_reachable_inv [OF r2] by (simp add: gw_inv_def merged_def)
  obtain g' fx' where "setDiscovered sample_outside (\<lambda>_. []) ?ups g2 = (None, g', fx')"
    by (rule live_doc_discovers [OF r2 c2 f(2,1)]) (simp_all add: idRE_def id_char_def)
  moreover have "sync sample_outside (\<lambda>_. []) id (\<lambda>_. Some ?ups) (Some ''doc'') 2 (d1, g2) = (recordSync ''unchanged'' 2 d1, g2)"
    using refused_discovery_never_retried [OF d1] .
  ultimately show ?thesis using d1(1) rl' by (metis fst_conv)
qed

end
