(* ===== verification/Router.thy ===== *)
theory Router
  imports Live_Config Public_View Task_Routing
begin

section \<open>The request pipeline\<close>

text \<open>
  The federation middleware (src/gateway/router.go): from a decoded request to its answer and its audit
  event. What the outside does in the course of one request is a \<open>world\<close>: what each upstream
  answers, through its guard and its cache, to what is asked of it, what the decision endpoint
  replies, what the SDK's own server answers to a method it handles. Reads may be asked of several
  upstreams in turn, so their answers may depend on how many were asked before.

  The state a request changes is a \<open>rstate\<close>: the event, the affinity index, the memoized views of each
  upstream object, the task records, the log of what was asked of upstreams, and the usage an upstream
  reported. A handler ends with an \<open>answer\<close>: a result, an error, or a panic, which
  \<open>routeSafe\<close> turns into an error. The clock is read once per request.

  Not modelled: the per-client upstream sessions a call travels on (their keys, options and the draining of
  late notifications), metrics and traces.
\<close>

subsection \<open>Requests and results\<close>

text \<open>
  \<open>cp_Arguments\<close> is the raw JSON of the arguments, empty when absent. \<open>Rest\<close> fields carry what the code
  passes on without looking at it: the arguments of a prompt, the answers of an input-required
  round and its continuation state.
\<close>

record CallParams =
  cp_Name :: string
  cp_Arguments :: string
  cp_Meta :: "json_map option"
  cp_InputResponses :: string
  cp_RequestState :: string

record ReadParams =
  rp_URI :: string
  rp_Meta :: "json_map option"
  rp_InputResponses :: string
  rp_RequestState :: string

record CompleteParams =
  xp_RefType :: string
  xp_RefName :: string
  xp_RefURI :: string
  xp_Meta :: "json_map option"
  xp_Rest :: string

record ResourceTemplate =
  rtm_URITemplate :: string
  rtm_Rest :: string

record CallResult =
  cr_Meta :: "json_map option"
  cr_Body :: string

record ReadResult =
  rr_Meta :: "json_map option"
  rr_Contents :: "Content option list"

record 'a ListResult =
  lr_Items :: "'a list"
  lr_Meta :: "json_map option"
  lr_CacheScope :: string
  lr_NextCursor :: string

datatype request =
    ToolsList string
  | ToolsCall "CallParams option"
  | PromptsList string
  | PromptsGet "CallParams option"
  | ResourcesList string
  | TemplatesList string
  | ResourcesRead "ReadParams option"
  | Complete "CompleteParams option"
  | SetLevel "string option" string
  | Other string

fun method_of :: "request \<Rightarrow> string" where
  "method_of (ToolsList _) = ''tools/list''"
| "method_of (ToolsCall _) = ''tools/call''"
| "method_of (PromptsList _) = ''prompts/list''"
| "method_of (PromptsGet _) = ''prompts/get''"
| "method_of (ResourcesList _) = ''resources/list''"
| "method_of (TemplatesList _) = ''resources/templates/list''"
| "method_of (ResourcesRead _) = ''resources/read''"
| "method_of (Complete _) = ''completion/complete''"
| "method_of (SetLevel _ _) = ''logging/setLevel''"
| "method_of (Other m) = m"

datatype result =
    RTools "Tool ListResult" | RPrompts "Prompt ListResult" | RResources "Resource ListResult"
  | RTemplates "ResourceTemplate ListResult" | RCall CallResult | RRead ReadResult | RServer string

text \<open>What is asked of an upstream, by the identifier of the upstream.\<close>

datatype forwarded =
    FList string string
  | FTool string CallParams
  | FPrompt string CallParams
  | FRead string ReadParams
  | FComplete string CompleteParams
  | FLevel string string

record world =
  w_tools :: "string \<Rightarrow> Tool slice answer"
  w_prompts :: "string \<Rightarrow> Prompt slice answer"
  w_resources :: "string \<Rightarrow> Resource slice answer"
  w_templates :: "string \<Rightarrow> ResourceTemplate list answer"
  w_annotated :: "string \<Rightarrow> Tool list option"
  w_call :: "string \<Rightarrow> CallParams \<Rightarrow> CallResult answer"
  w_prompt :: "string \<Rightarrow> CallParams \<Rightarrow> CallResult answer"
  w_read :: "nat \<Rightarrow> string \<Rightarrow> ReadParams \<Rightarrow> ReadResult answer"
  w_complete :: "string \<Rightarrow> CompleteParams \<Rightarrow> CallResult answer"
  w_hook :: "hookRequest \<Rightarrow> hookReply"
  w_server :: "string answer"
  w_marshal :: "CallResult \<Rightarrow> string option"
  w_args :: "string \<Rightarrow> json_map option"
  w_metered :: "forwarded list \<Rightarrow> nat"

record rstate =
  s_evt :: Event
  s_owner :: "string Map"
  s_views :: "nat \<Rightarrow> up_state"
  s_tasks :: taskOwners
  s_asked :: "forwarded list"
  s_usage :: "json_map option"

text \<open>What the context of a request carries, and what is fixed for the gateway's life.\<close>

record ctx =
  c_principal :: "Principal option"
  c_tenant :: "tenant option"
  c_profile :: capProfile
  c_now :: time

record fixed =
  x_codec :: codec
  x_sep :: string
  x_pageSize :: int
  x_serverInfo :: string

type_synonym 'r handled = "'r answer \<times> rstate"

abbreviation id_of :: "live_upstream \<Rightarrow> string" where
  "id_of u \<equiv> uc_ID (lv_cfg u)"

definition ask :: "forwarded \<Rightarrow> rstate \<Rightarrow> rstate" where
  "ask f s = s\<lparr>s_asked := s_asked s @ [f]\<rparr>"

definition on_evt :: "(Event \<Rightarrow> Event) \<Rightarrow> rstate \<Rightarrow> rstate" where
  "on_evt f s = s\<lparr>s_evt := f (s_evt s)\<rparr>"

subsection \<open>Names\<close>

definition resolve :: "routes \<Rightarrow> string \<Rightarrow> string \<Rightarrow> wire_error + live_upstream \<times> string" where
  "resolve rt sep name =
     (if rt_passthrough rt then Inr (hd (rt_upstreams rt), name)
      else (case str_cut name sep of
              None \<Rightarrow> Inl (UnknownNamespace name)
            | Some (ns, bare) \<Rightarrow>
                (case rt_byNamespace rt ns of None \<Rightarrow> Inl (UnknownNamespace name) | Some u \<Rightarrow> Inr (u, bare))))"

definition metaUpstream :: string where "metaUpstream = ''run.fold/upstream''"
definition metaUsageKey :: string where "metaUsageKey = ''usage''"

definition tagUpstream :: "string \<Rightarrow> json_map option \<Rightarrow> live_upstream \<Rightarrow> json_map option" where
  "tagUpstream serverInfo meta u =
     (let m = (case meta of None \<Rightarrow> fmempty | Some m \<Rightarrow> m)
      in map_option (fmupd metaUpstream (JStr (id_of u))) (stripResultMeta serverInfo (Some m)))"

definition noteUsage :: "json_map option \<Rightarrow> json_map option \<Rightarrow> json_map option" where
  "noteUsage meta usage =
     (case meta of
        None \<Rightarrow> usage
      | Some m \<Rightarrow>
          (case fmlookup m metaUsageKey of
             Some (JObj vals) \<Rightarrow> if vals = fmempty then usage else Some vals
           | _ \<Rightarrow> usage))"

subsection \<open>Authorization\<close>

definition rawArgs :: "world \<Rightarrow> Engine \<Rightarrow> string \<Rightarrow> ArgSource" where
  "rawArgs w pol raw = (if \<not> NeedsArguments pol \<or> raw = '''' then None else Some (w_args w raw))"

definition annotationsFor :: "world \<Rightarrow> live_upstream \<Rightarrow> string \<Rightarrow> ToolAnnotations option" where
  "annotationsFor w u bare =
     (if up_cacheTTL (lv_up u) \<le> 0 then None
      else (case w_annotated w (id_of u) of
              None \<Rightarrow> None
            | Some tools \<Rightarrow>
                (case find (\<lambda>t. tl_Name t = bare) tools of
                   None \<Rightarrow> None | Some t \<Rightarrow> toolAnnotations (Some (tl_Annotations t)))))"

definition denied_evt :: "Event \<Rightarrow> Event" where
  "denied_evt e = e\<lparr>e_Decision := ''deny'', e_Outcome := OutcomeDenied\<rparr>"

definition authorizeCall ::
  "ctx \<Rightarrow> routes \<Rightarrow> live_upstream \<Rightarrow> string \<Rightarrow> string \<Rightarrow> Evidence \<Rightarrow> Event \<Rightarrow> wire_error option \<times> Event" where
  "authorizeCall c rt u mth bare ev evt =
     (if \<not> sees (c_tenant c) (id_of u)
      then (Some (errOutsideSubset (c_tenant c) mth (e_Name evt) (id_of u)), denied_evt evt)
      else let d = DecideCall (rt_policy rt) (c_principal c) (id_of u) mth bare ev;
               evt1 = evt\<lparr>e_RuleID := RuleID d\<rparr>
           in if Allowed d then (None, evt1\<lparr>e_Decision := ''allow''\<rparr>)
              else (Some (PolicyDenied mth (e_Name evt) (FailedArg d) (MissingScopes d)),
                    (denied_evt evt1)\<lparr>e_MissingScopes := (if MissingScopes d = [] then e_MissingScopes evt else MissingScopes d)\<rparr>))"

definition authorize ::
  "ctx \<Rightarrow> routes \<Rightarrow> live_upstream \<Rightarrow> string \<Rightarrow> string \<Rightarrow> Event \<Rightarrow> wire_error option \<times> Event" where
  "authorize c rt u mth bare evt = authorizeCall c rt u mth bare no_evidence evt"

subsection \<open>Lists\<close>

text \<open>
  The four list handlers share their text: fan out, degrade, filter the bare items and emit the public
  ones, which are index-aligned with them, then shape, page and record. They differ in what is
  fetched, how an upstream's list becomes public (\<open>pub\<close>), and what the filter looks at (\<open>vis\<close>).
  The slice of an upstream that failed is nil.
\<close>

fun shape_items ::
  "(listFilter \<Rightarrow> 'a \<Rightarrow> bool \<times> listFilter) \<Rightarrow> listFilter \<Rightarrow> 'a list \<Rightarrow> 'b list \<Rightarrow> 'b list \<times> listFilter" where
  "shape_items vis f (x # xs) (y # ys) =
     (case vis f x of (b, f1) \<Rightarrow>
        (case shape_items vis f1 xs ys of (zs, f2) \<Rightarrow> (if b then y # zs else zs, f2)))"
| "shape_items vis f _ _ = ([], f)"

fun merge_lists ::
  "(live_upstream \<Rightarrow> 'a slice \<Rightarrow> rstate \<Rightarrow> 'b list \<times> rstate) \<Rightarrow> (live_upstream \<Rightarrow> listFilter \<Rightarrow> 'a \<Rightarrow> bool \<times> listFilter)
     \<Rightarrow> (live_upstream \<times> 'a slice) list \<Rightarrow> listFilter \<Rightarrow> rstate \<Rightarrow> 'b list \<times> listFilter \<times> rstate" where
  "merge_lists pub vis [] f s = ([], f, s)"
| "merge_lists pub vis ((u, bare) # rest) f s =
     (case pub u bare s of (public, s1) \<Rightarrow>
        (case shape_items (vis u) f (snd bare) public of (items, f1) \<Rightarrow>
           (case merge_lists pub vis rest f1 s1 of (items', f2, s2) \<Rightarrow> (items @ items', f2, s2))))"

definition nil_slice :: "'a slice option \<Rightarrow> 'a slice" where
  "nil_slice o_s = (case o_s of None \<Rightarrow> (0, []) | Some sl \<Rightarrow> sl)"

definition evtItems :: "nat \<Rightarrow> Event \<Rightarrow> Event" where
  "evtItems n evt = evt\<lparr>e_ItemsServed := n\<rparr>"

definition list_handler ::
  "fixed \<Rightarrow> ctx \<Rightarrow> routes \<Rightarrow> string \<Rightarrow> string \<Rightarrow> string \<Rightarrow> ('b \<Rightarrow> string) \<Rightarrow> (string \<Rightarrow> 'a slice answer)
     \<Rightarrow> (live_upstream \<Rightarrow> 'a slice \<Rightarrow> rstate \<Rightarrow> 'b list \<times> rstate)
     \<Rightarrow> (live_upstream \<Rightarrow> listFilter \<Rightarrow> 'a \<Rightarrow> bool \<times> listFilter) \<Rightarrow> rstate \<Rightarrow> 'b ListResult handled" where
  "list_handler x c rt kind invoke cursor name fetch pub vis s0 =
     (let ups = visibleUpstreams id_of (c_tenant c) (rt_upstreams rt);
          s = s0\<lparr>s_asked := s_asked s0 @ map (\<lambda>u. FList kind (id_of u)) ups\<rparr>;
          (lists, failed) = fanOut id_of ups (\<lambda>u. fetch (id_of u))
      in case partialFailureMeta failed (length ups) of
           Inl e \<Rightarrow> (Failed e, s)
         | Inr meta \<Rightarrow>
             (case merge_lists pub vis (zip ups (map nil_slice lists)) (newListFilter (c_principal c) (rt_policy rt) invoke) s of
                (items, f, s1) \<Rightarrow>
                  (case finish_filter f meta of (capped, meta1) \<Rightarrow>
                     let s2 = on_evt (\<lambda>e. e\<lparr>e_ItemsCapped := capped\<rparr>) s1
                     in case paginate (x_codec x) items name kind cursor (x_pageSize x) (c_principal c) of
                          None \<Rightarrow> (Panicked, s2)
                        | Some (Inl e) \<Rightarrow> (Failed e, s2)
                        | Some (Inr (page, nxt)) \<Rightarrow>
                            (Answered \<lparr>lr_Items = page, lr_Meta = meta1, lr_CacheScope = rt_listScope rt, lr_NextCursor = nxt\<rparr>,
                             on_evt (evtItems (length page)) s2))))"

definition on_view :: "live_upstream \<Rightarrow> (up_state \<Rightarrow> 'b list \<times> up_state) \<Rightarrow> rstate \<Rightarrow> 'b list \<times> rstate" where
  "on_view u f s = (case f (s_views s (lv_addr u)) of (ys, v) \<Rightarrow> (ys, s\<lparr>s_views := (s_views s)(lv_addr u := v)\<rparr>))"

definition listTools :: "fixed \<Rightarrow> world \<Rightarrow> ctx \<Rightarrow> routes \<Rightarrow> string \<Rightarrow> rstate \<Rightarrow> Tool ListResult handled" where
  "listTools x w c rt cursor =
     list_handler x c rt ''tools'' ''tools/call'' cursor tl_Name (w_tools w)
       (\<lambda>u bare. on_view u (namespacedTools (sha256 (x_codec x)) (lv_up u) (c_profile c) (c_now c) bare))
       (\<lambda>u f t. visibleTool f (id_of u) (tl_Name t) (tl_Annotations t))"

definition listPrompts :: "fixed \<Rightarrow> world \<Rightarrow> ctx \<Rightarrow> routes \<Rightarrow> string \<Rightarrow> rstate \<Rightarrow> Prompt ListResult handled" where
  "listPrompts x w c rt cursor =
     list_handler x c rt ''prompts'' ''prompts/get'' cursor pm_Name (w_prompts w)
       (\<lambda>u bare. on_view u (namespacedPrompts (sha256 (x_codec x)) (lv_up u) (c_profile c) (c_now c) bare))
       (\<lambda>u f p. visible f (id_of u) (pm_Name p))"

text \<open>Ownership is recorded for every resource listed, the filtered ones included.\<close>

definition store_owners :: "string \<Rightarrow> time \<Rightarrow> string list \<Rightarrow> string Map \<Rightarrow> string Map" where
  "store_owners upID now uris m = fold (\<lambda>uri m. Store_map m uri upID 0 now) uris m"

definition listResources :: "fixed \<Rightarrow> world \<Rightarrow> ctx \<Rightarrow> routes \<Rightarrow> string \<Rightarrow> rstate \<Rightarrow> Resource ListResult handled" where
  "listResources x w c rt cursor =
     list_handler x c rt ''resources'' ''resources/read'' cursor rs_URI (w_resources w)
       (\<lambda>u bare s.
          (case on_view u (namespacedResources (sha256 (x_codec x)) (lv_up u) (c_profile c) (c_now c) bare) s of (ys, s1) \<Rightarrow>
             (ys, s1\<lparr>s_owner := store_owners (id_of u) (c_now c) (map rs_URI (snd bare)) (s_owner s1)\<rparr>)))
       (\<lambda>u f r. visible f (id_of u) (rs_URI r))"

definition as_slice :: "'a list answer \<Rightarrow> 'a slice answer" where
  "as_slice a = (case a of Answered xs \<Rightarrow> Answered (0, xs) | Failed e \<Rightarrow> Failed e | Panicked \<Rightarrow> Panicked)"

definition listResourceTemplates :: "fixed \<Rightarrow> world \<Rightarrow> ctx \<Rightarrow> routes \<Rightarrow> string \<Rightarrow> rstate \<Rightarrow> ResourceTemplate ListResult handled" where
  "listResourceTemplates x w c rt cursor =
     list_handler x c rt ''resourceTemplates'' ''resources/read'' cursor rtm_URITemplate (\<lambda>i. as_slice (w_templates w i))
       (\<lambda>u bare s. (snd bare, s))
       (\<lambda>u f t. visible f (id_of u) (rtm_URITemplate t))"

subsection \<open>Named invocations\<close>

definition callTool :: "fixed \<Rightarrow> world \<Rightarrow> ctx \<Rightarrow> routes \<Rightarrow> CallParams option \<Rightarrow> rstate \<Rightarrow> CallResult handled" where
  "callTool x w c rt params s0 =
     (case params of
        None \<Rightarrow> (Failed (InvalidParams ''missing tool name''), s0)
      | Some p \<Rightarrow>
          let s1 = on_evt (\<lambda>e. e\<lparr>e_Name := cp_Name p\<rparr>) s0 in
          (case resolve rt (x_sep x) (cp_Name p) of
             Inl e \<Rightarrow> (Failed e, s1)
           | Inr (u, bare) \<Rightarrow>
               let s2 = on_evt (\<lambda>e. e\<lparr>e_Upstream := id_of u\<rparr>) s1;
                   ev = \<lparr>ev_Args = rawArgs w (rt_policy rt) (cp_Arguments p),
                         ev_Tool = (if NeedsAnnotations (rt_policy rt) then Some (annotationsFor w u bare) else None)\<rparr>
               in case authorizeCall c rt u ''tools/call'' bare ev (s_evt s2) of
                    (Some e, evt) \<Rightarrow> (Failed e, s2\<lparr>s_evt := evt\<rparr>)
                  | (None, evt) \<Rightarrow>
                      (case hookIngress (rt_hook rt) (w_hook w) (c_principal c) evt (id_of u) ''tools/call'' bare (cp_Arguments p) of
                         (Some e, evt1) \<Rightarrow> (Failed e, s2\<lparr>s_evt := evt1\<rparr>)
                       | (None, evt1) \<Rightarrow>
                           let fwd = p\<lparr>cp_Name := bare, cp_Meta := sanitizeRequestMeta (cp_Meta p)\<rparr>;
                               s3 = ask (FTool (id_of u) fwd) (s2\<lparr>s_evt := evt1\<rparr>)
                           in case w_call w (id_of u) fwd of
                                Panicked \<Rightarrow> (Panicked, s3)
                              | Failed e \<Rightarrow> (Failed e, s3)
                              | Answered out \<Rightarrow>
                                  (case hookEgress (rt_hook rt) (w_hook w) (c_principal c) (s_evt s3) (id_of u) ''tools/call'' bare
                                          (w_marshal w out) of
                                     (Some e, evt2) \<Rightarrow> (Failed e, s3\<lparr>s_evt := evt2\<rparr>)
                                   | (None, evt2) \<Rightarrow>
                                       (Answered (out\<lparr>cr_Meta := tagUpstream (x_serverInfo x) (cr_Meta out) u\<rparr>),
                                        s3\<lparr>s_evt := evt2,
                                           s_tasks := noteMintedTask (sha256 (x_codec x)) (s_tasks s3) (c_principal c) (id_of u) (cr_Meta out) (c_now c),
                                           s_usage := noteUsage (cr_Meta out) (s_usage s3)\<rparr>)))))"

definition getPrompt :: "fixed \<Rightarrow> world \<Rightarrow> ctx \<Rightarrow> routes \<Rightarrow> CallParams option \<Rightarrow> rstate \<Rightarrow> CallResult handled" where
  "getPrompt x w c rt params s0 =
     (case params of
        None \<Rightarrow> (Failed (InvalidParams ''missing prompt name''), s0)
      | Some p \<Rightarrow>
          let s1 = on_evt (\<lambda>e. e\<lparr>e_Name := cp_Name p\<rparr>) s0 in
          (case resolve rt (x_sep x) (cp_Name p) of
             Inl e \<Rightarrow> (Failed e, s1)
           | Inr (u, bare) \<Rightarrow>
               let s2 = on_evt (\<lambda>e. e\<lparr>e_Upstream := id_of u\<rparr>) s1
               in case authorize c rt u ''prompts/get'' bare (s_evt s2) of
                    (Some e, evt) \<Rightarrow> (Failed e, s2\<lparr>s_evt := evt\<rparr>)
                  | (None, evt) \<Rightarrow>
                      (case hookIngress (rt_hook rt) (w_hook w) (c_principal c) evt (id_of u) ''prompts/get'' bare '''' of
                         (Some e, evt1) \<Rightarrow> (Failed e, s2\<lparr>s_evt := evt1\<rparr>)
                       | (None, evt1) \<Rightarrow>
                           let fwd = p\<lparr>cp_Name := bare, cp_Meta := sanitizeRequestMeta (cp_Meta p)\<rparr>;
                               s3 = ask (FPrompt (id_of u) fwd) (s2\<lparr>s_evt := evt1\<rparr>)
                           in case w_prompt w (id_of u) fwd of
                                Panicked \<Rightarrow> (Panicked, s3)
                              | Failed e \<Rightarrow> (Failed e, s3)
                              | Answered out \<Rightarrow>
                                  (case hookEgress (rt_hook rt) (w_hook w) (c_principal c) (s_evt s3) (id_of u) ''prompts/get'' bare
                                          (w_marshal w out) of
                                     (Some e, evt2) \<Rightarrow> (Failed e, s3\<lparr>s_evt := evt2\<rparr>)
                                   | (None, evt2) \<Rightarrow>
                                       (Answered (out\<lparr>cr_Meta := tagUpstream (x_serverInfo x) (cr_Meta out) u\<rparr>), s3\<lparr>s_evt := evt2\<rparr>)))))"

subsection \<open>Resources\<close>

definition ui_live :: "routes \<Rightarrow> string \<Rightarrow> (live_upstream \<times> string) option" where
  "ui_live rt uri =
     (if rt_passthrough rt then None
      else (case splitUIURI uri of
              None \<Rightarrow> None
            | Some (ns, original) \<Rightarrow> map_option (\<lambda>u. (u, original)) (rt_byNamespace rt ns)))"

lemma ui_live_uiOwner:
  "map_option (map_prod lv_up id) (ui_live rt uri) =
   uiOwner (rt_passthrough rt) (\<lambda>ns. map_option lv_up (rt_byNamespace rt ns)) uri"
  by (simp add: ui_live_def uiOwner_def split: option.splits)

abbreviation read_denied :: "string \<Rightarrow> wire_error" where
  "read_denied uri \<equiv> PolicyDenied ''resources/read'' uri '''' []"

definition may_read :: "ctx \<Rightarrow> routes \<Rightarrow> live_upstream \<Rightarrow> string \<Rightarrow> bool" where
  "may_read c rt u uri = Allowed (Decide (rt_policy rt) (c_principal c) (id_of u) ''resources/read'' uri)"

text \<open>The probe over the upstreams the caller sees, in order; \<open>denied\<close> remembers a refusal.\<close>

fun probe_read ::
  "fixed \<Rightarrow> world \<Rightarrow> ctx \<Rightarrow> routes \<Rightarrow> ReadParams \<Rightarrow> bool \<Rightarrow> live_upstream list \<Rightarrow> rstate \<Rightarrow> ReadResult handled" where
  "probe_read x w c rt p denied [] s =
     (if denied then (Failed (read_denied (rp_URI p)), on_evt denied_evt s) else (Failed (ResourceNotFound (rp_URI p)), s))"
| "probe_read x w c rt p denied (u # us) s =
     (if \<not> may_read c rt u (rp_URI p) then probe_read x w c rt p True us s
      else let s1 = ask (FRead (id_of u) p) s
           in case w_read w (length (s_asked s)) (id_of u) p of
                Panicked \<Rightarrow> (Panicked, s1)
              | Failed _ \<Rightarrow> probe_read x w c rt p denied us s1
              | Answered out \<Rightarrow>
                  (Answered (out\<lparr>rr_Meta := tagUpstream (x_serverInfo x) (rr_Meta out) u\<rparr>),
                   on_evt (\<lambda>e. e\<lparr>e_Upstream := id_of u, e_Decision := ''allow''\<rparr>)
                     (s1\<lparr>s_owner := Store_map (s_owner s1) (rp_URI p) (id_of u) 0 (c_now c)\<rparr>)))"

definition readResource :: "fixed \<Rightarrow> world \<Rightarrow> ctx \<Rightarrow> routes \<Rightarrow> ReadParams option \<Rightarrow> rstate \<Rightarrow> ReadResult handled" where
  "readResource x w c rt params s0 =
     (case params of
        None \<Rightarrow> (Failed (InvalidParams ''missing resource uri''), s0)
      | Some p0 \<Rightarrow>
          let s1 = on_evt (\<lambda>e. e\<lparr>e_Name := rp_URI p0\<rparr>) s0;
              p = p0\<lparr>rp_Meta := sanitizeRequestMeta (rp_Meta p0)\<rparr>;
              ups = visibleUpstreams id_of (c_tenant c) (rt_upstreams rt)
          in case ui_live rt (rp_URI p) of
               Some (u, original) \<Rightarrow>
                 let s2 = on_evt (\<lambda>e. e\<lparr>e_Upstream := id_of u\<rparr>) s1
                 in if \<not> sees (c_tenant c) (id_of u)
                    then (Failed (errOutsideSubset (c_tenant c) ''resources/read'' original (id_of u)), on_evt denied_evt s2)
                    else if \<not> may_read c rt u original then (Failed (read_denied (rp_URI p)), on_evt denied_evt s2)
                    else let fwd = p\<lparr>rp_URI := original\<rparr>;
                             s3 = ask (FRead (id_of u) fwd) (on_evt (\<lambda>e. e\<lparr>e_Decision := ''allow''\<rparr>) s2)
                         in (case w_read w (length (s_asked s2)) (id_of u) fwd of
                               Panicked \<Rightarrow> (Panicked, s3)
                             | Failed e \<Rightarrow> (Failed e, s3)
                             | Answered out \<Rightarrow>
                                 (Answered \<lparr>rr_Meta = tagUpstream (x_serverInfo x) (rr_Meta out) u,
                                            rr_Contents = mintReadResult (rr_Contents out) original (rp_URI p)\<rparr>, s3))
             | None \<Rightarrow>
                 (case Load (s_owner s1) (rp_URI p) (c_now c) of (found, m) \<Rightarrow>
                    let s2 = s1\<lparr>s_owner := m\<rparr>
                    in case Option.bind found (rt_byID rt) of
                         None \<Rightarrow> probe_read x w c rt p False ups s2
                       | Some u \<Rightarrow>
                           let s3 = on_evt (\<lambda>e. e\<lparr>e_Upstream := id_of u\<rparr>) s2
                           in if \<not> sees (c_tenant c) (id_of u)
                              then (Failed (errOutsideSubset (c_tenant c) ''resources/read'' (rp_URI p) (id_of u)), on_evt denied_evt s3)
                              else if \<not> may_read c rt u (rp_URI p) then (Failed (read_denied (rp_URI p)), on_evt denied_evt s3)
                              else let s4 = ask (FRead (id_of u) p) (on_evt (\<lambda>e. e\<lparr>e_Decision := ''allow''\<rparr>) s3)
                                   in (case w_read w (length (s_asked s3)) (id_of u) p of
                                         Panicked \<Rightarrow> (Panicked, s4)
                                       | Answered out \<Rightarrow>
                                           (Answered (out\<lparr>rr_Meta := tagUpstream (x_serverInfo x) (rr_Meta out) u\<rparr>), s4)
                                       | Failed _ \<Rightarrow> probe_read x w c rt p False ups s4)))"

text \<open>Who serves a URI (src/gateway/gateway.go): the remembered owner, or one found by listing all resources again.\<close>

definition owner_seen :: "ctx \<Rightarrow> routes \<Rightarrow> string option \<Rightarrow> live_upstream option" where
  "owner_seen c rt found =
     Option.bind found (\<lambda>i. case rt_byID rt i of None \<Rightarrow> None | Some u \<Rightarrow> if sees (c_tenant c) i then Some u else None)"

definition refresh_owners :: "world \<Rightarrow> time \<Rightarrow> live_upstream list \<Rightarrow> string Map \<Rightarrow> string Map" where
  "refresh_owners w now ups m =
     fold (\<lambda>u m. store_owners (id_of u) now (map rs_URI (snd (nil_slice (result_of (w_resources w (id_of u)))))) m) ups m"

definition ownerForURI :: "world \<Rightarrow> ctx \<Rightarrow> routes \<Rightarrow> string \<Rightarrow> rstate \<Rightarrow> (wire_error + live_upstream) \<times> rstate" where
  "ownerForURI w c rt uri s =
     (if rt_passthrough rt then (Inr (hd (rt_upstreams rt)), s)
      else (case Load (s_owner s) uri (c_now c) of (found, m) \<Rightarrow>
              (case owner_seen c rt found of
                 Some u \<Rightarrow> (Inr u, s\<lparr>s_owner := m\<rparr>)
               | None \<Rightarrow>
                   let ups = visibleUpstreams id_of (c_tenant c) (rt_upstreams rt);
                       m1 = refresh_owners w (c_now c) ups m;
                       s1 = s\<lparr>s_asked := s_asked s @ map (\<lambda>u. FList ''resources'' (id_of u)) ups\<rparr>
                   in (case Load m1 uri (c_now c) of (found', m2) \<Rightarrow>
                         ((case owner_seen c rt found' of Some u \<Rightarrow> Inr u | None \<Rightarrow> Inl (ResourceNotFound uri)),
                          s1\<lparr>s_owner := m2\<rparr>)))))"

subsection \<open>Completion and logging level\<close>

text \<open>What is completed: the owning upstream, the method it is governed by, its name there, and what is forwarded.\<close>

definition complete_target ::
  "fixed \<Rightarrow> world \<Rightarrow> ctx \<Rightarrow> routes \<Rightarrow> CompleteParams \<Rightarrow> rstate
     \<Rightarrow> (wire_error + live_upstream \<times> string \<times> string \<times> CompleteParams) \<times> rstate" where
  "complete_target x w c rt p s =
     (let fwd = p\<lparr>xp_Meta := sanitizeRequestMeta (xp_Meta p)\<rparr> in
      if xp_RefType p = ''ref/prompt''
      then let s1 = on_evt (\<lambda>e. e\<lparr>e_Name := xp_RefName p\<rparr>) s
           in (case resolve rt (x_sep x) (xp_RefName p) of
                 Inl e \<Rightarrow> (Inl e, s1)
               | Inr (u, bare) \<Rightarrow> (Inr (u, ''prompts/get'', bare, fwd\<lparr>xp_RefName := bare\<rparr>), s1))
      else if xp_RefType p = ''ref/resource''
      then let s1 = on_evt (\<lambda>e. e\<lparr>e_Name := xp_RefURI p\<rparr>) s
           in (case ownerForURI w c rt (xp_RefURI p) s1 of
                 (Inl e, s2) \<Rightarrow> (Inl e, s2)
               | (Inr u, s2) \<Rightarrow> (Inr (u, ''resources/read'', xp_RefURI p, fwd), s2))
      else (Inl (InvalidParams ''unknown completion ref type''), s))"

definition complete :: "fixed \<Rightarrow> world \<Rightarrow> ctx \<Rightarrow> routes \<Rightarrow> CompleteParams option \<Rightarrow> rstate \<Rightarrow> CallResult handled" where
  "complete x w c rt params s0 =
     (case params of
        None \<Rightarrow> (Failed (InvalidParams ''missing completion ref''), s0)
      | Some p \<Rightarrow>
          (case complete_target x w c rt p s0 of
             (Inl e, s1) \<Rightarrow> (Failed e, s1)
           | (Inr (u, mth, name, fwd), s1) \<Rightarrow>
               let s2 = on_evt (\<lambda>e. e\<lparr>e_Upstream := id_of u\<rparr>) s1
               in case authorize c rt u mth name (s_evt s2) of
                    (Some e, evt) \<Rightarrow> (Failed e, s2\<lparr>s_evt := evt\<rparr>)
                  | (None, evt) \<Rightarrow>
                      let s3 = ask (FComplete (id_of u) fwd) (s2\<lparr>s_evt := evt\<rparr>)
                      in (case w_complete w (id_of u) fwd of
                            Panicked \<Rightarrow> (Panicked, s3)
                          | Failed e \<Rightarrow> (Failed e, s3)
                          | Answered out \<Rightarrow> (Answered (out\<lparr>cr_Meta := stripResultMeta (x_serverInfo x) (cr_Meta out)\<rparr>), s3))))"

definition setLevel :: "world \<Rightarrow> ctx \<Rightarrow> routes \<Rightarrow> string option \<Rightarrow> string \<Rightarrow> rstate \<Rightarrow> string handled" where
  "setLevel w c rt level key s =
     (case level of
        Some l \<Rightarrow>
          if key \<noteq> ''''
          then (w_server w, fold (\<lambda>u. ask (FLevel (id_of u) l)) (visibleUpstreams id_of (c_tenant c) (rt_upstreams rt)) s)
          else (w_server w, s)
      | None \<Rightarrow> (w_server w, s))"

subsection \<open>Dispatch and the single exit\<close>

definition mapped :: "('a \<Rightarrow> result) \<Rightarrow> 'a handled \<Rightarrow> result handled" where
  "mapped f h = (case h of (a, s) \<Rightarrow> ((case a of Answered r \<Rightarrow> Answered (f r) | Failed e \<Rightarrow> Failed e | Panicked \<Rightarrow> Panicked), s))"

fun dispatch :: "fixed \<Rightarrow> world \<Rightarrow> ctx \<Rightarrow> routes \<Rightarrow> request \<Rightarrow> rstate \<Rightarrow> result handled" where
  "dispatch x w c rt (ToolsList cursor) s = mapped RTools (listTools x w c rt cursor s)"
| "dispatch x w c rt (ToolsCall p) s = mapped RCall (callTool x w c rt p s)"
| "dispatch x w c rt (PromptsList cursor) s = mapped RPrompts (listPrompts x w c rt cursor s)"
| "dispatch x w c rt (PromptsGet p) s = mapped RCall (getPrompt x w c rt p s)"
| "dispatch x w c rt (ResourcesList cursor) s = mapped RResources (listResources x w c rt cursor s)"
| "dispatch x w c rt (TemplatesList cursor) s = mapped RTemplates (listResourceTemplates x w c rt cursor s)"
| "dispatch x w c rt (ResourcesRead p) s = mapped RRead (readResource x w c rt p s)"
| "dispatch x w c rt (Complete p) s = mapped RCall (complete x w c rt p s)"
| "dispatch x w c rt (SetLevel level key) s = mapped RServer (setLevel w c rt level key s)"
| "dispatch x w c rt (Other m) s = mapped RServer (w_server w, s)"

type_synonym claim_order = "(string \<times> (json \<Rightarrow> tenant list)) list"

definition route ::
  "fixed \<Rightarrow> world \<Rightarrow> claim_order \<Rightarrow> Principal option \<Rightarrow> capProfile \<Rightarrow> time \<Rightarrow> routes \<Rightarrow> request \<Rightarrow> rstate \<Rightarrow> result handled" where
  "route x w ord op profile now rt req s =
     (case resolveTenant ord (rt_tenants rt) op of
        Inl e \<Rightarrow> (Failed e, s)
      | Inr ot \<Rightarrow>
          dispatch x w \<lparr>c_principal = op, c_tenant = ot, c_profile = profile, c_now = now\<rparr> rt req
            (case ot of None \<Rightarrow> s | Some t \<Rightarrow> on_evt (\<lambda>e. e\<lparr>e_Tenant := tenant_id ot\<rparr>) s))"

definition routeSafe ::
  "fixed \<Rightarrow> world \<Rightarrow> claim_order \<Rightarrow> Principal option \<Rightarrow> capProfile \<Rightarrow> time \<Rightarrow> routes \<Rightarrow> request \<Rightarrow> rstate
     \<Rightarrow> (wire_error + result) \<times> rstate" where
  "routeSafe x w ord op profile now rt req s =
     (case route x w ord op profile now rt req s of
        (Answered r, s') \<Rightarrow> (Inr r, s')
      | (Failed e, s') \<Rightarrow> (Inl e, s')
      | (Panicked, s') \<Rightarrow> (Inl InternalPanic, s'))"

definition plumbing :: "string \<Rightarrow> bool" where
  "plumbing mth \<longleftrightarrow> mth = ''notifications/initialized'' \<or> mth = ''ping''"

definition fresh_evt :: "string \<Rightarrow> Principal option \<Rightarrow> Event" where
  "fresh_evt mth op =
     (case op of None \<Rightarrow> new_event mth | Some p \<Rightarrow> (new_event mth)\<lparr>e_Principal := p_Subject p, e_Issuer := p_Issuer p\<rparr>)"

definition close_evt :: "world \<Rightarrow> wire_error + result \<Rightarrow> rstate \<Rightarrow> Event" where
  "close_evt w res s =
     (let e = (s_evt s)\<lparr>e_UpstreamCalls := w_metered w (s_asked s)\<rparr>;
          e = (case s_usage s of None \<Rightarrow> e | Some u \<Rightarrow> e\<lparr>e_Usage := Some u\<rparr>)
      in case res of
           Inl err \<Rightarrow> e\<lparr>e_Error := Some err, e_Outcome := (if e_Outcome e = OutcomeNone then classify err else e_Outcome e)\<rparr>
         | Inr _ \<Rightarrow> if e_Outcome e = OutcomeNone then e\<lparr>e_Outcome := OutcomeOK\<rparr> else e)"

text \<open>The answer, the events emitted and the state; a request starts with an empty log and no usage.\<close>

definition federationMiddleware ::
  "fixed \<Rightarrow> world \<Rightarrow> claim_order \<Rightarrow> Principal option \<Rightarrow> capProfile \<Rightarrow> time \<Rightarrow> routes \<Rightarrow> request \<Rightarrow> rstate
     \<Rightarrow> (wire_error + result) \<times> Event list \<times> rstate" where
  "federationMiddleware x w ord op profile now rt req s0 =
     (let s1 = s0\<lparr>s_evt := fresh_evt (method_of req) op, s_asked := [], s_usage := None\<rparr>
      in case routeSafe x w ord op profile now rt req s1 of (res, s2) \<Rightarrow>
           (res, if plumbing (method_of req) then [] else [close_evt w res s2], s2))"

subsection \<open>Requests an upstream makes of the client\<close>

definition directionServerInitiated :: string where
  "directionServerInitiated = ''server_initiated''"

text \<open>
  The refusal or, when the request may proceed, the pending event, which \<open>finish_server_initiated\<close>
  completes with how the exchange ended. The second component is what was emitted at once.
\<close>

definition authorizeServerInitiated ::
  "world \<Rightarrow> ctx \<Rightarrow> routes \<Rightarrow> live_upstream \<Rightarrow> string \<Rightarrow> string option \<Rightarrow> (wire_error + Event) \<times> Event list" where
  "authorizeServerInitiated w c rt u mth body =
     (let evt0 = (fresh_evt mth (c_principal c))\<lparr>e_Direction := directionServerInitiated, e_Upstream := id_of u,
                    e_Tenant := tenant_id (c_tenant c)\<rparr>;
          d = DecideServerInitiated (rt_policy rt) (c_principal c) (id_of u) mth;
          evt1 = evt0\<lparr>e_RuleID := RuleID d\<rparr>
      in if \<not> Allowed d then (Inl (PolicyDenied mth '''' '''' []), [denied_evt evt1])
         else (case hookServerInitiated (rt_hook rt) (w_hook w) (c_principal c) (evt1\<lparr>e_Decision := ''allow''\<rparr>) (id_of u) mth body of
                 (Some e, evt2) \<Rightarrow> (Inl e, [evt2])
               | (None, evt2) \<Rightarrow> (Inr evt2, [])))"

definition finish_server_initiated :: "wire_error option \<Rightarrow> Event \<Rightarrow> Event" where
  "finish_server_initiated err evt =
     (case err of None \<Rightarrow> evt\<lparr>e_Outcome := OutcomeOK\<rparr> | Some e \<Rightarrow> evt\<lparr>e_Error := Some e, e_Outcome := classify e\<rparr>)"

subsection \<open>Names resolve to what they were made from\<close>

lemma live_snapshot_facts:
  assumes "gw_reachable X g"
  shows "u \<in> set (rt_upstreams (gw_routes g)) \<Longrightarrow> up_Namespace (lv_up u) = uc_Namespace (lv_cfg u)"
    and "rt_byNamespace (gw_routes g) ns = Some u \<longleftrightarrow>
      u \<in> set (rt_upstreams (gw_routes g)) \<and> uc_Namespace (lv_cfg u) = ns \<and> ns \<noteq> ''''"
    and "rt_byID (gw_routes g) i = Some u \<longleftrightarrow> u \<in> set (rt_upstreams (gw_routes g)) \<and> uc_ID (lv_cfg u) = i"
proof -
  have inv: "gw_inv X g" using assms by (rule gw_reachable_inv)
  define cfg where "cfg = rt_cfg (gw_routes g)"
  have s: "snapshot_of X (gw_cfg g) (gw_next g) cfg (gw_routes g)" and v: "Validate (o_lib X) cfg = None"
    using inv unfolding gw_inv_def cfg_def by blast+
  have ids: "distinct (map uc_ID (cf_Upstreams cfg))" "distinct (filter (\<lambda>s. s \<noteq> '''') (map uc_Namespace (cf_Upstreams cfg)))"
    using validated_identifying [OF v] unfolding identifying_def by blast+
  show "rt_byNamespace (gw_routes g) ns = Some u \<longleftrightarrow>
      u \<in> set (rt_upstreams (gw_routes g)) \<and> uc_Namespace (lv_cfg u) = ns \<and> ns \<noteq> ''''" by (rule snapshot_byNamespace [OF s ids(2)])
  show "rt_byID (gw_routes g) i = Some u \<longleftrightarrow> u \<in> set (rt_upstreams (gw_routes g)) \<and> uc_ID (lv_cfg u) = i"
    by (rule snapshot_byID [OF s ids(1)])
  show "up_Namespace (lv_up u) = uc_Namespace (lv_cfg u)" if "u \<in> set (rt_upstreams (gw_routes g))"
    using s that unfolding snapshot_of_def wired_def by blast
qed

lemma wired_ns_ok:
  assumes "gw_reachable X g" "u \<in> set (rt_upstreams (gw_routes g))" "uc_Namespace (lv_cfg u) \<noteq> ''''"
  shows "ns_ok (lv_up u) \<and> up_sep (lv_up u) = NamespaceSeparator (gw_cfg g) \<and> up_Namespace (lv_up u) = uc_Namespace (lv_cfg u)"
proof -
  have inv: "gw_inv X g" using assms(1) by (rule gw_reachable_inv)
  define cfg where "cfg = rt_cfg (gw_routes g)"
  have s: "snapshot_of X (gw_cfg g) (gw_next g) cfg (gw_routes g)" and v: "Validate (o_lib X) cfg = None"
      and sec: "section_changed cfg (gw_cfg g) = None"
    using inv unfolding gw_inv_def cfg_def by blast+
  have w: "wired (gw_cfg g) u" using s assms(2) unfolding snapshot_of_def by blast
  have sep: "NamespaceSeparator cfg = NamespaceSeparator (gw_cfg g)"
    using sec by (simp add: section_changed_None NamespaceSeparator_def)
  have i: "identifying (o_lib X) cfg" using v by (rule validated_identifying)
  have "lv_cfg u \<in> set (cf_Upstreams cfg)" using snapshot_cfgs [OF s] assms(2) by blast
  then have n: "list_all id_char (uc_Namespace (lv_cfg u))" using i unfolding identifying_def by blast
  have "NamespaceSeparator cfg \<noteq> ''''" "\<forall>ch \<in> set (NamespaceSeparator cfg). \<not> id_char ch"
    using i unfolding identifying_def by blast+
  moreover have "\<not> id_char CHR ''/''" by (simp add: id_char_def)
  ultimately show ?thesis using w sep n assms(3) unfolding wired_def ns_ok_def list_all_iff by auto
qed

lemma namespace_unless_passthrough:
  assumes "gw_reachable X g" "u \<in> set (rt_upstreams (gw_routes g))"
  shows "uc_Namespace (lv_cfg u) = '''' \<longleftrightarrow> rt_passthrough (gw_routes g)"
    and "rt_passthrough (gw_routes g) \<Longrightarrow> rt_upstreams (gw_routes g) = [u]"
proof -
  have inv: "gw_inv X g" using assms(1) by (rule gw_reachable_inv)
  define cfg where "cfg = rt_cfg (gw_routes g)"
  have s: "snapshot_of X (gw_cfg g) (gw_next g) cfg (gw_routes g)" and v: "Validate (o_lib X) cfg = None"
    using inv unfolding gw_inv_def cfg_def by blast+
  have p: "rt_passthrough (gw_routes g) = Passthrough cfg" and m: "map lv_cfg (rt_upstreams (gw_routes g)) = cf_Upstreams cfg"
    using s unfolding snapshot_of_def by blast+
  have u: "lv_cfg u \<in> set (cf_Upstreams cfg)" using snapshot_cfgs [OF s] assms(2) by blast
  have single: "1 < length (cf_Upstreams cfg) \<longrightarrow> uc_Namespace (lv_cfg u) \<noteq> ''''"
    using validated_identifying [OF v] u unfolding identifying_def by blast
  show "uc_Namespace (lv_cfg u) = '''' \<longleftrightarrow> rt_passthrough (gw_routes g)"
    using p u single by (cases "cf_Upstreams cfg" rule: list.exhaust) (auto simp: Passthrough_def split: list.splits)
  show "rt_upstreams (gw_routes g) = [u]" if "rt_passthrough (gw_routes g)"
  proof -
    have "length (rt_upstreams (gw_routes g)) = 1"
      using that p m by (auto simp: Passthrough_def split: list.splits)
    then show ?thesis using assms(2) by (auto simp: length_Suc_conv)
  qed
qed

text \<open>
  C10. Public names and upstream names correspond one to one, whatever was reloaded or discovered: the public
  name of any name of any live upstream resolves to that upstream and that name, and a name that
  resolves is the public name of what it resolves to. So no upstream can shadow or reach into another's names.
\<close>

theorem public_names_resolve:
  assumes r: "gw_reachable X g"
  shows "(u \<in> set (rt_upstreams (gw_routes g)) \<longrightarrow>
      resolve (gw_routes g) (NamespaceSeparator (gw_cfg g)) (publicName (lv_up u) bare) = Inr (u, bare)) \<and>
    (rt_upstreams (gw_routes g) \<noteq> [] \<longrightarrow> resolve (gw_routes g) (NamespaceSeparator (gw_cfg g)) name = Inr (v, n) \<longrightarrow>
      v \<in> set (rt_upstreams (gw_routes g)) \<and> name = publicName (lv_up v) n)"
proof -
  let ?rt = "gw_routes g" and ?sep = "NamespaceSeparator (gw_cfg g)"
  note snap = live_snapshot_facts [OF r]
  have "resolve ?rt ?sep (publicName (lv_up u) bare) = Inr (u, bare)" if u: "u \<in> set (rt_upstreams ?rt)"
  proof (cases "rt_passthrough ?rt")
    case True
    then show ?thesis using namespace_unless_passthrough [OF r u] snap(1) [OF u] by (simp add: resolve_def publicName_def)
  next
    case False
    then have ne: "uc_Namespace (lv_cfg u) \<noteq> ''''" using namespace_unless_passthrough(1) [OF r u] by simp
    note ok = wired_ns_ok [OF r u ne]
    have "str_cut (up_Namespace (lv_up u) @ ?sep @ bare) ?sep = Some (up_Namespace (lv_up u), bare)"
      by (rule str_cut_disjoint) (use ok in \<open>auto simp: ns_ok_def\<close>)
    moreover have "rt_byNamespace ?rt (up_Namespace (lv_up u)) = Some u" using snap(2) u ok ne by simp
    ultimately show ?thesis using False ok ne by (simp add: resolve_def publicName_def)
  qed
  moreover have "v \<in> set (rt_upstreams ?rt) \<and> name = publicName (lv_up v) n"
    if ne: "rt_upstreams ?rt \<noteq> []" and res: "resolve ?rt ?sep name = Inr (v, n)"
  proof (cases "rt_passthrough ?rt")
    case True
    then have "v \<in> set (rt_upstreams ?rt)" "n = name" using res ne by (auto simp: resolve_def)
    then show ?thesis using namespace_unless_passthrough(1) [OF r] snap(1) True by (simp add: publicName_def)
  next
    case False
    then obtain ns where c: "str_cut name ?sep = Some (ns, n)" "rt_byNamespace ?rt ns = Some v"
      using res by (auto simp: resolve_def split: option.splits)
    then have v: "v \<in> set (rt_upstreams ?rt)" "uc_Namespace (lv_cfg v) = ns" "ns \<noteq> ''''" using snap(2) by auto
    then show ?thesis using wired_ns_ok [OF r v(1)] str_cut_Some [OF c(1)] by (simp add: publicName_def)
  qed
  ultimately show ?thesis by blast
qed

theorem public_names_resolve_witness:
  "\<exists>(g :: gateway) u. u \<in> set (rt_upstreams (gw_routes g)) \<and>
     resolve (gw_routes g) (NamespaceSeparator (gw_cfg g)) ''a__run'' = Inr (u, ''run'')"
proof -
  have "Validate (o_lib sample_outside) sample_config = None" using sample_valid by (simp add: sample_outside_def)
  then obtain g where g: "New_gateway sample_outside sample_config = Inr g" "gw_cfg g = sample_config" "rt_cfg (gw_routes g) = sample_config"
    by (rule New_gateway_ok)
  note r = gw_reachable.start [OF g(1)]
  have s: "snapshot_of sample_outside (gw_cfg g) (gw_next g) sample_config (gw_routes g)"
    using gw_reachable_inv [OF r] unfolding gw_inv_def g(3) by blast
  have "sample_upstream ''a'' None \<in> set (cf_Upstreams sample_config)" by (simp add: sample_config_def)
  then obtain u where u: "u \<in> set (rt_upstreams (gw_routes g))" "lv_cfg u = sample_upstream ''a'' None"
    using snapshot_cfgs [OF s] by auto
  have ns: "uc_Namespace (lv_cfg u) = ''a''" using u(2) by (simp add: sample_upstream_def)
  have sep: "NamespaceSeparator (gw_cfg g) = ''__''" using g(2) by (simp add: NamespaceSeparator_def sample_config_def)
  have "publicName (lv_up u) ''run'' = ''a__run''"
    using wired_ns_ok [OF r u(1)] ns sep by (simp add: publicName_def)
  then have "resolve (gw_routes g) (NamespaceSeparator (gw_cfg g)) ''a__run'' = Inr (u, ''run'')"
    using public_names_resolve [OF r, of u "''run''"] u(1) by simp
  with u(1) show ?thesis by blast
qed

end
