(* ===== verification/Router_Safety.thy ===== *)
theory Router_Safety
  imports Router
begin

section \<open>What reaches an upstream, and what is recorded\<close>

text \<open>
  Invariants of the request pipeline of theory Router, proved handler by handler: everything asked of
  an upstream is permitted by the tenant's subset and by policy, for the caller, under the name the upstream knows; and
  the event that closes the request tells success from refusal and failure.
\<close>

subsection \<open>Permission\<close>

definition meta_clean :: "json_map option \<Rightarrow> bool" where
  "meta_clean meta \<longleftrightarrow> (\<forall>k \<in> set connectionRequestMetaKeys. Option.bind meta (\<lambda>m. fmlookup m k) = None)"

definition call_evidence :: "world \<Rightarrow> Engine \<Rightarrow> live_upstream \<Rightarrow> CallParams \<Rightarrow> Evidence" where
  "call_evidence w pol u p =
     \<lparr>ev_Args = rawArgs w pol (cp_Arguments p),
      ev_Tool = (if NeedsAnnotations pol then Some (annotationsFor w u (cp_Name p)) else None)\<rparr>"

fun permitted :: "world \<Rightarrow> ctx \<Rightarrow> routes \<Rightarrow> forwarded \<Rightarrow> bool" where
  "permitted w c rt (FTool i p) \<longleftrightarrow> sees (c_tenant c) i \<and> meta_clean (cp_Meta p) \<and>
     (\<exists>u. id_of u = i \<and>
        Allowed (DecideCall (rt_policy rt) (c_principal c) i ''tools/call'' (cp_Name p) (call_evidence w (rt_policy rt) u p)))"
| "permitted w c rt (FPrompt i p) \<longleftrightarrow> sees (c_tenant c) i \<and> meta_clean (cp_Meta p) \<and>
     Allowed (DecideCall (rt_policy rt) (c_principal c) i ''prompts/get'' (cp_Name p) no_evidence)"
| "permitted w c rt (FRead i p) \<longleftrightarrow> sees (c_tenant c) i \<and> meta_clean (rp_Meta p) \<and>
     Allowed (Decide (rt_policy rt) (c_principal c) i ''resources/read'' (rp_URI p))"
| "permitted w c rt (FComplete i p) \<longleftrightarrow> sees (c_tenant c) i \<and> meta_clean (xp_Meta p) \<and>
     (if xp_RefType p = ''ref/prompt''
      then Allowed (DecideCall (rt_policy rt) (c_principal c) i ''prompts/get'' (xp_RefName p) no_evidence)
      else Allowed (DecideCall (rt_policy rt) (c_principal c) i ''resources/read'' (xp_RefURI p) no_evidence))"
| "permitted w c rt (FList kind i) \<longleftrightarrow> sees (c_tenant c) i"
| "permitted w c rt (FLevel i l) \<longleftrightarrow> sees (c_tenant c) i"

definition all_permitted :: "world \<Rightarrow> ctx \<Rightarrow> routes \<Rightarrow> rstate \<Rightarrow> bool" where
  "all_permitted w c rt s \<longleftrightarrow> (\<forall>f \<in> set (s_asked s). permitted w c rt f)"

lemma sanitized_clean: "meta_clean (sanitizeRequestMeta meta)"
  by (simp add: meta_clean_def sanitizeRequestMeta_lookup)

lemma asked_simps [simp]:
  "s_asked (on_evt f s) = s_asked s" "s_asked (ask a s) = s_asked s @ [a]"
  "s_evt (on_evt f s) = f (s_evt s)" "s_evt (ask a s) = s_evt s"
  by (simp_all add: on_evt_def ask_def)

lemma permitted_update [simp]:
  "all_permitted w c rt (on_evt f s) = all_permitted w c rt s"
  "all_permitted w c rt (s\<lparr>s_evt := e\<rparr>) = all_permitted w c rt s"
  "all_permitted w c rt (s\<lparr>s_owner := m\<rparr>) = all_permitted w c rt s"
  "all_permitted w c rt (s\<lparr>s_views := v\<rparr>) = all_permitted w c rt s"
  "all_permitted w c rt (s\<lparr>s_tasks := t\<rparr>) = all_permitted w c rt s"
  "all_permitted w c rt (s\<lparr>s_usage := z\<rparr>) = all_permitted w c rt s"
  "all_permitted w c rt (ask a s) \<longleftrightarrow> all_permitted w c rt s \<and> permitted w c rt a"
  by (auto simp: all_permitted_def)

lemma authorizeCall_None:
  assumes "authorizeCall c rt u mth bare ev evt = (None, evt')"
  shows "sees (c_tenant c) (id_of u) \<and> Allowed (DecideCall (rt_policy rt) (c_principal c) (id_of u) mth bare ev)"
  using assms by (auto simp: authorizeCall_def Let_def split: if_splits)

lemma visible_seen: "u \<in> set (visibleUpstreams id_of (c_tenant c) us) \<Longrightarrow> sees (c_tenant c) (id_of u)"
  by (simp add: visibleUpstreams_sees)

lemma lists_permitted:
  assumes "all_permitted w c rt s"
  shows "all_permitted w c rt (s\<lparr>s_asked := s_asked s @ map (\<lambda>u. FList kind (id_of u)) (visibleUpstreams id_of (c_tenant c) us)\<rparr>)"
  using assms visible_seen by (auto simp: all_permitted_def)

lemma merge_lists_asked:
  assumes "\<And>u bare s. s_asked (snd (pub u bare s)) = s_asked s"
  shows "s_asked (snd (snd (merge_lists pub vis xs f s))) = s_asked s"
proof (induction xs arbitrary: f s)
  case (Cons a xs)
  obtain u bare where a: "a = (u, bare)" by (cases a)
  show ?case using Cons.IH assms [of u bare s] by (auto simp: a split: prod.splits) (metis snd_conv)
qed simp

lemma list_handler_permitted:
  assumes "all_permitted w c rt s" "\<And>u bare s. s_asked (snd (pub u bare s)) = s_asked s"
  shows "all_permitted w c rt (snd (list_handler x c rt kind invoke cursor name fetch pub vis s))"
proof -
  define ups where "ups = visibleUpstreams id_of (c_tenant c) (rt_upstreams rt)"
  define s1 where "s1 = s\<lparr>s_asked := s_asked s @ map (\<lambda>u. FList kind (id_of u)) ups\<rparr>"
  have p: "all_permitted w c rt s1" unfolding s1_def ups_def by (rule lists_permitted [OF assms(1)])
  have "all_permitted w c rt s2" if "merge_lists pub vis xs f s1 = (items, f', s2)" for xs f items f' s2
    using merge_lists_asked [of pub vis xs f s1] assms(2) that p by (simp add: all_permitted_def)
  then show ?thesis using p
    by (auto simp: list_handler_def Let_def ups_def [symmetric] s1_def [symmetric] split: prod.splits sum.splits option.splits)
qed

lemma on_view_asked [simp]: "s_asked (snd (on_view u f s)) = s_asked s"
  by (simp add: on_view_def split: prod.splits)


subsection \<open>Every handler asks only what is permitted\<close>

lemma listTools_permitted: "all_permitted w c rt s \<Longrightarrow> all_permitted w c rt (snd (listTools x w c rt cursor s))"
  unfolding listTools_def by (rule list_handler_permitted) simp_all

lemma listPrompts_permitted: "all_permitted w c rt s \<Longrightarrow> all_permitted w c rt (snd (listPrompts x w c rt cursor s))"
  unfolding listPrompts_def by (rule list_handler_permitted) simp_all

lemma listResources_permitted: "all_permitted w c rt s \<Longrightarrow> all_permitted w c rt (snd (listResources x w c rt cursor s))"
  unfolding listResources_def by (rule list_handler_permitted) (auto simp: on_view_def split: prod.splits)

lemma listResourceTemplates_permitted:
  "all_permitted w c rt s \<Longrightarrow> all_permitted w c rt (snd (listResourceTemplates x w c rt cursor s))"
  unfolding listResourceTemplates_def by (rule list_handler_permitted) simp_all

lemma callTool_permitted:
  assumes "all_permitted w c rt s"
  shows "all_permitted w c rt (snd (callTool x w c rt params s))"
  using assms sanitized_clean
  by (auto simp: callTool_def Let_def call_evidence_def split: option.splits sum.splits prod.splits answer.splits
      dest!: authorizeCall_None)

lemma getPrompt_permitted:
  assumes "all_permitted w c rt s"
  shows "all_permitted w c rt (snd (getPrompt x w c rt params s))"
  using assms sanitized_clean
  by (auto simp: getPrompt_def Let_def authorize_def split: option.splits sum.splits prod.splits answer.splits
      dest!: authorizeCall_None)

lemma probe_read_permitted:
  assumes "all_permitted w c rt s" "meta_clean (rp_Meta p)" "\<forall>u \<in> set us. sees (c_tenant c) (id_of u)"
  shows "all_permitted w c rt (snd (probe_read x w c rt p denied us s))"
  using assms
  by (induction us arbitrary: denied s) (auto simp: Let_def may_read_def split: answer.splits)

lemma readResource_permitted:
  assumes "all_permitted w c rt s"
  shows "all_permitted w c rt (snd (readResource x w c rt params s))"
proof (cases params)
  case (Some p0)
  define p where "p = p0\<lparr>rp_Meta := sanitizeRequestMeta (rp_Meta p0)\<rparr>"
  have clean: "meta_clean (rp_Meta p)" by (simp add: p_def sanitized_clean)
  have probe: "all_permitted w c rt (snd (probe_read x w c rt p d (visibleUpstreams id_of (c_tenant c) (rt_upstreams rt)) s'))"
    if "all_permitted w c rt s'" for s' d
    using probe_read_permitted [OF that clean] visible_seen by blast
  show ?thesis using assms clean
    by (auto simp: probe readResource_def Some Let_def p_def [symmetric] may_read_def split: option.splits prod.splits answer.splits)
qed (use assms in \<open>simp add: readResource_def\<close>)

lemma ownerForURI_permitted:
  assumes "all_permitted w c rt s"
  shows "all_permitted w c rt (snd (ownerForURI w c rt uri s))"
  using assms lists_permitted [OF assms, of "''resources''" "rt_upstreams rt"]
  by (auto simp: ownerForURI_def Let_def split: option.splits prod.splits)

lemma complete_permitted:
  assumes "all_permitted w c rt s"
  shows "all_permitted w c rt (snd (complete x w c rt params s))"
proof (cases params)
  case (Some p)
  obtain t s1 where t: "complete_target x w c rt p s = (t, s1)" by fastforce
  have s1: "all_permitted w c rt s1"
    using t assms ownerForURI_permitted [of w c rt "on_evt (\<lambda>e. e\<lparr>e_Name := xp_RefURI p\<rparr>) s" "xp_RefURI p"]
    by (auto simp: complete_target_def Let_def split: if_splits sum.splits prod.splits)
  have target: "meta_clean (xp_Meta fwd) \<and>
      (if xp_RefType fwd = ''ref/prompt'' then mth = ''prompts/get'' \<and> name = xp_RefName fwd
       else mth = ''resources/read'' \<and> name = xp_RefURI fwd)" if "t = Inr (u, mth, name, fwd)" for u mth name fwd
    using t that sanitized_clean by (auto simp: complete_target_def Let_def split: if_splits sum.splits prod.splits)
  show ?thesis
  proof (cases t)
    case (Inr r)
    obtain u mth name fwd where r: "r = (u, mth, name, fwd)" by (cases r)
    then show ?thesis using s1 target [of u mth name fwd] Inr
      by (auto simp: complete_def Some t authorize_def Let_def split: option.splits prod.splits answer.splits if_splits
          dest!: authorizeCall_None)
  qed (use s1 in \<open>simp add: complete_def Some t\<close>)
qed (use assms in \<open>simp add: complete_def\<close>)

lemma setLevel_permitted:
  assumes "all_permitted w c rt s"
  shows "all_permitted w c rt (snd (setLevel w c rt level key s))"
proof -
  have "all_permitted w c rt (fold (\<lambda>u. ask (FLevel (id_of u) l)) us s)"
    if "\<forall>u \<in> set us. sees (c_tenant c) (id_of u)" for us l
    using assms that by (induction us arbitrary: s) auto
  then show ?thesis using assms by (auto simp: setLevel_def visible_seen split: option.splits)
qed

lemma mapped_snd [simp]: "snd (mapped f h) = snd h"
  by (cases h) (simp add: mapped_def)

lemma dispatch_permitted:
  "all_permitted w c rt s \<Longrightarrow> all_permitted w c rt (snd (dispatch x w c rt req s))"
  by (cases req) (simp_all add: listTools_permitted listPrompts_permitted listResources_permitted listResourceTemplates_permitted
      callTool_permitted getPrompt_permitted readResource_permitted complete_permitted setLevel_permitted)


subsection \<open>The event that closes a request\<close>

text \<open>Who asked for what, which no handler changes, and how a handler may leave the outcome.\<close>

definition stamp :: "Event \<Rightarrow> string \<times> string \<times> string \<times> string \<times> string \<times> wire_error option" where
  "stamp e = (e_Principal e, e_Issuer e, e_Method e, e_Tenant e, e_Direction e, e_Error e)"

fun is_hook_denial :: "wire_error \<Rightarrow> bool" where
  "is_hook_denial (HookDenied _ _ _ _) = True"
| "is_hook_denial _ = False"

definition agrees :: "wire_error \<Rightarrow> Outcome \<Rightarrow> bool" where
  "agrees e out \<longleftrightarrow> out = OutcomeNone \<or> (out = OutcomeDenied \<and> classify e = OutcomeDenied) \<or> (out = OutcomeHookDenied \<and> is_hook_denial e)"

definition settles :: "Event \<Rightarrow> 'r handled \<Rightarrow> bool" where
  "settles e h \<longleftrightarrow> stamp (s_evt (snd h)) = stamp e \<and>
     (case fst h of Failed err \<Rightarrow> agrees err (e_Outcome (s_evt (snd h))) | _ \<Rightarrow> e_Outcome (s_evt (snd h)) = OutcomeNone)"

lemma stamp_update [simp]:
  "stamp (e\<lparr>e_Name := n\<rparr>) = stamp e" "stamp (e\<lparr>e_Upstream := n\<rparr>) = stamp e" "stamp (e\<lparr>e_Decision := n\<rparr>) = stamp e"
  "stamp (e\<lparr>e_RuleID := n\<rparr>) = stamp e" "stamp (e\<lparr>e_MissingScopes := ss\<rparr>) = stamp e" "stamp (e\<lparr>e_Outcome := out\<rparr>) = stamp e"
  "stamp (e\<lparr>e_ItemsServed := k\<rparr>) = stamp e" "stamp (e\<lparr>e_ItemsCapped := i\<rparr>) = stamp e" "stamp (e\<lparr>e_HookOutcome := n\<rparr>) = stamp e"
  "stamp (e\<lparr>e_UpstreamCalls := k\<rparr>) = stamp e" "stamp (e\<lparr>e_Usage := z\<rparr>) = stamp e"
  by (simp_all add: stamp_def)

lemma settles_simps [simp]:
  "settles e (Failed err, s) \<longleftrightarrow> stamp (s_evt s) = stamp e \<and> agrees err (e_Outcome (s_evt s))"
  "settles e (Answered r, s) \<longleftrightarrow> stamp (s_evt s) = stamp e \<and> e_Outcome (s_evt s) = OutcomeNone"
  "settles e (Panicked, s) \<longleftrightarrow> stamp (s_evt s) = stamp e \<and> e_Outcome (s_evt s) = OutcomeNone"
  by (simp_all add: settles_def)

lemma agrees_simps [simp]:
  "agrees e OutcomeNone" "agrees (PolicyDenied m n a ss) OutcomeDenied" "agrees (errOutsideSubset t m n u) OutcomeDenied"
  "agrees (HookDenied st m n r) OutcomeHookDenied"
  by (auto simp: agrees_def classify_def errOutsideSubset_def code_defs)

lemma authorizeCall_settles:
  "authorizeCall c rt u mth bare ev evt = (None, evt') \<Longrightarrow> stamp evt' = stamp evt \<and> e_Outcome evt' = e_Outcome evt"
  "authorizeCall c rt u mth bare ev evt = (Some e, evt') \<Longrightarrow> stamp evt' = stamp evt \<and> agrees e (e_Outcome evt')"
  by (auto simp: authorizeCall_def denied_evt_def Let_def split: if_splits prod.splits)

lemma hookIngress_settles:
  "hookIngress oh ep op evt u mth bare args = (None, evt') \<Longrightarrow> stamp evt' = stamp evt \<and> e_Outcome evt' = e_Outcome evt"
  "hookIngress oh ep op evt u mth bare args = (Some e, evt') \<Longrightarrow> stamp evt' = stamp evt \<and> agrees e (e_Outcome evt')"
  by (auto simp: hookIngress_def Let_def split: if_splits prod.splits)

lemma hookEgress_settles:
  "hookEgress oh ep op evt u mth bare body = (None, evt') \<Longrightarrow> stamp evt' = stamp evt \<and> e_Outcome evt' = e_Outcome evt"
  "hookEgress oh ep op evt u mth bare body = (Some e, evt') \<Longrightarrow> stamp evt' = stamp evt \<and> agrees e (e_Outcome evt')"
  by (auto simp: hookEgress_def Let_def split: if_splits prod.splits)

lemmas gate_settles = authorizeCall_settles hookIngress_settles hookEgress_settles

lemma merge_lists_evt:
  assumes "\<And>u bare s. s_evt (snd (pub u bare s)) = s_evt s"
  shows "s_evt (snd (snd (merge_lists pub vis xs f s))) = s_evt s"
proof (induction xs arbitrary: f s)
  case (Cons a xs)
  obtain u bare where a: "a = (u, bare)" by (cases a)
  show ?case using Cons.IH assms [of u bare s] by (auto simp: a split: prod.splits) (metis snd_conv)
qed simp

lemma list_handler_settles:
  assumes "e_Outcome (s_evt s) = OutcomeNone" "\<And>u bare s. s_evt (snd (pub u bare s)) = s_evt s"
  shows "settles (s_evt s) (list_handler x c rt kind invoke cursor name fetch pub vis s)"
proof -
  have "s_evt s2 = s_evt s1" if "merge_lists pub vis xs f s1 = (items, f', s2)" for xs f s1 items f' s2
    using merge_lists_evt [of pub vis xs f s1] assms(2) that by simp
  then show ?thesis using assms(1)
    by (auto simp: list_handler_def Let_def evtItems_def split: prod.splits sum.splits option.splits)
qed

lemma on_view_evt [simp]: "s_evt (snd (on_view u f s)) = s_evt s"
  by (simp add: on_view_def split: prod.splits)

lemma lists_settle:
  assumes "e_Outcome (s_evt s) = OutcomeNone"
  shows "settles (s_evt s) (listTools x w c rt cursor s)" "settles (s_evt s) (listPrompts x w c rt cursor s)"
    "settles (s_evt s) (listResources x w c rt cursor s)" "settles (s_evt s) (listResourceTemplates x w c rt cursor s)"
  unfolding listTools_def listPrompts_def listResources_def listResourceTemplates_def
  by (rule list_handler_settles; use assms in \<open>auto simp: on_view_def split: prod.splits\<close>)+

lemma callTool_settles:
  assumes "e_Outcome (s_evt s) = OutcomeNone"
  shows "settles (s_evt s) (callTool x w c rt params s)"
  using assms
  by (auto simp: callTool_def Let_def split: option.splits sum.splits prod.splits answer.splits dest!: gate_settles)

lemma getPrompt_settles:
  assumes "e_Outcome (s_evt s) = OutcomeNone"
  shows "settles (s_evt s) (getPrompt x w c rt params s)"
  using assms
  by (auto simp: getPrompt_def authorize_def Let_def split: option.splits sum.splits prod.splits answer.splits dest!: gate_settles)

lemma probe_read_settles:
  assumes "e_Outcome (s_evt s) = OutcomeNone" "stamp (s_evt s) = stamp e"
  shows "settles e (probe_read x w c rt p denied us s)"
  using assms
  by (induction us arbitrary: denied s) (auto simp: Let_def denied_evt_def split: answer.splits)

lemma readResource_settles:
  assumes "e_Outcome (s_evt s) = OutcomeNone"
  shows "settles (s_evt s) (readResource x w c rt params s)"
  using assms
  by (auto simp: readResource_def Let_def denied_evt_def probe_read_settles split: option.splits prod.splits answer.splits)

lemma complete_target_evt:
  assumes "complete_target x w c rt p s = (t, s1)"
  shows "stamp (s_evt s1) = stamp (s_evt s) \<and> e_Outcome (s_evt s1) = e_Outcome (s_evt s)"
  using assms by (auto simp: complete_target_def ownerForURI_def Let_def split: if_splits sum.splits prod.splits option.splits)

lemma complete_settles:
  assumes "e_Outcome (s_evt s) = OutcomeNone"
  shows "settles (s_evt s) (complete x w c rt params s)"
  using assms
  by (auto simp: complete_def authorize_def Let_def split: option.splits sum.splits prod.splits answer.splits
      dest!: gate_settles complete_target_evt)

lemma setLevel_settles:
  assumes "e_Outcome (s_evt s) = OutcomeNone"
  shows "settles (s_evt s) (setLevel w c rt level key s)"
proof -
  have "s_evt (fold (\<lambda>u. ask (FLevel (id_of u) l)) us s) = s_evt s" for us l
    by (induction us arbitrary: s) auto
  then show ?thesis using assms by (auto simp: setLevel_def settles_def split: option.splits answer.splits)
qed

lemma mapped_settles [simp]: "settles e (mapped f h) = settles e h"
  by (cases h) (auto simp: mapped_def settles_def split: answer.splits)

lemma dispatch_settles:
  "e_Outcome (s_evt s) = OutcomeNone \<Longrightarrow> settles (s_evt s) (dispatch x w c rt req s)"
  by (cases req) (auto simp: lists_settle callTool_settles getPrompt_settles readResource_settles complete_settles
      setLevel_settles settles_def [of _ "(w_server w, s)"] split: answer.splits)

subsection \<open>The pipeline\<close>

definition caller :: "Principal option \<Rightarrow> tenant option \<Rightarrow> capProfile \<Rightarrow> time \<Rightarrow> ctx" where
  "caller op ot profile now = \<lparr>c_principal = op, c_tenant = ot, c_profile = profile, c_now = now\<rparr>"


text \<open>
  C7. Every request that is not protocol plumbing leaves through one door: exactly one event is emitted, whatever
  the handler did, a panic included. The event names the caller, the method and the tenant; it carries an error exactly when the
  caller gets one; its outcome is success exactly when the caller gets a result, and otherwise what
  the error says, except that a refusal of the decision hook is told apart from a denial by policy.
\<close>

theorem single_exit_event:
  "case federationMiddleware x w ord op profile now rt req s0 of (res, evts, s) \<Rightarrow>
     if plumbing (method_of req) then evts = []
     else \<exists>e. evts = [e] \<and> e_Method e = method_of req \<and>
       e_Principal e = (case op of None \<Rightarrow> '''' | Some p \<Rightarrow> p_Subject p) \<and>
       e_Tenant e = (case resolveTenant ord (rt_tenants rt) op of Inl _ \<Rightarrow> '''' | Inr ot \<Rightarrow> tenant_id ot) \<and>
       (case res of
          Inr _ \<Rightarrow> e_Error e = None \<and> e_Outcome e = OutcomeOK
        | Inl err \<Rightarrow> e_Error e = Some err \<and> e_Outcome e \<noteq> OutcomeNone \<and> e_Outcome e \<noteq> OutcomeOK \<and>
            (e_Outcome e = classify err \<or> e_Outcome e = OutcomeHookDenied \<and> is_hook_denial err))"
proof -
  define s1 where "s1 = s0\<lparr>s_evt := fresh_evt (method_of req) op, s_asked := [], s_usage := None\<rparr>"
  define t where "t = (case resolveTenant ord (rt_tenants rt) op of Inl _ \<Rightarrow> '''' | Inr ot \<Rightarrow> tenant_id ot)"
  have e1: "e_Outcome (s_evt s1) = OutcomeNone" "e_Tenant (s_evt s1) = ''''" "e_Error (s_evt s1) = None"
      "e_Method (s_evt s1) = method_of req" "e_Principal (s_evt s1) = (case op of None \<Rightarrow> '''' | Some p \<Rightarrow> p_Subject p)"
    by (auto simp: s1_def fresh_evt_def new_event_def split: option.splits)
  have r: "settles ((s_evt s1)\<lparr>e_Tenant := t\<rparr>) (route x w ord op profile now rt req s1)"
  proof (cases "resolveTenant ord (rt_tenants rt) op")
    case (Inl e)
    then show ?thesis using e1 by (simp add: route_def t_def stamp_def)
  next
    case (Inr ot)
    define s2 where "s2 = (case ot of None \<Rightarrow> s1 | Some t \<Rightarrow> on_evt (\<lambda>e. e\<lparr>e_Tenant := tenant_id ot\<rparr>) s1)"
    have "s_evt s2 = (s_evt s1)\<lparr>e_Tenant := t\<rparr>"
      using e1(2) by (cases ot) (simp_all add: s2_def t_def Inr tenant_id_def)
    then show ?thesis using dispatch_settles [of s2] e1(1) by (simp add: route_def Inr s2_def [symmetric])
  qed
  have c: "classify err \<noteq> OutcomeNone \<and> classify err \<noteq> OutcomeOK" for err by (simp add: classify_def)
  obtain a s2 where a: "route x w ord op profile now rt req s1 = (a, s2)" by fastforce
  show ?thesis
    using r e1 c unfolding a t_def [symmetric]
    by (cases a)
       (auto simp: federationMiddleware_def routeSafe_def s1_def [symmetric] a close_evt_def stamp_def agrees_def Let_def
         split: option.splits)
qed

end
