(* ===== verification/Upstream_Sessions.thy ===== *)
theory Upstream_Sessions
  imports Public_View Wire_Errors
begin

section \<open>The sessions an upstream keeps\<close>

text \<open>
  The two session tables of an upstream (src/gateway/upstream.go): root sessions, keyed by the caller for
  caller-derived credentials and shared otherwise, each with the subscriptions to replay on a reconnect; and
  bridged sessions, one per downstream session. A session of the SDK is a handle: the number of
  the connect that made it. \<open>ss_closed\<close> collects the handles \<open>Close\<close> was called on.

  \<^verbatim>\<open>rootSession\<close> and \<^verbatim>\<open>bridgedSession\<close> look the table up under the lock, connect without it, and take the lock again to
  install what they got; they are cut there, and the step relation interleaves any number of
  callers with drops, sweeps and \<open>Close\<close>. A critical section with the closing of what it removed is one
  step.

  The lemmas show that no handle is lost or held twice, that a sweep removes exactly what is idle, and whose
  sessions are kept apart.
\<close>

subsection \<open>State\<close>

type_synonym handle = nat

definition sharedRootKey :: string where "sharedRootKey = ''''"
definition bridgedIdleTimeout :: duration where "bridgedIdleTimeout = 300 * 1000000000"

record rootEntry =
  re_session :: "handle option"
  re_lastUsed :: time
  re_subscribed :: "string set"

record bridgedEntry =
  be_session :: handle
  be_lastUsed :: time

record sessions =
  ss_roots :: "(string, rootEntry) fmap"
  ss_bridged :: "(string, bridgedEntry) fmap"
  ss_next :: handle
  ss_closed :: "handle set"

definition no_sessions :: sessions where
  "no_sessions = \<lparr>ss_roots = fmempty, ss_bridged = fmempty, ss_next = 0, ss_closed = {}\<rparr>"

subsection \<open>Root sessions\<close>

text \<open>\<open>derived\<close> tells whether the credential is derived from the caller; \<open>None\<close> is the refusal of a caller without a principal.\<close>

definition rootKey :: "bool \<Rightarrow> capProfile \<Rightarrow> Principal option \<Rightarrow> string option" where
  "rootKey derived profile op =
     (if \<not> derived then Some (qualify profile sharedRootKey)
      else (case op of
              None \<Rightarrow> None
            | Some p \<Rightarrow>
                if p_Subject p = '''' \<or> p_Issuer p = '''' then None
                else Some (qualify profile (p_Issuer p @ [nul] @ p_Subject p))))"

definition rootEntryLocked :: "string \<Rightarrow> time \<Rightarrow> sessions \<Rightarrow> rootEntry \<times> sessions" where
  "rootEntryLocked key now st =
     (let e = (case fmlookup (ss_roots st) key of
                 None \<Rightarrow> \<lparr>re_session = None, re_lastUsed = 0, re_subscribed = {}\<rparr> | Some e \<Rightarrow> e);
          e1 = (if key \<noteq> sharedRootKey then e\<lparr>re_lastUsed := now\<rparr> else e)
      in (e1, st\<lparr>ss_roots := fmupd key e1 (ss_roots st)\<rparr>))"

text \<open>The session, or the subscriptions to replay on the one that is to be connected.\<close>

definition root_lookup :: "string \<Rightarrow> time \<Rightarrow> sessions \<Rightarrow> (string set + handle) \<times> sessions" where
  "root_lookup key now st =
     (case rootEntryLocked key now st of (e, st1) \<Rightarrow>
        ((case re_session e of None \<Rightarrow> Inl (re_subscribed e) | Some s \<Rightarrow> Inr s), st1))"

definition connect_ok :: "sessions \<Rightarrow> handle \<times> sessions" where
  "connect_ok st = (ss_next st, st\<lparr>ss_next := Suc (ss_next st)\<rparr>)"

definition close_session :: "handle \<Rightarrow> sessions \<Rightarrow> sessions" where
  "close_session s st = st\<lparr>ss_closed := insert s (ss_closed st)\<rparr>"

definition root_install :: "string \<Rightarrow> handle \<Rightarrow> time \<Rightarrow> sessions \<Rightarrow> handle \<times> sessions" where
  "root_install key s now st =
     (case rootEntryLocked key now st of (e, st1) \<Rightarrow>
        (case re_session e of
           Some s' \<Rightarrow> (s', close_session s st1)
         | None \<Rightarrow> (s, st1\<lparr>ss_roots := fmupd key (e\<lparr>re_session := Some s\<rparr>) (ss_roots st1)\<rparr>)))"

text \<open>
  A root session acquired without interruption: the handle, and the subscriptions replayed on a session
  that was installed; \<open>None\<close> when there is no key or no connection.
\<close>

definition rootSession :: "string option \<Rightarrow> bool \<Rightarrow> time \<Rightarrow> sessions \<Rightarrow> (handle \<times> string set) option \<times> sessions" where
  "rootSession okey up now st =
     (case okey of
        None \<Rightarrow> (None, st)
      | Some key \<Rightarrow>
          (case root_lookup key now st of
             (Inr s, st1) \<Rightarrow> (Some (s, {}), st1)
           | (Inl resub, st1) \<Rightarrow>
               if \<not> up then (None, st1)
               else (case connect_ok st1 of (s, st2) \<Rightarrow>
                       (case root_install key s now st2 of (s', st3) \<Rightarrow> (Some (s', if s' = s then resub else {}), st3)))))"

subsection \<open>Bridged sessions\<close>

definition bridged_lookup :: "string \<Rightarrow> time \<Rightarrow> sessions \<Rightarrow> handle option \<times> sessions" where
  "bridged_lookup key now st =
     (case fmlookup (ss_bridged st) key of
        None \<Rightarrow> (None, st)
      | Some e \<Rightarrow> (Some (be_session e), st\<lparr>ss_bridged := fmupd key (e\<lparr>be_lastUsed := now\<rparr>) (ss_bridged st)\<rparr>))"

definition bridged_install :: "string \<Rightarrow> handle \<Rightarrow> time \<Rightarrow> sessions \<Rightarrow> handle \<times> sessions" where
  "bridged_install key s now st =
     (case bridged_lookup key now st of
        (Some s', st1) \<Rightarrow> (s', close_session s st1)
      | (None, st1) \<Rightarrow>
          (s, st1\<lparr>ss_bridged := fmupd key \<lparr>be_session = s, be_lastUsed = now\<rparr> (ss_bridged st1)\<rparr>))"

definition bridgedSession :: "string \<Rightarrow> bool \<Rightarrow> time \<Rightarrow> sessions \<Rightarrow> handle option \<times> sessions" where
  "bridgedSession key up now st =
     (case bridged_lookup key now st of
        (Some s, st1) \<Rightarrow> (Some s, st1)
      | (None, st1) \<Rightarrow>
          if \<not> up then (None, st1)
          else (case connect_ok st1 of (s, st2) \<Rightarrow>
                  (case bridged_install key s now st2 of (s', st3) \<Rightarrow> (Some s', st3))))"

definition bridgedCount :: "sessions \<Rightarrow> nat" where
  "bridgedCount st = card (fset (fmdom (ss_bridged st)))"

subsection \<open>Losing and closing sessions\<close>

definition dropSession :: "handle \<Rightarrow> sessions \<Rightarrow> sessions" where
  "dropSession s st =
     close_session s
       (st\<lparr>ss_roots := fmmap (\<lambda>e. if re_session e = Some s then e\<lparr>re_session := None\<rparr> else e) (ss_roots st),
          ss_bridged := fmfilter (\<lambda>k. map_option be_session (fmlookup (ss_bridged st) k) \<noteq> Some s) (ss_bridged st)\<rparr>)"

definition idle :: "time \<Rightarrow> time \<Rightarrow> bool" where
  "idle now used \<longleftrightarrow> bridgedIdleTimeout < time_sub now used"

definition root_stale :: "time \<Rightarrow> sessions \<Rightarrow> string \<Rightarrow> bool" where
  "root_stale now st key \<longleftrightarrow>
     key \<noteq> sharedRootKey \<and> (case fmlookup (ss_roots st) key of None \<Rightarrow> False | Some e \<Rightarrow> idle now (re_lastUsed e))"

definition bridged_stale :: "time \<Rightarrow> sessions \<Rightarrow> string \<Rightarrow> bool" where
  "bridged_stale now st key \<longleftrightarrow> (case fmlookup (ss_bridged st) key of None \<Rightarrow> False | Some e \<Rightarrow> idle now (be_lastUsed e))"

definition root_handles :: "(string, rootEntry) fmap \<Rightarrow> handle set" where
  "root_handles m = {s. \<exists>e \<in> fset (fmran m). re_session e = Some s}"

definition bridged_handles :: "(string, bridgedEntry) fmap \<Rightarrow> handle set" where
  "bridged_handles m = be_session ` fset (fmran m)"

definition sweepBridged :: "time \<Rightarrow> sessions \<Rightarrow> sessions" where
  "sweepBridged now st =
     st\<lparr>ss_roots := fmfilter (\<lambda>k. \<not> root_stale now st k) (ss_roots st),
        ss_bridged := fmfilter (\<lambda>k. \<not> bridged_stale now st k) (ss_bridged st),
        ss_closed := ss_closed st \<union> root_handles (fmfilter (root_stale now st) (ss_roots st))
                       \<union> bridged_handles (fmfilter (bridged_stale now st) (ss_bridged st))\<rparr>"

definition Close_upstream :: "sessions \<Rightarrow> sessions" where
  "Close_upstream st =
     st\<lparr>ss_roots := fmempty, ss_bridged := fmempty,
        ss_closed := ss_closed st \<union> root_handles (ss_roots st) \<union> bridged_handles (ss_bridged st)\<rparr>"

subsection \<open>Subscriptions\<close>

definition subscribedURIs :: "sessions \<Rightarrow> string set" where
  "subscribedURIs st = \<Union> (re_subscribed ` fset (fmran (ss_roots st)))"

definition isSubscribed :: "string \<Rightarrow> sessions \<Rightarrow> bool" where
  "isSubscribed uri st \<longleftrightarrow> (\<exists>e \<in> fset (fmran (ss_roots st)). uri \<in> re_subscribed e)"

definition markSubscribed :: "string option \<Rightarrow> string \<Rightarrow> bool \<Rightarrow> sessions \<Rightarrow> sessions" where
  "markSubscribed okey uri on st =
     (case okey of
        None \<Rightarrow> st
      | Some key \<Rightarrow>
          (case fmlookup (ss_roots st) key of
             None \<Rightarrow> st
           | Some e \<Rightarrow>
               st\<lparr>ss_roots := fmupd key (e\<lparr>re_subscribed := (if on then insert uri (re_subscribed e) else re_subscribed e - {uri})\<rparr>)
                                 (ss_roots st)\<rparr>))"

subsection \<open>Requests on the root session\<close>

text \<open>
  How one guarded request ends, from the outside: stopped by the rate limit or the circuit breaker before
  a session is sought, whether a connect succeeds where one is needed, and then refused by a budget, answered,
  answered with a JSON-RPC error, or lost, which drops the session when the error is one of the connection.
\<close>

datatype reply = Refused wire_error | Done | WireErr wire_error | Broken bool

record exchange =
  xg_stopped :: "wire_error option"
  xg_connects :: bool
  xg_reply :: reply

definition do_root :: "string \<Rightarrow> string option \<Rightarrow> exchange \<Rightarrow> time \<Rightarrow> sessions \<Rightarrow> wire_error option \<times> sessions" where
  "do_root upID okey x now st =
     (case xg_stopped x of
        Some e \<Rightarrow> (Some e, st)
      | None \<Rightarrow>
          (case rootSession okey (xg_connects x) now st of
             (None, st1) \<Rightarrow> (Some (ConnectFailed upID), st1)
           | (Some (s, resub), st1) \<Rightarrow>
               (case xg_reply x of
                  Refused e \<Rightarrow> (Some e, st1)
                | Done \<Rightarrow> (None, st1)
                | WireErr e \<Rightarrow> (Some e, st1)
                | Broken conn \<Rightarrow> (Some (RequestFailed upID), if conn then dropSession s st1 else st1))))"

definition subscribe :: "string \<Rightarrow> string option \<Rightarrow> string \<Rightarrow> exchange \<Rightarrow> time \<Rightarrow> sessions \<Rightarrow> wire_error option \<times> sessions" where
  "subscribe upID okey uri x now st =
     (case do_root upID okey x now st of
        (None, st1) \<Rightarrow> (None, markSubscribed okey uri True st1)
      | (Some e, st1) \<Rightarrow> (Some e, st1))"

definition unsubscribe :: "string \<Rightarrow> string option \<Rightarrow> string \<Rightarrow> exchange \<Rightarrow> time \<Rightarrow> sessions \<Rightarrow> wire_error option \<times> sessions" where
  "unsubscribe upID okey uri x now st =
     (case do_root upID okey x now st of
        (None, st1) \<Rightarrow> (None, markSubscribed okey uri False st1)
      | (Some e, st1) \<Rightarrow> (Some e, st1))"

subsection \<open>Callers, interleaved\<close>

datatype slot = RootSlot string | BridgeSlot string

fun holds :: "sessions \<Rightarrow> slot \<Rightarrow> handle option" where
  "holds st (RootSlot k) = Option.bind (fmlookup (ss_roots st) k) re_session"
| "holds st (BridgeSlot k) = map_option be_session (fmlookup (ss_bridged st) k)"

fun install :: "slot \<Rightarrow> handle \<Rightarrow> time \<Rightarrow> sessions \<Rightarrow> handle \<times> sessions" where
  "install (RootSlot k) s now st = root_install k s now st"
| "install (BridgeSlot k) s now st = bridged_install k s now st"

fun lookup_slot :: "slot \<Rightarrow> time \<Rightarrow> sessions \<Rightarrow> sessions" where
  "lookup_slot (RootSlot k) now st = snd (root_lookup k now st)"
| "lookup_slot (BridgeSlot k) now st = snd (bridged_lookup k now st)"

text \<open>
  \<open>pend\<close> holds the connects that have not been installed yet. A session is dropped by a caller that was
  given it, so after its installation.
\<close>

inductive sess_step :: "sessions \<times> (slot \<times> handle) list \<Rightarrow> sessions \<times> (slot \<times> handle) list \<Rightarrow> bool" where
  looked_up: "sess_step (st, pend) (lookup_slot sl now st, pend)"
| connected: "connect_ok st = (s, st') \<Longrightarrow> sess_step (st, pend) (st', (sl, s) # pend)"
| installed: "install sl s now st = (s', st') \<Longrightarrow> sess_step (st, pend1 @ (sl, s) # pend2) (st', pend1 @ pend2)"
| dropped: "s < ss_next st \<Longrightarrow> s \<notin> snd ` set pend \<Longrightarrow> sess_step (st, pend) (dropSession s st, pend)"
| marked: "sess_step (st, pend) (markSubscribed okey uri on st, pend)"
| swept: "sess_step (st, pend) (sweepBridged now st, pend)"
| closed: "sess_step (st, pend) (Close_upstream st, pend)"

inductive sess_reachable :: "sessions \<times> (slot \<times> handle) list \<Rightarrow> bool" where
  start: "sess_reachable (no_sessions, [])"
| step: "sess_reachable a \<Longrightarrow> sess_step a b \<Longrightarrow> sess_reachable b"

text \<open>Abstractly: a partial map of slots, the handles on their way, the closed ones, and how many there are.\<close>

definition accounted :: "('slot \<rightharpoonup> handle) \<Rightarrow> handle list \<Rightarrow> handle set \<Rightarrow> handle \<Rightarrow> bool" where
  "accounted H P C n \<longleftrightarrow>
     (\<forall>sl sl' s. H sl = Some s \<longrightarrow> H sl' = Some s \<longrightarrow> sl = sl') \<and> distinct P \<and>
     (\<forall>s sl. H sl = Some s \<longrightarrow> s \<notin> set P \<and> s \<notin> C) \<and> (\<forall>s \<in> set P. s \<notin> C) \<and>
     (\<forall>s. s < n \<longleftrightarrow> (\<exists>sl. H sl = Some s) \<or> s \<in> set P \<or> s \<in> C)"

definition sess_inv :: "sessions \<times> (slot \<times> handle) list \<Rightarrow> bool" where
  "sess_inv a \<longleftrightarrow> accounted (holds (fst a)) (map snd (snd a)) (ss_closed (fst a)) (ss_next (fst a))"

subsection \<open>What each operation does to the slots\<close>

lemma holds_lookup [simp]: "holds (lookup_slot sl now st) = holds st"
proof
  show "holds (lookup_slot sl now st) sl' = holds st sl'" for sl'
    by (cases sl; cases sl')
       (auto simp: root_lookup_def rootEntryLocked_def bridged_lookup_def Let_def split: option.splits)
qed

lemma lookup_fields [simp]: "ss_next (lookup_slot sl now st) = ss_next st" "ss_closed (lookup_slot sl now st) = ss_closed st"
  by (cases sl; auto simp: root_lookup_def rootEntryLocked_def bridged_lookup_def Let_def split: option.splits)+

lemma holds_install:
  assumes "install sl s now st = (s', st')"
  shows "ss_next st' = ss_next st \<and>
    (case holds st sl of
       None \<Rightarrow> s' = s \<and> holds st' = (holds st)(sl \<mapsto> s) \<and> ss_closed st' = ss_closed st
     | Some t \<Rightarrow> s' = t \<and> holds st' = holds st \<and> ss_closed st' = insert s (ss_closed st))"
proof (cases sl)
  case (RootSlot k)
  have "holds st' sl' = (if holds st sl = None then ((holds st)(sl \<mapsto> s)) sl' else holds st sl')" for sl'
    using assms RootSlot by (cases sl') (auto simp: root_install_def rootEntryLocked_def close_session_def Let_def split: option.splits if_splits)
  then show ?thesis using assms RootSlot
    by (auto simp: root_install_def rootEntryLocked_def close_session_def Let_def fun_eq_iff split: option.splits if_splits)
next
  case (BridgeSlot k)
  have "holds st' sl' = (if holds st sl = None then ((holds st)(sl \<mapsto> s)) sl' else holds st sl')" for sl'
    using assms BridgeSlot by (cases sl') (auto simp: bridged_install_def bridged_lookup_def close_session_def split: option.splits)
  then show ?thesis using assms BridgeSlot
    by (auto simp: bridged_install_def bridged_lookup_def close_session_def fun_eq_iff split: option.splits)
qed

lemma holds_drop: "holds (dropSession s st) = (\<lambda>sl. if holds st sl = Some s then None else holds st sl)"
proof
  show "holds (dropSession s st) sl = (if holds st sl = Some s then None else holds st sl)" for sl
    by (cases sl) (auto simp: dropSession_def close_session_def split: option.splits bind_splits)
qed

lemma drop_fields [simp]: "ss_next (dropSession s st) = ss_next st" "ss_closed (dropSession s st) = insert s (ss_closed st)"
  by (simp_all add: dropSession_def close_session_def)

lemma holds_mark [simp]: "holds (markSubscribed okey uri on st) = holds st"
proof
  show "holds (markSubscribed okey uri on st) sl = holds st sl" for sl
    by (cases sl) (auto simp: markSubscribed_def split: option.splits)
qed

lemma mark_fields [simp]:
  "ss_next (markSubscribed okey uri on st) = ss_next st" "ss_closed (markSubscribed okey uri on st) = ss_closed st"
  by (auto simp: markSubscribed_def split: option.splits)

lemma root_handles_iff: "s \<in> root_handles m \<longleftrightarrow> (\<exists>k. Option.bind (fmlookup m k) re_session = Some s)"
  unfolding root_handles_def fmran'_alt_def [symmetric] bind_eq_Some_conv mem_Collect_eq Bex_def fmlookup_ran'_iff by blast

lemma bridged_handles_iff: "s \<in> bridged_handles m \<longleftrightarrow> (\<exists>k. map_option be_session (fmlookup m k) = Some s)"
  unfolding bridged_handles_def fmran'_alt_def [symmetric] map_option_eq_Some image_iff Bex_def fmlookup_ran'_iff by blast

fun slot_stale :: "time \<Rightarrow> sessions \<Rightarrow> slot \<Rightarrow> bool" where
  "slot_stale now st (RootSlot k) = root_stale now st k"
| "slot_stale now st (BridgeSlot k) = bridged_stale now st k"

lemma holds_sweep: "holds (sweepBridged now st) = (\<lambda>sl. if slot_stale now st sl then None else holds st sl)"
proof
  show "holds (sweepBridged now st) sl = (if slot_stale now st sl then None else holds st sl)" for sl
    by (cases sl) (simp_all add: sweepBridged_def)
qed

lemma ran_holds: "s \<in> ran (holds st) \<longleftrightarrow> s \<in> root_handles (ss_roots st) \<or> s \<in> bridged_handles (ss_bridged st)"
proof -
  have "(\<exists>sl. holds st sl = Some s) \<longleftrightarrow> (\<exists>k. holds st (RootSlot k) = Some s) \<or> (\<exists>k. holds st (BridgeSlot k) = Some s)"
    using slot.exhaust by metis
  then show ?thesis unfolding root_handles_iff bridged_handles_iff ran_def holds.simps by blast
qed

lemma sweep_closed:
  "ss_closed (sweepBridged now st) = ss_closed st \<union> {s. \<exists>sl. slot_stale now st sl \<and> holds st sl = Some s}"
proof -
  have "s \<in> root_handles (fmfilter (root_stale now st) (ss_roots st)) \<longleftrightarrow>
      (\<exists>k. root_stale now st k \<and> holds st (RootSlot k) = Some s)" for s
    by (auto simp: root_handles_iff split: if_splits)
  moreover have "s \<in> bridged_handles (fmfilter (bridged_stale now st) (ss_bridged st)) \<longleftrightarrow>
      (\<exists>k. bridged_stale now st k \<and> holds st (BridgeSlot k) = Some s)" for s
    by (auto simp: bridged_handles_iff split: if_splits)
  moreover have "(\<exists>sl. slot_stale now st sl \<and> holds st sl = Some s) \<longleftrightarrow>
      (\<exists>k. root_stale now st k \<and> holds st (RootSlot k) = Some s) \<or> (\<exists>k. bridged_stale now st k \<and> holds st (BridgeSlot k) = Some s)" for s
    using slot.exhaust slot_stale.simps by metis
  ultimately have "root_handles (fmfilter (root_stale now st) (ss_roots st)) \<union> bridged_handles (fmfilter (bridged_stale now st) (ss_bridged st))
      = {s. \<exists>sl. slot_stale now st sl \<and> holds st sl = Some s}"
    unfolding set_eq_iff Un_iff mem_Collect_eq by presburger
  then show ?thesis by (simp add: sweepBridged_def Un_assoc)
qed

lemma holds_Close: "holds (Close_upstream st) = Map.empty"
proof
  show "holds (Close_upstream st) sl = None" for sl by (cases sl) (simp_all add: Close_upstream_def)
qed

lemma Close_closed: "ss_closed (Close_upstream st) = ss_closed st \<union> ran (holds st)"
  by (auto simp: Close_upstream_def ran_holds)

subsection \<open>Every session is accounted for\<close>

lemma accountedD:
  assumes "accounted H P C n"
  shows "H sl = Some s \<Longrightarrow> s \<notin> C \<and> s \<notin> set P" "H sl = Some s \<Longrightarrow> H sl' = Some s \<Longrightarrow> sl = sl'"
    "s < n \<longleftrightarrow> (\<exists>sl. H sl = Some s) \<or> s \<in> set P \<or> s \<in> C"
  using assms unfolding accounted_def by blast+

lemma accounted_remove:
  assumes a: "accounted H P C n" and out: "\<And>sl. H' sl = None \<or> H' sl = H sl"
    and cl: "\<And>s. s \<in> C' \<longleftrightarrow> s \<in> C \<or> (\<exists>sl. H sl = Some s \<and> H' sl = None)"
  shows "accounted H' P C' n"
proof -
  have one: "sl = sl'" if "H sl = Some s" "H sl' = Some s" for sl sl' s using a that unfolding accounted_def by blast
  have sub: "H sl = Some s" if "H' sl = Some s" for sl s using out [of sl] that by auto
  have kept: "H' sl' \<noteq> None" if "H' sl = Some s" "H sl' = Some s" for sl sl' s using one [OF sub [OF that(1)] that(2)] that(1) by simp
  have split: "(\<exists>sl. H sl = Some s) \<longleftrightarrow> (\<exists>sl. H' sl = Some s) \<or> (\<exists>sl. H sl = Some s \<and> H' sl = None)" for s
    using out sub by metis
  have held: "s \<notin> set P" "s \<notin> C" if "H sl = Some s" for sl s using a that unfolding accounted_def by blast+
  have pend: "distinct P" "\<And>s. s \<in> set P \<Longrightarrow> s \<notin> C" using a unfolding accounted_def by blast+
  have tot: "s < n \<longleftrightarrow> (\<exists>sl. H sl = Some s) \<or> s \<in> set P \<or> s \<in> C" for s using a unfolding accounted_def by blast
  have "s < n \<longleftrightarrow> (\<exists>sl. H' sl = Some s) \<or> s \<in> set P \<or> s \<in> C'" for s unfolding tot cl split [of s] by blast
  moreover have "sl = sl'" if "H' sl = Some s" "H' sl' = Some s" for sl sl' s using one sub that by blast
  moreover have "s \<notin> set P" "s \<notin> C'" if "H' sl = Some s" for sl s
    using held [OF sub [OF that]] kept [OF that] unfolding cl by blast+
  moreover have "s \<notin> C'" if "s \<in> set P" for s using pend(2) [OF that] held(1) that unfolding cl by blast
  ultimately show ?thesis unfolding accounted_def using pend(1) by simp
qed

lemma accounted_connect:
  assumes "accounted H P C n"
  shows "accounted H (n # P) C (Suc n)"
proof -
  have "\<not> n < n" by simp
  then have new: "\<not> (\<exists>sl. H sl = Some n)" "n \<notin> set P" "n \<notin> C" using assms unfolding accounted_def by blast+
  show ?thesis using assms new unfolding accounted_def less_Suc_eq set_simps distinct.simps by blast
qed

lemma accounted_install:
  assumes a: "accounted H (P1 @ s # P2) C n"
  shows "H sl = None \<Longrightarrow> accounted (H(sl \<mapsto> s)) (P1 @ P2) C n" "accounted H (P1 @ P2) (insert s C) n"
proof -
  have s: "\<not> (\<exists>sl. H sl = Some s)" "s \<notin> C" "s \<notin> set (P1 @ P2)" "distinct (P1 @ P2)" using a unfolding accounted_def by auto
  have set: "t \<in> set (P1 @ s # P2) \<longleftrightarrow> t = s \<or> t \<in> set (P1 @ P2)" for t by auto
  note a' = a [unfolded accounted_def set Ball_def]
  show "accounted H (P1 @ P2) (insert s C) n" unfolding accounted_def Ball_def insert_iff using a' s by blast
  have upd: "(H(sl \<mapsto> s)) sl' = Some t \<longleftrightarrow> (if sl' = sl then t = s else H sl' = Some t)" for sl' t by auto
  show "accounted (H(sl \<mapsto> s)) (P1 @ P2) C n" if "H sl = None"
    unfolding accounted_def Ball_def upd
  proof (intro conjI allI impI)
    show "a = b" if "if a = sl then t = s else H a = Some t" "if b = sl then t = s else H b = Some t" for a b t
    proof (cases "t = s")
      case True
      then show ?thesis using that s(1) by (cases "a = sl"; cases "b = sl") auto
    next
      case False
      then have "H a = Some t" "H b = Some t" using that by presburger+
      then show ?thesis using a' by blast
    qed
    show "t < n \<longleftrightarrow> (\<exists>sl'. if sl' = sl then t = s else H sl' = Some t) \<or> t \<in> set (P1 @ P2) \<or> t \<in> C" for t
    proof -
      have "(\<exists>sl'. if sl' = sl then t = s else H sl' = Some t) \<longleftrightarrow> t = s \<or> (\<exists>sl'. H sl' = Some t)" using that by (metis option.distinct(1))
      moreover have "t < n \<longleftrightarrow> (\<exists>sl'. H sl' = Some t) \<or> (t = s \<or> t \<in> set (P1 @ P2)) \<or> t \<in> C"
        using a unfolding accounted_def set by simp
      ultimately show ?thesis by blast
    qed
  qed (use a' s in \<open>auto split: if_splits\<close>)
qed

lemma sess_step_inv:
  assumes "sess_step a b" "sess_inv a"
  shows "sess_inv b"
  using assms
proof (induction rule: sess_step.induct)
  case (connected st s st' pend sl)
  have st': "st' = st\<lparr>ss_next := Suc s\<rparr>" "s = ss_next st" using connected.hyps by (auto simp: connect_ok_def)
  have "holds st' sl' = holds st sl'" for sl' by (cases sl') (simp_all add: st'(1))
  then have "holds st' = holds st" by (rule ext)
  then show ?case using accounted_connect connected.prems by (simp add: sess_inv_def st')
next
  case (installed sl s now st s' st' pend1 pend2)
  have a: "accounted (holds st) (map snd pend1 @ s # map snd pend2) (ss_closed st) (ss_next st)"
    using installed.prems by (simp add: sess_inv_def)
  show ?case using accounted_install(1) [OF a, of sl] accounted_install(2) [OF a] holds_install [OF installed.hyps]
    by (simp add: sess_inv_def split: option.splits)
next
  case (dropped s st pend)
  have a: "accounted (holds st) (map snd pend) (ss_closed st) (ss_next st)" using dropped.prems by (simp add: sess_inv_def)
  then have "(\<exists>sl. holds st sl = Some s) \<or> s \<in> ss_closed st" using dropped.hyps unfolding accounted_def set_map by blast
  then have "accounted (holds (dropSession s st)) (map snd pend) (ss_closed (dropSession s st)) (ss_next st)"
    by (intro accounted_remove [OF a]) (auto simp: holds_drop)
  then show ?case by (simp add: sess_inv_def)
next
  case (swept st pend now)
  have a: "accounted (holds st) (map snd pend) (ss_closed st) (ss_next st)" using swept.prems by (simp add: sess_inv_def)
  have "accounted (holds (sweepBridged now st)) (map snd pend) (ss_closed (sweepBridged now st)) (ss_next st)"
    by (rule accounted_remove [OF a]) (auto simp: holds_sweep sweep_closed)
  moreover have "ss_next (sweepBridged now st) = ss_next st" by (simp add: sweepBridged_def)
  ultimately show ?case by (simp add: sess_inv_def)
next
  case (closed st pend)
  have a: "accounted (holds st) (map snd pend) (ss_closed st) (ss_next st)" using closed.prems by (simp add: sess_inv_def)
  have "accounted (holds (Close_upstream st)) (map snd pend) (ss_closed (Close_upstream st)) (ss_next st)"
    by (rule accounted_remove [OF a]) (auto simp: holds_Close Close_closed ran_def)
  moreover have "ss_next (Close_upstream st) = ss_next st" by (simp add: Close_upstream_def)
  ultimately show ?case by (simp add: sess_inv_def)
qed (simp_all add: sess_inv_def)

lemma sess_reachable_inv: "sess_reachable a \<Longrightarrow> sess_inv a"
proof (induction rule: sess_reachable.induct)
  case start
  have "holds no_sessions sl = None" for sl by (cases sl) (simp_all add: no_sessions_def)
  then show ?case by (simp add: sess_inv_def accounted_def) (simp add: no_sessions_def)
qed (rule sess_step_inv)

lemma isSubscribed_iff: "isSubscribed uri st \<longleftrightarrow> (\<exists>k e. fmlookup (ss_roots st) k = Some e \<and> uri \<in> re_subscribed e)"
  unfolding isSubscribed_def fmran'_alt_def [symmetric] Bex_def fmlookup_ran'_iff by blast

lemma subscribe_subscribes:
  assumes "subscribe upID okey uri x now st = (None, st')"
  shows "isSubscribed uri st'"
proof -
  obtain st1 where d: "do_root upID okey x now st = (None, st1)" "st' = markSubscribed okey uri True st1"
    using assms by (auto simp: subscribe_def split: prod.splits option.splits)
  then obtain key where key: "okey = Some key"
    by (auto simp: do_root_def rootSession_def split: option.splits prod.splits reply.splits)
  have "\<exists>e. fmlookup (ss_roots st1) key = Some e" using d(1)
    by (auto simp: do_root_def rootSession_def root_lookup_def root_install_def rootEntryLocked_def connect_ok_def close_session_def key Let_def
        split: option.splits prod.splits sum.splits reply.splits if_splits)
  then obtain e where "fmlookup (ss_roots st1) key = Some e" by blast
  then have "fmlookup (ss_roots st') key = Some (e\<lparr>re_subscribed := insert uri (re_subscribed e)\<rparr>)"
    by (simp add: d(2) markSubscribed_def key)
  then show ?thesis unfolding isSubscribed_iff by fastforce
qed

subsection \<open>Properties\<close>

text \<open>
  C16. No session leaks and none is shared by accident. However callers, transport errors, sweeps and a \<open>Close\<close> interleave, every
  session ever connected is held in one slot, on its way to one, or closed; one that is held is held in
  that slot only and has not been closed.
\<close>

theorem sessions_accounted:
  assumes "sess_reachable (st, pend)"
  shows "(s < ss_next st \<longleftrightarrow> (\<exists>sl. holds st sl = Some s) \<or> s \<in> snd ` set pend \<or> s \<in> ss_closed st) \<and>
    (holds st sl = Some s \<longrightarrow> s \<notin> ss_closed st \<and> s \<notin> snd ` set pend \<and> (\<forall>sl'. holds st sl' = Some s \<longrightarrow> sl' = sl))"
proof -
  have "accounted (holds st) (map snd pend) (ss_closed st) (ss_next st)"
    using sess_reachable_inv [OF assms] by (simp add: sess_inv_def)
  note a = accountedD [OF this, unfolded set_map]
  have "s \<notin> ss_closed st \<and> s \<notin> snd ` set pend" if "holds st sl = Some s" using a(1) [OF that] by blast
  moreover have "sl' = sl" if "holds st sl = Some s" "holds st sl' = Some s" for sl' by (rule a(2) [OF that(2,1)])
  ultimately show ?thesis using a(3) [of s] by blast
qed

lemma install_step: "sess_step (st, pend1 @ (sl, s) # pend2) (snd (install sl s now st), pend1 @ pend2)"
  by (rule sess_step.installed) (rule prod.collapse [symmetric])

definition raced :: sessions where
  "raced = snd (root_install ''k'' 1 9 (snd (root_install ''k'' 0 8 (no_sessions\<lparr>ss_next := 2\<rparr>))))"

lemma raced_reachable: "sess_reachable (raced, [])"
proof -
  have 1: "sess_reachable (no_sessions\<lparr>ss_next := 1\<rparr>, [(RootSlot ''k'', 0)])"
    by (rule sess_reachable.step [OF sess_reachable.start sess_step.connected]) (simp add: connect_ok_def no_sessions_def)
  have 2: "sess_reachable (no_sessions\<lparr>ss_next := 2\<rparr>, [(RootSlot ''k'', 1), (RootSlot ''k'', 0)])"
    by (rule sess_reachable.step [OF 1 sess_step.connected]) (simp add: connect_ok_def no_sessions_def)
  have 3: "sess_reachable (snd (root_install ''k'' 0 8 (no_sessions\<lparr>ss_next := 2\<rparr>)), [(RootSlot ''k'', 1)])"
    by (rule sess_reachable.step [OF 2])
       (use install_step [of _ "[(RootSlot ''k'', 1)]" "RootSlot ''k''" 0 "[]" 8] in simp)
  show ?thesis unfolding raced_def
    by (rule sess_reachable.step [OF 3]) (use install_step [of _ "[]" "RootSlot ''k''" 1 "[]" 9] in simp)
qed

theorem sessions_accounted_witness:
  "holds raced (RootSlot ''k'') = Some 0 \<and> ss_closed raced = {1} \<and> 0 \<notin> ss_closed raced"
  using sessions_accounted [OF raced_reachable, of 0 "RootSlot ''k''"]
  by (simp add: raced_def root_install_def rootEntryLocked_def close_session_def no_sessions_def sharedRootKey_def Let_def)

text \<open>
  C17. Upstreams whose credential derives from the caller never serve one caller on another's root session: as long as issuers and subjects are
  free of the NUL character, two requests share a root session only when they come from the same
  subject of the same issuer with the same client profile; and a request without a principal gets none.
\<close>

theorem root_sessions_isolated:
  assumes "nul \<notin> set (p_Issuer p @ p_Subject p @ p_Issuer q @ p_Subject q)"
    and "rootKey True profile (Some p) = Some k" "rootKey True profile' (Some q) = Some k"
  shows "profile = profile' \<and> p_Issuer p = p_Issuer q \<and> p_Subject p = p_Subject q \<and> rootKey True profile'' None = None"
proof -
  have k: "k = qualify profile (p_Issuer p @ [nul] @ p_Subject p)" "k = qualify profile' (p_Issuer q @ [nul] @ p_Subject q)"
    using assms(2,3) by (auto simp: rootKey_def split: if_splits)
  have inj: "iss = iss' \<and> r = r'" if "iss @ [nul] @ r = iss' @ [nul] @ r'" "nul \<notin> set iss" "nul \<notin> set iss'" for iss iss' r r'
    using that append_Cons_eq_iff [of nul iss r iss' r'] by (auto simp: append_eq_append_conv2 Cons_eq_append_conv append_eq_Cons_conv)
  define tail where "tail pr = (if pr = profilePlain then [] else nul # ''ui'')" for pr
  have "p_Issuer p @ [nul] @ (p_Subject p @ tail profile) = p_Issuer q @ [nul] @ (p_Subject q @ tail profile')"
    using k by (simp add: qualify_def tail_def split: if_splits)
  then have same: "p_Issuer p = p_Issuer q" "p_Subject p @ tail profile = p_Subject q @ tail profile'"
    using inj [of "p_Issuer p" "p_Subject p @ tail profile" "p_Issuer q" "p_Subject q @ tail profile'"] assms(1) by simp_all
  have cut: "nul \<in> set (b @ nul # r)" for b r :: string by simp
  have "p_Subject p = p_Subject q \<and> profile = profile'"
    using same(2) assms(1) cut [of "p_Subject p" "''ui''"] cut [of "p_Subject q" "''ui''"]
    by (cases profile; cases profile') (auto simp: tail_def simp del: append_Cons)
  with same(1) show ?thesis by (simp add: rootKey_def)
qed

definition named_principal :: "string \<Rightarrow> string \<Rightarrow> Principal" where
  "named_principal iss sub = \<lparr>p_Subject = sub, p_Issuer = iss, p_Groups = [], p_Scopes = [], p_Token = '''', p_Expiry = 0, p_Claims = fmempty\<rparr>"

theorem root_sessions_isolated_witness:
  "rootKey True profilePlain (Some (named_principal ''i'' ''a'')) = Some ([CHR ''i'', nul] @ ''a'') \<and>
   rootKey True profilePlain None = None"
  using root_sessions_isolated [of "named_principal ''i'' ''a''" "named_principal ''i'' ''a''" profilePlain "[CHR ''i'', nul] @ ''a''" profilePlain profilePlain]
  by (simp add: named_principal_def rootKey_def qualify_def nul_def)

text \<open>
  The proviso is needed: an app client of one subject shares its root session with the plain client of
  another whose subject ends in NUL and \<^verbatim>\<open>ui\<close>. The code relies on NUL not occurring in a claim.
\<close>

lemma nul_subject_shares_root:
  "iss \<noteq> '''' \<Longrightarrow> sub \<noteq> '''' \<Longrightarrow> rootKey True profileUI (Some (named_principal iss sub)) =
     rootKey True profilePlain (Some (named_principal iss (sub @ [nul] @ ''ui'')))"
  by (simp add: rootKey_def named_principal_def qualify_def)

text \<open>A connect that is under way when the upstream is closed still installs its session.\<close>

lemma late_install_survives_Close:
  "install sl s now (Close_upstream st) = (s', st') \<Longrightarrow> s' = s \<and> holds st' sl = Some s"
  using holds_install [of sl s now "Close_upstream st" s' st'] by (simp add: holds_Close)

text \<open>
  The shared root session of app clients is swept like a caller's own. An upstream with a configured
  credential has one root session per client profile; the one of the plain profile is never
  swept, but the one of the app profile is, with the subscriptions it carries, as soon as no app client has
  made a request for the idle timeout.
\<close>

theorem app_root_is_swept:
  assumes "rootKey False profileUI op = Some k" "fmlookup (ss_roots st) k = Some e" "idle now (re_lastUsed e)"
  shows "fmlookup (ss_roots (sweepBridged now st)) k = None \<and>
    (\<forall>s. re_session e = Some s \<longrightarrow> s \<in> ss_closed (sweepBridged now st)) \<and>
    (\<forall>k' e'. rootKey False profilePlain op = Some k' \<longrightarrow> fmlookup (ss_roots st) k' = Some e' \<longrightarrow>
       fmlookup (ss_roots (sweepBridged now st)) k' = Some e')"
proof -
  have k: "k \<noteq> sharedRootKey" using assms(1) by (auto simp: rootKey_def qualify_def)
  then have stale: "slot_stale now st (RootSlot k)" using assms(2,3) by (simp add: root_stale_def)
  have "s \<in> ss_closed (sweepBridged now st)" if "re_session e = Some s" for s
  proof -
    have "holds st (RootSlot k) = Some s" using assms(2) that by simp
    with stale show ?thesis unfolding sweep_closed by blast
  qed
  moreover have "fmlookup (ss_roots (sweepBridged now st)) k = None" using stale by (simp add: sweepBridged_def)
  moreover have "fmlookup (ss_roots (sweepBridged now st)) sharedRootKey = fmlookup (ss_roots st) sharedRootKey"
    by (simp add: sweepBridged_def root_stale_def)
  ultimately show ?thesis by (simp add: rootKey_def qualify_def)
qed

definition app_subscribed :: sessions where
  "app_subscribed = snd (subscribe ''a'' (rootKey False profileUI None) ''file:///x''
     \<lparr>xg_stopped = None, xg_connects = True, xg_reply = Done\<rparr> 0 no_sessions)"

theorem app_root_is_swept_witness:
  "isSubscribed ''file:///x'' app_subscribed \<and>
   fmlookup (ss_roots (sweepBridged (301 * 1000000000) app_subscribed)) ([nul] @ ''ui'') = None"
proof -
  have s: "subscribe ''a'' (rootKey False profileUI None) ''file:///x'' \<lparr>xg_stopped = None, xg_connects = True, xg_reply = Done\<rparr> 0 no_sessions
      = (None, app_subscribed)"
    unfolding app_subscribed_def
    by (simp add: subscribe_def do_root_def rootSession_def rootKey_def root_lookup_def root_install_def rootEntryLocked_def connect_ok_def
        no_sessions_def sharedRootKey_def qualify_def Let_def)
  have k: "rootKey False profileUI None = Some ([nul] @ ''ui'')" by (simp add: rootKey_def qualify_def sharedRootKey_def)
  have "\<exists>e. fmlookup (ss_roots app_subscribed) ([nul] @ ''ui'') = Some e \<and> re_lastUsed e = 0"
    by (simp add: app_subscribed_def subscribe_def do_root_def rootSession_def rootKey_def root_lookup_def root_install_def rootEntryLocked_def
        connect_ok_def no_sessions_def sharedRootKey_def qualify_def markSubscribed_def Let_def)
  then obtain e where e: "fmlookup (ss_roots app_subscribed) ([nul] @ ''ui'') = Some e" "re_lastUsed e = 0" by blast
  have "idle (301 * 1000000000) (re_lastUsed e)"
    by (simp add: e(2) idle_def bridgedIdleTimeout_def time_sub_def max_int64_def min_int64_def)
  then show ?thesis using app_root_is_swept [OF k e(1)] subscribe_subscribes [OF s] by blast
qed

end
