(* ===== verification/Subscriptions.thy ===== *)
theory Subscriptions
  imports Router Upstream_Sessions
begin

section \<open>Shared resource subscriptions\<close>

text \<open>
  \<^verbatim>\<open>resources/subscribe\<close> and \<^verbatim>\<open>resources/unsubscribe\<close> (src/gateway/gateway.go): the gateway holds one upstream
  subscription per URI for all its clients, counted per downstream session, and a sweep releases what
  departed sessions left. The table is changed in critical sections; the handlers compose them with the
  requests to the upstream, whose sessions are those of theory Upstream_Sessions, by the address of
  the upstream object.

  The lemmas show that the counts are exact under any interleaving, that a session's unsubscribe never takes
  another's subscription away, and where the composition fails its subscribers.
\<close>

subsection \<open>The table\<close>

definition maxSubscriptionsPerSession :: int where "maxSubscriptionsPerSession = 1024"

record subs =
  sb_subscribers :: "(string, string fset) fmap"
  sb_count :: "(string, int) fmap"

definition no_subs :: subs where
  "no_subs = \<lparr>sb_subscribers = fmempty, sb_count = fmempty\<rparr>"

text \<open>Indexing a Go map: the zero value when there is no entry.\<close>

definition subs_at :: "subs \<Rightarrow> string \<Rightarrow> string fset" where
  "subs_at t uri = (case fmlookup (sb_subscribers t) uri of None \<Rightarrow> {||} | Some ss \<Rightarrow> ss)"

definition count_at :: "subs \<Rightarrow> string \<Rightarrow> int" where
  "count_at t sid = (case fmlookup (sb_count t) sid of None \<Rightarrow> 0 | Some n \<Rightarrow> n)"

definition dropSubscriberLocked :: "string \<Rightarrow> string \<Rightarrow> subs \<Rightarrow> bool \<times> subs" where
  "dropSubscriberLocked uri sid t =
     (let ss = subs_at t uri in
      if sid |\<notin>| ss then (ss = {||}, t)
      else let ss1 = ss |-| {|sid|};
               count1 = (if count_at t sid \<le> 1 then fmdrop sid (sb_count t) else fmupd sid (count_at t sid - 1) (sb_count t))
           in if ss1 = {||} then (True, \<lparr>sb_subscribers = fmdrop uri (sb_subscribers t), sb_count = count1\<rparr>)
              else (False, \<lparr>sb_subscribers = fmupd uri ss1 (sb_subscribers t), sb_count = count1\<rparr>))"

text \<open>The first critical section of a subscribe: refused, or whether this is the first subscriber of the URI.\<close>

definition subscribe_enter :: "string \<Rightarrow> string \<Rightarrow> subs \<Rightarrow> (wire_error + bool) \<times> subs" where
  "subscribe_enter uri sid t =
     (let ss = subs_at t uri in
      if sid |\<notin>| ss \<and> maxSubscriptionsPerSession \<le> count_at t sid
      then (Inl (InvalidParams ''subscription limit reached for this session''), t)
      else (Inr (ss = {||}),
            if sid |\<in>| ss then t
            else \<lparr>sb_subscribers = fmupd uri (finsert sid ss) (sb_subscribers t),
                  sb_count = fmupd sid (count_at t sid + 1) (sb_count t)\<rparr>))"

subsection \<open>The handlers\<close>

record sub_state =
  sg_r :: rstate
  sg_table :: subs
  sg_up :: "nat \<Rightarrow> sessions"

definition subscribeTarget ::
  "world \<Rightarrow> ctx \<Rightarrow> routes \<Rightarrow> string \<Rightarrow> rstate \<Rightarrow> (wire_error + live_upstream \<times> string) \<times> rstate" where
  "subscribeTarget w c rt uri s =
     (case ui_live rt uri of
        Some (u, original) \<Rightarrow> (Inr (u, original), s)
      | None \<Rightarrow>
          (case ownerForURI w c rt uri s of
             (Inl e, s1) \<Rightarrow> (Inl e, s1)
           | (Inr u, s1) \<Rightarrow> (Inr (u, uri), s1)))"

definition root_key_of :: "ctx \<Rightarrow> live_upstream \<Rightarrow> string option" where
  "root_key_of c u = rootKey (up_callerDerived (lv_up u)) (c_profile c) (c_principal c)"

definition handleSubscribe ::
  "world \<Rightarrow> ctx \<Rightarrow> routes \<Rightarrow> exchange \<Rightarrow> string \<Rightarrow> string \<Rightarrow> sub_state \<Rightarrow> wire_error option \<times> sub_state" where
  "handleSubscribe w c rt x sid uri st =
     (case subscribeTarget w c rt uri (sg_r st) of
        (Inl e, r) \<Rightarrow> (Some e, st\<lparr>sg_r := r\<rparr>)
      | (Inr (u, upURI), r) \<Rightarrow>
          let st1 = st\<lparr>sg_r := r\<rparr> in
          if \<not> Allowed (Decide (rt_policy rt) (c_principal c) (id_of u) ''resources/read'' upURI)
          then (Some (PolicyDenied ''resources/subscribe'' uri '''' []), st1)
          else (case subscribe_enter uri sid (sg_table st1) of
                  (Inl e, t) \<Rightarrow> (Some e, st1\<lparr>sg_table := t\<rparr>)
                | (Inr first, t) \<Rightarrow>
                    let st2 = st1\<lparr>sg_table := t\<rparr> in
                    if \<not> first then (None, st2)
                    else (case subscribe (id_of u) (root_key_of c u) upURI x (c_now c) (sg_up st2 (lv_addr u)) of
                            (None, up) \<Rightarrow> (None, st2\<lparr>sg_up := (sg_up st2)(lv_addr u := up)\<rparr>)
                          | (Some e, up) \<Rightarrow>
                              (Some e, st2\<lparr>sg_up := (sg_up st2)(lv_addr u := up),
                                           sg_table := snd (dropSubscriberLocked uri sid (sg_table st2))\<rparr>))))"

definition handleUnsubscribe ::
  "world \<Rightarrow> ctx \<Rightarrow> routes \<Rightarrow> exchange \<Rightarrow> string \<Rightarrow> string \<Rightarrow> sub_state \<Rightarrow> wire_error option \<times> sub_state" where
  "handleUnsubscribe w c rt x sid uri st =
     (case subscribeTarget w c rt uri (sg_r st) of
        (Inl e, r) \<Rightarrow> (Some e, st\<lparr>sg_r := r\<rparr>)
      | (Inr (u, upURI), r) \<Rightarrow>
          let st1 = st\<lparr>sg_r := r\<rparr> in
          if sid |\<notin>| subs_at (sg_table st1) uri then (None, st1)
          else (case dropSubscriberLocked uri sid (sg_table st1) of (none_left, t) \<Rightarrow>
                  let st2 = st1\<lparr>sg_table := t\<rparr> in
                  if none_left
                  then (case unsubscribe (id_of u) (root_key_of c u) upURI x (c_now c) (sg_up st2 (lv_addr u)) of
                          (r, up) \<Rightarrow> (r, st2\<lparr>sg_up := (sg_up st2)(lv_addr u := up)\<rparr>))
                  else (None, st2)))"

text \<open>
  The sweep. Map iteration has no order, so the pairs of the table come in a given one; the requests that
  release an orphaned URI run without principal and profile, and end as \<open>xs\<close> says.
\<close>

fun reap_table :: "string set \<Rightarrow> (string \<times> string) list \<Rightarrow> string list \<Rightarrow> subs \<Rightarrow> string list \<times> subs" where
  "reap_table alive [] orphaned t = (orphaned, t)"
| "reap_table alive ((uri, sid) # order) orphaned t =
     (if sid \<noteq> '''' \<and> sid \<notin> alive
      then (case dropSubscriberLocked uri sid t of (none_left, t1) \<Rightarrow>
              reap_table alive order (if none_left then orphaned @ [uri] else orphaned) t1)
      else reap_table alive order orphaned t)"

definition background_key :: "live_upstream \<Rightarrow> string option" where
  "background_key u = rootKey (up_callerDerived (lv_up u)) profilePlain None"

definition release_at :: "(nat \<Rightarrow> string \<Rightarrow> exchange) \<Rightarrow> time \<Rightarrow> string \<Rightarrow> live_upstream \<Rightarrow> (nat \<Rightarrow> sessions) \<Rightarrow> nat \<Rightarrow> sessions" where
  "release_at xs now uri u up =
     up(lv_addr u := snd (unsubscribe (id_of u) (background_key u) uri (xs (lv_addr u) uri) now (up (lv_addr u))))"

definition release :: "routes \<Rightarrow> (nat \<Rightarrow> string \<Rightarrow> exchange) \<Rightarrow> time \<Rightarrow> string \<Rightarrow> (nat \<Rightarrow> sessions) \<Rightarrow> nat \<Rightarrow> sessions" where
  "release rt xs now uri up =
     (case ui_live rt uri of
        Some (u, original) \<Rightarrow> release_at xs now original u up
      | None \<Rightarrow>
          fold (\<lambda>u up. if isSubscribed uri (up (lv_addr u)) then release_at xs now uri u up else up) (rt_upstreams rt) up)"

definition reapSubscribers ::
  "routes \<Rightarrow> (nat \<Rightarrow> string \<Rightarrow> exchange) \<Rightarrow> time \<Rightarrow> string set \<Rightarrow> (string \<times> string) list \<Rightarrow> sub_state \<Rightarrow> sub_state" where
  "reapSubscribers rt xs now alive order st =
     (case reap_table alive order [] (sg_table st) of (orphaned, t) \<Rightarrow>
        st\<lparr>sg_table := t, sg_up := fold (release rt xs now) orphaned (sg_up st)\<rparr>)"

subsection \<open>Counts\<close>

inductive sub_reachable :: "subs \<Rightarrow> bool" where
  start: "sub_reachable no_subs"
| entered: "sub_reachable t \<Longrightarrow> sub_reachable (snd (subscribe_enter uri sid t))"
| dropped: "sub_reachable t \<Longrightarrow> sub_reachable (snd (dropSubscriberLocked uri sid t))"

definition uris_of :: "subs \<Rightarrow> string \<Rightarrow> string set" where
  "uris_of t sid = {uri. sid |\<in>| subs_at t uri}"

definition table_inv :: "subs \<Rightarrow> bool" where
  "table_inv t \<longleftrightarrow>
     (\<forall>uri. fmlookup (sb_subscribers t) uri \<noteq> Some {||}) \<and>
     (\<forall>sid. finite (uris_of t sid) \<and> count_at t sid = int (card (uris_of t sid))) \<and>
     (\<forall>sid n. fmlookup (sb_count t) sid = Some n \<longrightarrow> 0 < n \<and> n \<le> maxSubscriptionsPerSession)"

lemma table_invD:
  assumes "table_inv t"
  shows "fmlookup (sb_subscribers t) uri \<noteq> Some {||}" "finite (uris_of t sid)" "count_at t sid = int (card (uris_of t sid))"
    "fmlookup (sb_count t) sid = Some n \<Longrightarrow> 0 < n \<and> n \<le> maxSubscriptionsPerSession"
  using assms unfolding table_inv_def by blast+

lemma uris_of_upd:
  "uris_of (t\<lparr>sb_subscribers := fmupd uri ss m, sb_count := cnt\<rparr>) sid =
     (if sid |\<in>| ss then insert uri (uris_of (t\<lparr>sb_subscribers := m\<rparr>) sid) else uris_of (t\<lparr>sb_subscribers := m\<rparr>) sid - {uri})"
  by (auto simp: uris_of_def subs_at_def)

lemma subs_at_mk [simp]:
  "subs_at \<lparr>sb_subscribers = fmupd uri ss (sb_subscribers t), sb_count = cnt\<rparr> uri' = (if uri' = uri then ss else subs_at t uri')"
  "subs_at \<lparr>sb_subscribers = fmdrop uri (sb_subscribers t), sb_count = cnt\<rparr> uri' = (if uri' = uri then {||} else subs_at t uri')"
  by (simp_all add: subs_at_def)

lemma count_at_mk [simp]:
  "count_at \<lparr>sb_subscribers = m, sb_count = fmupd sid n (sb_count t)\<rparr> sid' = (if sid' = sid then n else count_at t sid')"
  "count_at \<lparr>sb_subscribers = m, sb_count = fmdrop sid (sb_count t)\<rparr> sid' = (if sid' = sid then 0 else count_at t sid')"
  by (simp_all add: count_at_def)

text \<open>What the two critical sections do to who subscribes to what.\<close>

lemma subs_at_enter:
  assumes "subscribe_enter uri sid t = (r, t')"
  shows "case r of
      Inl e \<Rightarrow> t' = t \<and> sid |\<notin>| subs_at t uri \<and> maxSubscriptionsPerSession \<le> count_at t sid
    | Inr first \<Rightarrow> (first \<longleftrightarrow> subs_at t uri = {||}) \<and>
        (\<forall>uri'. subs_at t' uri' = (if uri' = uri then finsert sid (subs_at t uri) else subs_at t uri'))"
  using assms by (auto simp: subscribe_enter_def Let_def split: if_splits)

lemma subs_at_drop:
  assumes "dropSubscriberLocked uri sid t = (none_left, t')"
  shows "(none_left \<longleftrightarrow> subs_at t' uri = {||}) \<and>
    (\<forall>uri'. subs_at t' uri' = (if uri' = uri then subs_at t uri |-| {|sid|} else subs_at t uri'))"
  using assms by (auto simp: dropSubscriberLocked_def Let_def split: if_splits)

lemma enter_inv:
  assumes inv: "table_inv t" and e: "subscribe_enter uri sid t = (r, t')"
  shows "table_inv t'"
proof (cases "(\<exists>err. r = Inl err) \<or> sid |\<in>| subs_at t uri")
  case True
  then have "t' = t" using e by (auto simp: subscribe_enter_def Let_def split: if_splits)
  then show ?thesis using inv by simp
next
  case False
  then have lt: "count_at t sid < maxSubscriptionsPerSession" and new: "sid |\<notin>| subs_at t uri"
      and t': "t' = \<lparr>sb_subscribers = fmupd uri (finsert sid (subs_at t uri)) (sb_subscribers t), sb_count = fmupd sid (count_at t sid + 1) (sb_count t)\<rparr>"
    using e by (auto simp: subscribe_enter_def Let_def split: if_splits)
  have u: "uris_of t' sid' = (if sid' = sid then insert uri (uris_of t sid) else uris_of t sid')" for sid'
    by (auto simp: uris_of_def t' split: if_splits)
  have "uri \<notin> uris_of t sid" using new by (simp add: uris_of_def)
  then have "count_at t' sid' = int (card (uris_of t' sid'))" "finite (uris_of t' sid')" for sid'
    using table_invD(2,3) [OF inv] by (simp_all add: u) (simp add: t')
  moreover have "0 < n \<and> n \<le> maxSubscriptionsPerSession" if "fmlookup (sb_count t') sid' = Some n" for sid' n
    using that lt table_invD(3) [OF inv, of sid] table_invD(4) [OF inv, of sid' n] by (auto simp: t' split: if_splits)
  moreover have "fmlookup (sb_subscribers t') uri' \<noteq> Some {||}" for uri' using table_invD(1) [OF inv] by (simp add: t')
  ultimately show ?thesis unfolding table_inv_def by blast
qed

lemma drop_inv:
  assumes inv: "table_inv t" and d: "dropSubscriberLocked uri sid t = (none_left, t')"
  shows "table_inv t'"
proof (cases "sid |\<in>| subs_at t uri")
  case False
  then have "t' = t" using d by (simp add: dropSubscriberLocked_def Let_def)
  then show ?thesis using inv by simp
next
  case True
  define cnt where "cnt = (if count_at t sid \<le> 1 then fmdrop sid (sb_count t) else fmupd sid (count_at t sid - 1) (sb_count t))"
  have t': "t' = (if subs_at t uri |-| {|sid|} = {||} then \<lparr>sb_subscribers = fmdrop uri (sb_subscribers t), sb_count = cnt\<rparr>
      else \<lparr>sb_subscribers = fmupd uri (subs_at t uri |-| {|sid|}) (sb_subscribers t), sb_count = cnt\<rparr>)"
    using d True by (auto simp: dropSubscriberLocked_def cnt_def Let_def split: if_splits)
  have u: "uris_of t' sid' = (if sid' = sid then uris_of t sid - {uri} else uris_of t sid')" for sid'
    using subs_at_drop [OF d] by (auto simp: uris_of_def split: if_splits)
  have mem: "uri \<in> uris_of t sid" using True by (simp add: uris_of_def)
  have pos: "0 < card (uris_of t sid)" using mem table_invD(2) [OF inv] by (auto simp: card_gt_0_iff)
  have c: "count_at t' sid' = (if sid' = sid then count_at t sid - 1 else count_at t sid')" for sid'
    using table_invD(3) [OF inv, of sid] pos by (auto simp: t' cnt_def)
  have "count_at t' sid' = int (card (uris_of t' sid'))" "finite (uris_of t' sid')" for sid'
    using table_invD(2,3) [OF inv] mem pos by (simp_all add: u c of_nat_diff)
  moreover have "0 < n \<and> n \<le> maxSubscriptionsPerSession" if "fmlookup (sb_count t') sid' = Some n" for sid' n
  proof -
    have "fmlookup cnt sid' = Some n" using that by (simp add: t' split: if_splits)
    moreover have "count_at t sid \<le> maxSubscriptionsPerSession"
      using table_invD(4) [OF inv, of sid] by (auto simp: count_at_def maxSubscriptionsPerSession_def split: option.splits)
    ultimately show ?thesis using table_invD(4) [OF inv, of sid' n] by (auto simp: cnt_def split: if_splits)
  qed
  moreover have "fmlookup (sb_subscribers t') uri' \<noteq> Some {||}" for uri' using table_invD(1) [OF inv] by (simp add: t')
  ultimately show ?thesis unfolding table_inv_def by blast
qed

lemma sub_reachable_inv: "sub_reachable t \<Longrightarrow> table_inv t"
proof (induction rule: sub_reachable.induct)
  case start
  show ?case by (simp add: table_inv_def no_subs_def count_at_def uris_of_def subs_at_def)
qed (metis enter_inv drop_inv prod.collapse)+

subsection \<open>Properties\<close>

text \<open>
  C18. The per-session counts are exact and bounded. Whatever critical sections of subscribers, unsubscribers, failed
  subscribes and sweeps follow one another, a session's count is the number of URIs it is a
  subscriber of, there is no entry for a session without any, no URI keeps an empty set, and no session
  holds more than 1024 URIs.
\<close>

theorem subscription_counts_exact:
  assumes "sub_reachable t"
  shows "count_at t sid = int (card (uris_of t sid)) \<and> finite (uris_of t sid) \<and> card (uris_of t sid) \<le> 1024 \<and>
    (fmlookup (sb_count t) sid = None \<longleftrightarrow> uris_of t sid = {}) \<and> fmlookup (sb_subscribers t) uri \<noteq> Some {||}"
proof -
  note D = table_invD [OF sub_reachable_inv [OF assms]]
  have c: "count_at t sid \<le> 1024" using D(4) [of sid] by (auto simp: count_at_def maxSubscriptionsPerSession_def split: option.splits)
  have "fmlookup (sb_count t) sid = None \<longleftrightarrow> count_at t sid = 0"
    using D(4) [of sid] by (auto simp: count_at_def split: option.splits)
  then show ?thesis using c D(1) D(2) [of sid] D(3) [of sid] by simp
qed

definition two_subscribers :: subs where
  "two_subscribers = snd (subscribe_enter ''u'' ''b'' (snd (subscribe_enter ''u'' ''a'' no_subs)))"

theorem subscription_counts_exact_witness:
  "count_at two_subscribers ''b'' = 1 \<and> card (uris_of two_subscribers ''b'') \<le> 1024"
proof -
  have "sub_reachable two_subscribers"
    unfolding two_subscribers_def by (intro sub_reachable.entered sub_reachable.start)
  from subscription_counts_exact [OF this, of "''b''"] have "card (uris_of two_subscribers ''b'') \<le> 1024" by blast
  moreover have "count_at two_subscribers ''b'' = 1"
    by (simp add: two_subscribers_def subscribe_enter_def no_subs_def subs_at_def count_at_def maxSubscriptionsPerSession_def)
  ultimately show ?thesis by blast
qed

text \<open>
  A client cannot take another's subscription away. Unsubscribing, successful or not, changes no session's
  membership but the caller's own for that URI, and the upstream that serves the URI is asked to
  unsubscribe only when no subscriber is left for it.
\<close>

theorem unsubscribe_keeps_others:
  assumes "handleUnsubscribe w c rt x sid uri st = (r, st')"
  shows "(sid' |\<in>| subs_at (sg_table st') uri' \<longleftrightarrow>
      sid' |\<in>| subs_at (sg_table st) uri' \<and> (sid' \<noteq> sid \<or> uri' \<noteq> uri \<or> (\<exists>e. fst (subscribeTarget w c rt uri (sg_r st)) = Inl e))) \<and>
    (sg_up st' \<noteq> sg_up st \<longrightarrow> subs_at (sg_table st') uri = {||} \<and> sid |\<in>| subs_at (sg_table st) uri)"
proof -
  obtain t r1 where t: "subscribeTarget w c rt uri (sg_r st) = (t, r1)" by fastforce
  show ?thesis
  proof (cases t)
    case (Inl e)
    then show ?thesis using assms t by (auto simp: handleUnsubscribe_def)
  next
    case (Inr a)
    obtain u upURI where a: "a = (u, upURI)" by (cases a)
    obtain n t' where d: "dropSubscriberLocked uri sid (sg_table st) = (n, t')" by fastforce
    note D = subs_at_drop [OF d]
    show ?thesis
    proof (cases "sid |\<in>| subs_at (sg_table st) uri")
      case True
      then have "sg_table st' = t' \<and> (sg_up st' \<noteq> sg_up st \<longrightarrow> n)"
        using assms by (auto simp: handleUnsubscribe_def t Inr a d Let_def split: if_splits prod.splits)
      moreover have "sid' |\<in>| subs_at t' uri' \<longleftrightarrow> sid' |\<in>| subs_at (sg_table st) uri' \<and> (sid' \<noteq> sid \<or> uri' \<noteq> uri)" using D by simp
      moreover have "n \<longleftrightarrow> subs_at t' uri = {||}" using D by blast
      ultimately show ?thesis using True by (simp add: t Inr)
    next
      case False
      then have "st' = st\<lparr>sg_r := r1\<rparr>" using assms by (simp add: handleUnsubscribe_def t Inr a)
      then show ?thesis using False t Inr by auto
    qed
  qed
qed

lemma two_subscribers_at: "subs_at two_subscribers uri = (if uri = ''u'' then {|''b'', ''a''|} else {||})"
  by (simp add: two_subscribers_def subscribe_enter_def no_subs_def subs_at_def count_at_def maxSubscriptionsPerSession_def)

theorem unsubscribe_keeps_others_witness:
  "\<forall>w c rt x r. \<exists>rc st'. handleUnsubscribe w c rt x ''a'' ''u'' \<lparr>sg_r = r, sg_table = two_subscribers, sg_up = (\<lambda>_. no_sessions)\<rparr> = (rc, st') \<and>
     ''b'' |\<in>| subs_at (sg_table st') ''u''"
proof (intro allI)
  fix w c rt x r
  obtain rc st' where h: "handleUnsubscribe w c rt x ''a'' ''u'' \<lparr>sg_r = r, sg_table = two_subscribers, sg_up = (\<lambda>_. no_sessions)\<rparr> = (rc, st')"
    by fastforce
  from unsubscribe_keeps_others [OF h, of "''b''" "''u''"] have "''b'' |\<in>| subs_at (sg_table st') ''u''" by (simp add: two_subscribers_at)
  with h show "\<exists>rc st'. handleUnsubscribe w c rt x ''a'' ''u'' \<lparr>sg_r = r, sg_table = two_subscribers, sg_up = (\<lambda>_. no_sessions)\<rparr> = (rc, st') \<and>
     ''b'' |\<in>| subs_at (sg_table st') ''u''" by blast
qed

text \<open>The sweep leaves exactly the live sessions and those without an identifier.\<close>

definition pairs_of :: "subs \<Rightarrow> (string \<times> string) set" where
  "pairs_of t = {(uri, sid). sid |\<in>| subs_at t uri}"

lemma reap_table_keeps:
  "reap_table alive order orphaned t = (orphaned', t') \<Longrightarrow>
     pairs_of t' = {(uri, sid) \<in> pairs_of t. (uri, sid) \<notin> set order \<or> sid = '''' \<or> sid \<in> alive} \<and>
     set orphaned \<subseteq> set orphaned' \<and>
     (\<forall>uri \<in> set orphaned' - set orphaned. subs_at t' uri = {||})"
proof (induction alive order orphaned t rule: reap_table.induct)
  case (2 alive uri sid order orphaned t)
  show ?case
  proof (cases "sid \<noteq> '''' \<and> sid \<notin> alive")
    case True
    obtain n t1 where d: "dropSubscriberLocked uri sid t = (n, t1)" by fastforce
    have p: "pairs_of t1 = pairs_of t - {(uri, sid)}" 
    proof -
      have D: "subs_at t1 uri' = (if uri' = uri then subs_at t uri |-| {|sid|} else subs_at t uri')" for uri' using subs_at_drop [OF d] by blast
      show ?thesis unfolding pairs_of_def D by (auto split: if_splits)
    qed
    have r: "reap_table alive order (if n then orphaned @ [uri] else orphaned) t1 = (orphaned', t')" using 2(3) True d by simp
    note IH = 2(1) [OF True d [symmetric] r]
    have none: "subs_at t' uri = {||}" if "n"
    proof -
      have "subs_at t1 uri = {||}" using subs_at_drop [OF d] that by blast
      then have "(uri, s) \<notin> pairs_of t1" for s by (simp add: pairs_of_def)
      then have "(uri, s) \<notin> pairs_of t'" for s using IH by blast
      then show ?thesis unfolding pairs_of_def by auto
    qed
    have "pairs_of t' = {(uri', s) \<in> pairs_of t. (uri', s) \<notin> set ((uri, sid) # order) \<or> s = '''' \<or> s \<in> alive}"
      using IH True unfolding p by auto
    moreover have "set orphaned \<subseteq> set orphaned'" using IH by (cases n) simp_all
    moreover have "subs_at t' uri' = {||}" if "uri' \<in> set orphaned' - set orphaned" for uri'
      using IH none that by (cases n; cases "uri' = uri") simp_all
    ultimately show ?thesis by blast
  next
    case False
    then show ?thesis using 2(2) [OF False] 2(3) by auto
  qed
qed simp

text \<open>
  The sweep forgets exactly the departed. Given the pairs of the table in any order, what is left are the pairs whose session
  is live or has no identifier, and what it releases upstream are URIs without a subscriber left.
\<close>

theorem reap_forgets_departed:
  assumes "set order = pairs_of (sg_table st)" and "reapSubscribers rt xs now alive order st = st'"
  shows "pairs_of (sg_table st') = {(uri, sid) \<in> pairs_of (sg_table st). sid = '''' \<or> sid \<in> alive} \<and>
    (\<exists>orphaned. sg_up st' = fold (release rt xs now) orphaned (sg_up st) \<and>
       (\<forall>uri \<in> set orphaned. subs_at (sg_table st') uri = {||}))"
proof -
  obtain orphaned t where r: "reap_table alive order [] (sg_table st) = (orphaned, t)" by fastforce
  have s: "sg_table st' = t" "sg_up st' = fold (release rt xs now) orphaned (sg_up st)" using assms(2) by (auto simp: reapSubscribers_def r)
  note K = reap_table_keeps [OF r]
  have "pairs_of t = {(uri, sid) \<in> pairs_of (sg_table st). sid = '''' \<or> sid \<in> alive}"
    unfolding conjunct1 [OF K] assms(1) by auto
  moreover have "\<forall>uri \<in> set orphaned. subs_at t uri = {||}" using K by simp
  ultimately show ?thesis unfolding s by blast
qed

theorem reap_forgets_departed_witness:
  "\<forall>rt xs now r. \<exists>st'. reapSubscribers rt xs now {''b''} [(''u'', ''a''), (''u'', ''b'')]
       \<lparr>sg_r = r, sg_table = two_subscribers, sg_up = (\<lambda>_. no_sessions)\<rparr> = st' \<and>
     pairs_of (sg_table st') = {(''u'', ''b'')}"
proof (intro allI)
  fix rt xs now and r :: rstate
  let ?st = "\<lparr>sg_r = r, sg_table = two_subscribers, sg_up = (\<lambda>_. no_sessions)\<rparr>"
  have p: "set [(''u'', ''a''), (''u'', ''b'')] = pairs_of (sg_table ?st)"
    by (auto simp: pairs_of_def two_subscribers_at split: if_splits)
  have "pairs_of (sg_table (reapSubscribers rt xs now {''b''} [(''u'', ''a''), (''u'', ''b'')] ?st)) =
      {(uri, sid) \<in> pairs_of (sg_table ?st). sid = '''' \<or> sid \<in> {''b''}}"
    by (rule conjunct1 [OF reap_forgets_departed [OF p refl]])
  also have "\<dots> = {(''u'', ''b'')}" by (auto simp: pairs_of_def two_subscribers_at split: if_splits)
  finally show "\<exists>st'. reapSubscribers rt xs now {''b''} [(''u'', ''a''), (''u'', ''b'')] ?st = st' \<and> pairs_of (sg_table st') = {(''u'', ''b'')}"
    by blast
qed

text \<open>
  C23. Subscribing to a minted \<^verbatim>\<open>ui://\<close> address does not look at the tenant's subset, though the same caller's read of it is
  refused for that reason: the design document lists both among the requests the subset cuts. If policy
  allows the resource, the upstream the tenant may not see is subscribed on the caller's behalf.
\<close>

theorem ui_subscribe_ignores_subset:
  assumes ui: "ui_live rt uri = Some (u, original)" and hidden: "\<not> sees (c_tenant c) (id_of u)"
    and pol: "Allowed (Decide (rt_policy rt) (c_principal c) (id_of u) ''resources/read'' original)"
    and room: "subs_at (sg_table st) uri = {||}" "count_at (sg_table st) sid < maxSubscriptionsPerSession"
    and up: "fst (subscribe (id_of u) (root_key_of c u) original x (c_now c) (sg_up st (lv_addr u))) = None"
  shows "fst (handleSubscribe w c rt x sid uri st) = None \<and>
    isSubscribed original (sg_up (snd (handleSubscribe w c rt x sid uri st)) (lv_addr u)) \<and>
    fst (readResource fx w' c rt (Some \<lparr>rp_URI = uri, rp_Meta = meta, rp_InputResponses = ir, rp_RequestState = rs\<rparr>) s) =
      Failed (errOutsideSubset (c_tenant c) ''resources/read'' original (id_of u))"
proof -
  obtain st' where s: "subscribe (id_of u) (root_key_of c u) original x (c_now c) (sg_up st (lv_addr u)) = (None, st')"
    using up by (cases "subscribe (id_of u) (root_key_of c u) original x (c_now c) (sg_up st (lv_addr u))") simp
  obtain t' where e: "subscribe_enter uri sid (sg_table st) = (Inr True, t')"
    using room by (simp add: subscribe_enter_def)
  have "handleSubscribe w c rt x sid uri st = (None, st\<lparr>sg_table := t', sg_up := (sg_up st)(lv_addr u := st')\<rparr>)"
    using s pol by (simp add: handleSubscribe_def subscribeTarget_def ui e Let_def)
  moreover have "fst (readResource fx w' c rt (Some \<lparr>rp_URI = uri, rp_Meta = meta, rp_InputResponses = ir, rp_RequestState = rs\<rparr>) s) =
      Failed (errOutsideSubset (c_tenant c) ''resources/read'' original (id_of u))"
    using hidden by (simp add: readResource_def ui Let_def)
  ultimately show ?thesis using subscribe_subscribes [OF s] by simp
qed

definition sees_only_a :: ctx where
  "sees_only_a =
     \<lparr>c_principal = Some (named_principal ''i'' ''p''),
      c_tenant = Some \<lparr>t_addr = 0, t_cfg = \<lparr>tc_ID = ''t'', tc_Subjects = None, tc_Budget = None, tc_RateLimit = None, tc_Upstreams = [''a'']\<rparr>,
        t_upstreams = {''a''}, t_budget = 0, t_limiter = 0\<rparr>,
      c_profile = profilePlain, c_now = 0\<rparr>"

definition answered_exchange :: exchange where
  "answered_exchange = \<lparr>xg_stopped = None, xg_connects = True, xg_reply = Done\<rparr>"

definition fresh_state :: "rstate \<Rightarrow> sub_state" where
  "fresh_state r = \<lparr>sg_r = r, sg_table = no_subs, sg_up = (\<lambda>_. no_sessions)\<rparr>"

lemma first_exchange_ok: "fst (subscribe upID (Some key) uri answered_exchange now no_sessions) = None"
  by (simp add: subscribe_def do_root_def rootSession_def root_lookup_def root_install_def rootEntryLocked_def connect_ok_def
      answered_exchange_def no_sessions_def Let_def)

lemma sample_route:
  obtains g :: gateway and u where "rt_byNamespace (gw_routes g) ''b'' = Some u" "id_of u = ''b''" "\<not> rt_passthrough (gw_routes g)"
    "rt_policy (gw_routes g) = New_engine None"
proof -
  have "Validate (o_lib sample_outside) sample_config = None" using sample_valid by (simp add: sample_outside_def)
  then obtain g :: gateway where g: "New_gateway sample_outside sample_config = Inr g" "rt_cfg (gw_routes g) = sample_config"
    by (rule New_gateway_ok)
  note r = gw_reachable.start [OF g(1)]
  have s: "snapshot_of sample_outside (gw_cfg g) (gw_next g) sample_config (gw_routes g)"
    using gw_reachable_inv [OF r] unfolding gw_inv_def g(2) by blast
  have "sample_upstream ''b'' (Some sample_exchange) \<in> set (cf_Upstreams sample_config)" by (simp add: sample_config_def)
  then obtain u where u: "u \<in> set (rt_upstreams (gw_routes g))" "lv_cfg u = sample_upstream ''b'' (Some sample_exchange)"
    using snapshot_cfgs [OF s] by auto
  have "rt_byNamespace (gw_routes g) ''b'' = Some u" using live_snapshot_facts(2) [OF r] u by (simp add: sample_upstream_def)
  moreover have "rt_passthrough (gw_routes g) = Passthrough sample_config" "rt_policy (gw_routes g) = New_engine (cf_Policy sample_config)"
    using s unfolding snapshot_of_def by blast+
  ultimately show ?thesis using that [of g u] u by (simp add: sample_upstream_def sample_config_def Passthrough_def)
qed

theorem ui_subscribe_ignores_subset_witness:
  "\<forall>w r. \<exists>rt u. id_of u = ''b'' \<and> \<not> sees (c_tenant sees_only_a) ''b'' \<and>
     fst (handleSubscribe w sees_only_a rt answered_exchange ''s'' ''ui://fold/b/x'' (fresh_state r)) = None"
proof (intro allI)
  fix w r
  obtain g :: gateway and u where u: "rt_byNamespace (gw_routes g) ''b'' = Some u" "id_of u = ''b''" "\<not> rt_passthrough (gw_routes g)"
    "rt_policy (gw_routes g) = New_engine None" by (rule sample_route)
  have ui: "ui_live (gw_routes g) ''ui://fold/b/x'' = Some (u, ''ui://x'')"
    
  proof -
    have "ns_ok ((lv_up u)\<lparr>up_Namespace := ''b'', up_sep := ''__''\<rparr>)" by (simp add: ns_ok_def)
    then have "splitUIURI ''ui://fold/b/x'' = Some (''b'', ''ui://x'')"
      using split_mint [of "(lv_up u)\<lparr>up_Namespace := ''b'', up_sep := ''__''\<rparr>" "''ui://x''"]
      by (simp add: mintUIURI_def isUIURI_def uiScheme_def uiMintHost_def)
    then show ?thesis using u by (simp add: ui_live_def)
  qed
  have hidden: "\<not> sees (c_tenant sees_only_a) ''b''" by (simp add: sees_only_a_def sees_def)
  have "root_key_of sees_only_a u \<noteq> None" by (simp add: root_key_of_def rootKey_def sees_only_a_def named_principal_def)
  then have up: "fst (subscribe (id_of u) (root_key_of sees_only_a u) ''ui://x'' answered_exchange (c_now sees_only_a) (sg_up (fresh_state r) (lv_addr u))) = None"
    by (auto simp: fresh_state_def first_exchange_ok)
  have "fst (handleSubscribe w sees_only_a (gw_routes g) answered_exchange ''s'' ''ui://fold/b/x'' (fresh_state r)) = None"
    using ui_subscribe_ignores_subset [OF ui, where c = sees_only_a and st = "fresh_state r" and sid = "''s''" and x = answered_exchange and w = w] up hidden u(2)
    by (simp add: u(4) New_engine_def Decide_def decide_def fresh_state_def no_subs_def subs_at_def count_at_def maxSubscriptionsPerSession_def)
  with hidden u(2) show "\<exists>rt u. id_of u = ''b'' \<and> \<not> sees (c_tenant sees_only_a) ''b'' \<and>
     fst (handleSubscribe w sees_only_a rt answered_exchange ''s'' ''ui://fold/b/x'' (fresh_state r)) = None" by blast
qed



end
