(* ===== verification/Audit_Delivery.thy ===== *)
theory Audit_Delivery
  imports Config_Document Decision_Hook
begin

section \<open>Delivery of audit events\<close>

text \<open>
  The delivering sinks of the audit trail (src/audit/delivery.go, src/audit/audit.go): the retry policy with its
  backoff at 64 bit, the delivery of a batch with retries and dead letters, and the sink as a step relation of
  emitters, the one worker and \<^verbatim>\<open>Close\<close>. What encoding, the receiver, the dead-letter file and the random
  source answer are arguments. Counted outcomes go to a log of reports, as the code's observer sees them.

  The lemmas show that a delivery ends within its attempts, that the backoff respects its cap, that every
  event emitted is in the buffer, under way or counted exactly once, and the race that leaves one
  behind.
\<close>

subsection \<open>The retry policy\<close>

record retryPolicy =
  rp_maxAttempts :: int
  rp_initial :: duration
  rp_max :: duration

definition defaultMaxAttempts :: int where "defaultMaxAttempts = 4"
definition defaultInitial :: duration where "defaultInitial = 500 * 1000000"
definition defaultMaxBackoff :: duration where "defaultMaxBackoff = 30 * 1000000000"

definition millis :: "int \<Rightarrow> duration" where
  "millis n = wrap64 (n * 1000000)"

definition resolveRetry :: "AuditRetry option \<Rightarrow> retryPolicy" where
  "resolveRetry oc =
     (case oc of
        None \<Rightarrow> \<lparr>rp_maxAttempts = defaultMaxAttempts, rp_initial = defaultInitial, rp_max = defaultMaxBackoff\<rparr>
      | Some c \<Rightarrow>
          let attempts = (if 0 < ar_MaxAttempts c then ar_MaxAttempts c else defaultMaxAttempts);
              initial = (if 0 < ar_InitialBackoffMs c then millis (ar_InitialBackoffMs c) else defaultInitial);
              mx = (if 0 < ar_MaxBackoffMs c then millis (ar_MaxBackoffMs c) else defaultMaxBackoff)
          in \<lparr>rp_maxAttempts = attempts, rp_initial = (if mx < initial then mx else initial), rp_max = mx\<rparr>)"

text \<open>The doubling loop, for the number of rounds it may still make.\<close>

fun doubled :: "nat \<Rightarrow> duration \<Rightarrow> duration \<Rightarrow> duration" where
  "doubled 0 mx d = d"
| "doubled (Suc n) mx d = (let d2 = wrap64 (d * 2) in if mx \<le> d2 then mx else doubled n mx d2)"

text \<open>\<open>rnd n\<close> is what \<^verbatim>\<open>rand.Int64N\<close> draws from the numbers below \<open>n\<close>; the division is that of a positive number.\<close>

definition backoff :: "(int \<Rightarrow> int) \<Rightarrow> retryPolicy \<Rightarrow> int \<Rightarrow> duration" where
  "backoff rnd p attempt =
     (let d = doubled (nat (attempt - 1)) (rp_max p) (rp_initial p) in
      if d \<le> 0 then 0 else let half = d div 2 in half + rnd (half + 1))"

fun budget_sum :: "(nat \<Rightarrow> int \<Rightarrow> int) \<Rightarrow> retryPolicy \<Rightarrow> nat \<Rightarrow> duration" where
  "budget_sum rnds p 0 = 0"
| "budget_sum rnds p (Suc k) = wrap64 (budget_sum rnds p k + backoff (rnds k) p (int (Suc k)))"

definition elapsedBudget :: "(nat \<Rightarrow> int \<Rightarrow> int) \<Rightarrow> retryPolicy \<Rightarrow> duration" where
  "elapsedBudget rnds p = wrap64 (budget_sum rnds p (nat (rp_maxAttempts p - 1)) + 10 * 1000000000)"

subsection \<open>Delivering a batch\<close>

datatype deliveryOutcome = Delivered | Retried | DeadLettered | Dropped

type_synonym reports = "(deliveryOutcome \<times> nat) list"

text \<open>How a POST ends: no request could be built, no answer, a status, or a panic in the transport.\<close>

datatype response = NoRequest | Unreachable | Status int | PostPanics

datatype posted = PostOK | PostError bool | PostPanicked

definition post :: "response \<Rightarrow> posted" where
  "post r =
     (case r of
        NoRequest \<Rightarrow> PostError False
      | Unreachable \<Rightarrow> PostError True
      | Status s \<Rightarrow> if s < 300 then PostOK else if s = 429 \<or> 500 \<le> s then PostError True else PostError False
      | PostPanics \<Rightarrow> PostPanicked)"

text \<open>The dead-letter file keeps the events it can marshal and write.\<close>

definition dead_write :: "(Event \<Rightarrow> bool) \<Rightarrow> Event list \<Rightarrow> reports" where
  "dead_write kept batch = map (\<lambda>e. (if kept e then DeadLettered else Dropped, 1)) batch"

definition abandon :: "(Event \<Rightarrow> bool) option \<Rightarrow> Event list \<Rightarrow> reports" where
  "abandon dead batch =
     (if batch = [] then []
      else case dead of Some kept \<Rightarrow> dead_write kept batch | None \<Rightarrow> [(Dropped, length batch)])"

datatype verdict = Placed | GivenUp | Panics

record conditions =
  cn_response :: "int \<Rightarrow> response"
  cn_closing :: "int \<Rightarrow> bool"
  cn_random :: "int \<Rightarrow> int \<Rightarrow> int"

text \<open>
  The attempts of one batch of \<open>n\<close> events: how they end, what was reported, the delays waited and the number
  of requests made. \<open>cn_closing k\<close> tells that the sink is closed while the delay after attempt \<open>k\<close> runs.
\<close>

function attempts :: "conditions \<Rightarrow> retryPolicy \<Rightarrow> nat \<Rightarrow> int \<Rightarrow> verdict \<times> reports \<times> duration list \<times> nat" where
  "attempts cn p n k =
     (if rp_maxAttempts p < k then (GivenUp, [], [], 0)
      else (case post (cn_response cn k) of
              PostOK \<Rightarrow> (Placed, [(Delivered, n)], [], 1)
            | PostPanicked \<Rightarrow> (Panics, [], [], 1)
            | PostError retryable \<Rightarrow>
                if \<not> retryable \<or> k = rp_maxAttempts p then (GivenUp, [], [], 1)
                else if cn_closing cn k then (GivenUp, [(Retried, n)], [], 1)
                else (case attempts cn p n (k + 1) of
                        (v, rs, ds, m) \<Rightarrow> (v, (Retried, n) # rs, backoff (cn_random cn k) p k # ds, Suc m))))"
  by pat_completeness auto
termination by (relation "measure (\<lambda>(cn, p, n, k). nat (rp_maxAttempts p + 1 - k))") auto

declare attempts.simps [simp del]

datatype encoding = Encoded | EncodeFails | EncodePanics

text \<open>\<open>None\<close> for the verdict of a delivery that panicked.\<close>

definition deliver ::
  "conditions \<Rightarrow> retryPolicy \<Rightarrow> (Event \<Rightarrow> bool) option \<Rightarrow> encoding \<Rightarrow> Event list \<Rightarrow> bool \<times> reports" where
  "deliver cn p dead enc batch =
     (case enc of
        EncodePanics \<Rightarrow> (True, [])
      | EncodeFails \<Rightarrow> (False, [(Dropped, length batch)])
      | Encoded \<Rightarrow>
          (case attempts cn p (length batch) 1 of
             (Placed, rs, _) \<Rightarrow> (False, rs)
           | (GivenUp, rs, _) \<Rightarrow> (False, rs @ abandon dead batch)
           | (Panics, rs, _) \<Rightarrow> (True, rs)))"

definition deliverSafe ::
  "conditions \<Rightarrow> retryPolicy \<Rightarrow> (Event \<Rightarrow> bool) option \<Rightarrow> encoding \<Rightarrow> Event list \<Rightarrow> reports" where
  "deliverSafe cn p dead enc batch =
     (case deliver cn p dead enc batch of (panicked, rs) \<Rightarrow> if panicked then rs @ [(Dropped, length batch)] else rs)"

text \<open>What the reports account for: an attempt that is retried accounts for nothing.\<close>

definition counted :: "reports \<Rightarrow> nat" where
  "counted rs = sum_list (map (\<lambda>(out, n). if out = Retried then 0 else n) rs)"

lemma counted_simps [simp]:
  "counted [] = 0" "counted (rs @ rs') = counted rs + counted rs'"
  "counted ((out, n) # rs) = (if out = Retried then 0 else n) + counted rs"
  by (simp_all add: counted_def)

lemma counted_dead: "counted (dead_write kept batch) = length batch"
  by (induction batch) (auto simp: dead_write_def counted_def)

lemma counted_abandon [simp]: "counted (abandon dead batch) = length batch"
  by (simp add: abandon_def counted_dead split: option.splits)

lemma counted_attempts:
  "attempts cn p n k = (v, rs, ds, m) \<Longrightarrow> counted rs = (if v = Placed then n else 0)"
proof (induction cn p n k arbitrary: v rs ds m rule: attempts.induct)
  case (1 cn p n k)
  show ?case using "1.prems" "1.IH"
    by (subst (asm) attempts.simps) (auto split: if_splits posted.splits prod.splits)
qed

lemma counted_deliverSafe: "counted (deliverSafe cn p dead enc batch) = length batch"
proof -
  obtain v rs ds m where a: "attempts cn p (length batch) 1 = (v, rs, ds, m)" by (metis prod_cases4)
  show ?thesis using counted_attempts [OF a]
    by (cases enc; cases v) (auto simp: deliverSafe_def deliver_def a)
qed

subsection \<open>The backoff respects its cap\<close>

lemma doubled_bounds:
  "0 < d \<Longrightarrow> d \<le> mx \<Longrightarrow> mx < 2 ^ 62 \<Longrightarrow> d \<le> doubled n mx d \<and> doubled n mx d \<le> mx"
proof (induction n mx d rule: doubled.induct)
  case (2 n mx d)
  have w: "wrap64 (d * 2) = d * 2" using 2 by (intro wrap64_id) (simp_all add: min_int64_def max_int64_def)
  show ?case using 2(1) [OF w [symmetric]] 2(2-4) by (auto simp: Let_def w)
qed simp

definition fair :: "(int \<Rightarrow> int) \<Rightarrow> bool" where
  "fair rnd \<longleftrightarrow> (\<forall>n > 0. 0 \<le> rnd n \<and> rnd n < n)"

lemma backoff_bounds:
  assumes "fair rnd" "0 < rp_initial p" "rp_initial p \<le> rp_max p" "rp_max p < 2 ^ 62"
  shows "rp_initial p div 2 \<le> backoff rnd p k \<and> backoff rnd p k \<le> rp_max p"
proof -
  define d where "d = doubled (nat (k - 1)) (rp_max p) (rp_initial p)"
  have d: "rp_initial p \<le> d" "d \<le> rp_max p" using doubled_bounds [OF assms(2-4), of "nat (k - 1)"] by (simp_all add: d_def)
  have "0 < d div 2 + 1" using d(1) assms(2) by simp
  then have r: "0 \<le> rnd (d div 2 + 1)" "rnd (d div 2 + 1) < d div 2 + 1" using assms(1) unfolding fair_def by blast+
  have b: "backoff rnd p k = d div 2 + rnd (d div 2 + 1)" using d(1) assms(2) by (simp add: backoff_def d_def [symmetric] Let_def)
  have "rp_initial p div 2 \<le> d div 2" using d(1) by (rule zdiv_mono1) simp
  then show ?thesis using r d(2) unfolding b by linarith
qed

text \<open>What an accepted retry section resolves to, as long as its times stay below 139 years.\<close>

definition tame :: "AuditRetry option \<Rightarrow> bool" where
  "tame oc \<longleftrightarrow> (case oc of None \<Rightarrow> True | Some c \<Rightarrow> ar_InitialBackoffMs c \<le> 2 ^ 42 \<and> ar_MaxBackoffMs c \<le> 2 ^ 42)"

lemma millis_exact: "0 < n \<Longrightarrow> n \<le> 2 ^ 42 \<Longrightarrow> millis n = n * 1000000"
  unfolding millis_def by (rule wrap64_id) (simp_all add: min_int64_def max_int64_def)

lemma resolveRetry_ok:
  assumes "tame oc"
  shows "0 < rp_maxAttempts (resolveRetry oc) \<and> 0 < rp_initial (resolveRetry oc) \<and>
    rp_initial (resolveRetry oc) \<le> rp_max (resolveRetry oc) \<and> rp_max (resolveRetry oc) < 2 ^ 62"
proof (cases oc)
  case (Some c)
  define i where "i = (if 0 < ar_InitialBackoffMs c then millis (ar_InitialBackoffMs c) else defaultInitial)"
  define m where "m = (if 0 < ar_MaxBackoffMs c then millis (ar_MaxBackoffMs c) else defaultMaxBackoff)"
  have i: "0 < i" "i < 2 ^ 62" and m: "0 < m" "m < 2 ^ 62"
    using assms Some by (auto simp: i_def m_def tame_def millis_exact defaultInitial_def defaultMaxBackoff_def)
  have "resolveRetry oc = \<lparr>rp_maxAttempts = (if 0 < ar_MaxAttempts c then ar_MaxAttempts c else defaultMaxAttempts),
      rp_initial = (if m < i then m else i), rp_max = m\<rparr>"
    by (simp add: resolveRetry_def Some i_def m_def Let_def)
  then show ?thesis using i m by (simp add: defaultMaxAttempts_def)
qed (simp add: resolveRetry_def defaultMaxAttempts_def defaultInitial_def defaultMaxBackoff_def)

subsection \<open>A delivery ends\<close>

lemma attempts_step:
  assumes "k \<le> rp_maxAttempts p"
  shows "(\<exists>v rs. attempts cn p n k = (v, rs, [], 1)) \<or>
    k < rp_maxAttempts p \<and> (\<exists>v rs ds m. attempts cn p n (k + 1) = (v, rs, ds, m) \<and>
      attempts cn p n k = (v, (Retried, n) # rs, backoff (cn_random cn k) p k # ds, Suc m))"
proof -
  obtain v rs ds m where a: "attempts cn p n (k + 1) = (v, rs, ds, m)" by (metis prod_cases4)
  show ?thesis using assms
    by (subst (1 3) attempts.simps) (auto simp: a split: posted.splits)
qed

lemma attempts_bounds:
  assumes f: "\<And>j. fair (cn_random cn j)" and p: "0 < rp_initial p" "rp_initial p \<le> rp_max p" "rp_max p < 2 ^ 62"
    and k: "k \<le> rp_maxAttempts p"
  shows "attempts cn p n k = (v, rs, ds, m) \<Longrightarrow>
    int m \<le> rp_maxAttempts p - k + 1 \<and> m = Suc (length ds) \<and> list_all (\<lambda>d. rp_initial p div 2 \<le> d \<and> d \<le> rp_max p) ds"
  using k
proof (induction "nat (rp_maxAttempts p - k)" arbitrary: k v rs ds m)
  case 0
  then have "k = rp_maxAttempts p" by simp
  then show ?case using attempts_step [of k p cn n] 0 by auto
next
  case (Suc j)
  show ?case
  proof (cases "ds = [] \<and> m = 1")
    case False
    then obtain v' rs' ds' m' where a: "k < rp_maxAttempts p" "attempts cn p n (k + 1) = (v', rs', ds', m')"
        "ds = backoff (cn_random cn k) p k # ds'" "m = Suc m'"
      using attempts_step [OF Suc.prems(2), of cn n] Suc.prems(1) by auto
    have "j = nat (rp_maxAttempts p - (k + 1))" "k + 1 \<le> rp_maxAttempts p" using Suc.hyps(2) a(1) by simp_all
    from Suc.hyps(1) [OF this(1) a(2) this(2)] show ?thesis using a(3,4) backoff_bounds [OF f p, of k] by simp
  qed (use Suc.prems in simp)
qed


definition refusing :: conditions where
  "refusing = \<lparr>cn_response = (\<lambda>_. Unreachable), cn_closing = (\<lambda>_. False), cn_random = (\<lambda>_ _. 0)\<rparr>"


text \<open>A section with a cap that overflows 64-bit nanoseconds is accepted and makes the retries follow one another without delay.\<close>

lemma overflowing_cap_means_no_delay:
  "backoff rnd (resolveRetry (Some \<lparr>ar_MaxAttempts = 4, ar_InitialBackoffMs = 500, ar_MaxBackoffMs = 9223372036855\<rparr>)) k = 0"
  by (cases "nat (k - 1)") (simp_all add: backoff_def resolveRetry_def millis_def wrap64_def Let_def)

subsection \<open>The sink\<close>

text \<open>
  \<open>Carrying\<close> and \<open>DrainCarrying\<close> are the worker in \<^verbatim>\<open>deliverSafe\<close>. \<open>hs_passed\<close> holds the events whose emitter has read the
  closed flag and not yet reached the channel; \<open>hs_emitted\<close> counts the calls of \<^verbatim>\<open>Emit\<close>.
\<close>

definition sinkBuffer :: nat where "sinkBuffer = 1024"
definition maxBatch :: nat where "maxBatch = 100"

datatype worker = Waiting | Carrying "Event list" | Draining | DrainCarrying "Event list" | Exited

record httpSink =
  hs_retry :: retryPolicy
  hs_dead :: "(Event \<Rightarrow> bool) option"
  hs_ch :: "Event list"
  hs_closed :: bool
  hs_done :: bool
  hs_worker :: worker
  hs_passed :: "Event list"
  hs_emitted :: nat
  hs_reports :: reports

definition newHTTPSink :: "retryPolicy \<Rightarrow> (Event \<Rightarrow> bool) option \<Rightarrow> httpSink" where
  "newHTTPSink p dead =
     \<lparr>hs_retry = p, hs_dead = dead, hs_ch = [], hs_closed = False, hs_done = False, hs_worker = Waiting,
      hs_passed = [], hs_emitted = 0, hs_reports = []\<rparr>"

definition sink_report :: "reports \<Rightarrow> httpSink \<Rightarrow> httpSink" where
  "sink_report rs s = s\<lparr>hs_reports := hs_reports s @ rs\<rparr>"

definition emit_check :: "Event \<Rightarrow> httpSink \<Rightarrow> httpSink" where
  "emit_check e s =
     (let s1 = s\<lparr>hs_emitted := Suc (hs_emitted s)\<rparr> in
      if hs_closed s then sink_report [(Dropped, 1)] s1 else s1\<lparr>hs_passed := e # hs_passed s\<rparr>)"

definition emit_send :: "Event \<Rightarrow> httpSink \<Rightarrow> httpSink" where
  "emit_send e s =
     (if length (hs_ch s) < sinkBuffer then s\<lparr>hs_ch := hs_ch s @ [e]\<rparr> else sink_report [(Dropped, 1)] s)"

text \<open>\<open>Emit\<close> without interruption.\<close>

definition Emit_sink :: "Event \<Rightarrow> httpSink \<Rightarrow> httpSink" where
  "Emit_sink e s =
     (if hs_closed s then emit_check e s else emit_send e (s\<lparr>hs_emitted := Suc (hs_emitted s)\<rparr>))"

definition collect :: "httpSink \<Rightarrow> Event list \<times> httpSink" where
  "collect s = (take maxBatch (hs_ch s), s\<lparr>hs_ch := drop maxBatch (hs_ch s)\<rparr>)"

definition finish_batch :: "conditions \<Rightarrow> encoding \<Rightarrow> Event list \<Rightarrow> httpSink \<Rightarrow> httpSink" where
  "finish_batch cn enc batch s = sink_report (deliverSafe cn (hs_retry s) (hs_dead s) enc batch) s"

inductive sink_step :: "httpSink \<Rightarrow> httpSink \<Rightarrow> bool" where
  checked: "sink_step s (emit_check e s)"
| sent: "hs_passed s = p1 @ e # p2 \<Longrightarrow> sink_step s (emit_send e (s\<lparr>hs_passed := p1 @ p2\<rparr>))"
| flagged: "sink_step s (s\<lparr>hs_closed := True\<rparr>)"
| done_closed: "hs_closed s \<Longrightarrow> sink_step s (s\<lparr>hs_done := True\<rparr>)"
| took: "hs_worker s = Waiting \<Longrightarrow> hs_ch s \<noteq> [] \<Longrightarrow> collect s = (batch, s') \<Longrightarrow>
    sink_step s (s'\<lparr>hs_worker := Carrying batch\<rparr>)"
| finished: "hs_worker s = Carrying batch \<Longrightarrow> sink_step s ((finish_batch cn enc batch s)\<lparr>hs_worker := Waiting\<rparr>)"
| drains: "hs_worker s = Waiting \<Longrightarrow> hs_done s \<Longrightarrow> sink_step s (s\<lparr>hs_worker := Draining\<rparr>)"
| drain_took: "hs_worker s = Draining \<Longrightarrow> hs_ch s \<noteq> [] \<Longrightarrow> collect s = (batch, s') \<Longrightarrow>
    sink_step s (s'\<lparr>hs_worker := DrainCarrying batch\<rparr>)"
| drain_finished: "hs_worker s = DrainCarrying batch \<Longrightarrow>
    sink_step s ((finish_batch cn enc batch s)\<lparr>hs_worker := Draining\<rparr>)"
| drain_empty: "hs_worker s = Draining \<Longrightarrow> hs_ch s = [] \<Longrightarrow> sink_step s (s\<lparr>hs_worker := Exited\<rparr>)"
| drain_expired: "hs_worker s = Draining \<Longrightarrow>
    sink_step s ((sink_report (abandon (hs_dead s) (hs_ch s)) s)\<lparr>hs_ch := [], hs_worker := Exited\<rparr>)"

inductive sink_reachable :: "retryPolicy \<Rightarrow> (Event \<Rightarrow> bool) option \<Rightarrow> httpSink \<Rightarrow> bool" for p dead where
  start: "sink_reachable p dead (newHTTPSink p dead)"
| step: "sink_reachable p dead s \<Longrightarrow> sink_step s s' \<Longrightarrow> sink_reachable p dead s'"

fun carried :: "worker \<Rightarrow> Event list" where
  "carried (Carrying b) = b"
| "carried (DrainCarrying b) = b"
| "carried _ = []"

definition sink_inv :: "httpSink \<Rightarrow> bool" where
  "sink_inv s \<longleftrightarrow>
     hs_emitted s = length (hs_passed s) + length (hs_ch s) + length (carried (hs_worker s)) + counted (hs_reports s) \<and>
     length (hs_ch s) \<le> sinkBuffer \<and> length (carried (hs_worker s)) \<le> maxBatch"

lemma sink_report_sel [simp]:
  "hs_reports (sink_report rs s) = hs_reports s @ rs" "hs_ch (sink_report rs s) = hs_ch s" "hs_passed (sink_report rs s) = hs_passed s"
  "hs_emitted (sink_report rs s) = hs_emitted s" "hs_worker (sink_report rs s) = hs_worker s" "hs_closed (sink_report rs s) = hs_closed s"
  by (simp_all add: sink_report_def)

lemma sink_step_inv: "sink_step s s' \<Longrightarrow> sink_inv s \<Longrightarrow> sink_inv s'"
proof (induction rule: sink_step.induct)
  case (checked s e)
  then show ?case by (simp add: sink_inv_def emit_check_def Let_def)
next
  case (sent s p1 e p2)
  then show ?case by (auto simp: sink_inv_def emit_send_def)
next
  case (took s batch s')
  then show ?case by (auto simp: sink_inv_def collect_def min_def)
next
  case (drain_took s batch s')
  then show ?case by (auto simp: sink_inv_def collect_def min_def)
qed (auto simp: sink_inv_def finish_batch_def counted_deliverSafe)

lemma sink_reachable_inv: "sink_reachable p dead s \<Longrightarrow> sink_inv s"
  by (induction rule: sink_reachable.induct) (simp add: sink_inv_def newHTTPSink_def, rule sink_step_inv)

text \<open>
  C19. No event disappears. In every reachable state of a sink, whatever emitters, the worker, the receiver and a close do, each event
  that was emitted is with its emitter, in the buffer, carried by the worker, or was counted exactly once as
  delivered, dead-lettered or dropped; the buffer and the batches stay within their bounds.
\<close>

theorem every_event_accounted:
  assumes "sink_reachable p dead s"
  shows "hs_emitted s = length (hs_passed s) + length (hs_ch s) + length (carried (hs_worker s)) + counted (hs_reports s) \<and>
    length (hs_ch s) \<le> 1024 \<and> length (carried (hs_worker s)) \<le> 100"
  using sink_reachable_inv [OF assms] by (simp add: sink_inv_def sinkBuffer_def maxBatch_def)

text \<open>The run in which an emitter that passed the check sends after the worker is gone.\<close>

definition late :: "retryPolicy \<Rightarrow> (Event \<Rightarrow> bool) option \<Rightarrow> Event \<Rightarrow> httpSink" where
  "late p dead e =
     (newHTTPSink p dead)\<lparr>hs_ch := [e], hs_closed := True, hs_done := True, hs_worker := Exited, hs_emitted := 1\<rparr>"

lemma late_reachable: "sink_reachable p dead (late p dead e)"
proof -
  note st = sink_reachable.step
  define s0 where "s0 = newHTTPSink p dead"
  note sel = s0_def newHTTPSink_def emit_check_def emit_send_def sinkBuffer_def late_def
  have "sink_reachable p dead s0" unfolding s0_def by (rule sink_reachable.start)
  then have "sink_reachable p dead (emit_check e s0)" by (rule st) (rule sink_step.checked)
  then have "sink_reachable p dead (s0\<lparr>hs_emitted := 1, hs_passed := [e]\<rparr>)" by (simp add: sel)
  then have "sink_reachable p dead (s0\<lparr>hs_emitted := 1, hs_passed := [e], hs_closed := True\<rparr>)"
    using st [OF _ sink_step.flagged, of p dead "s0\<lparr>hs_emitted := 1, hs_passed := [e]\<rparr>"] by simp
  then have "sink_reachable p dead (s0\<lparr>hs_emitted := 1, hs_passed := [e], hs_closed := True, hs_done := True\<rparr>)"
    using st [OF _ sink_step.done_closed, of p dead "s0\<lparr>hs_emitted := 1, hs_passed := [e], hs_closed := True\<rparr>"] by simp
  then have "sink_reachable p dead (s0\<lparr>hs_emitted := 1, hs_passed := [e], hs_closed := True, hs_done := True, hs_worker := Draining\<rparr>)"
    using st [OF _ sink_step.drains, of p dead "s0\<lparr>hs_emitted := 1, hs_passed := [e], hs_closed := True, hs_done := True\<rparr>"] by (simp add: sel)
  then have "sink_reachable p dead (s0\<lparr>hs_emitted := 1, hs_passed := [e], hs_closed := True, hs_done := True, hs_worker := Exited\<rparr>)"
    using st [OF _ sink_step.drain_empty, of p dead "s0\<lparr>hs_emitted := 1, hs_passed := [e], hs_closed := True, hs_done := True, hs_worker := Draining\<rparr>"]
    by (simp add: sel)
  then show ?thesis
    using st [OF _ sink_step.sent, of p dead "s0\<lparr>hs_emitted := 1, hs_passed := [e], hs_closed := True, hs_done := True, hs_worker := Exited\<rparr>" "[]" e "[]"]
    by (simp add: sel)
qed

theorem every_event_accounted_witness:
  "\<forall>e. hs_emitted (late (resolveRetry None) None e) = 1 + counted (hs_reports (late (resolveRetry None) None e))"
proof
  fix e
  show "hs_emitted (late (resolveRetry None) None e) = 1 + counted (hs_reports (late (resolveRetry None) None e))"
    using every_event_accounted [OF late_reachable, of "resolveRetry None" None e] by (simp add: late_def newHTTPSink_def)
qed

text \<open>
  An event can be lost without being counted. An emitter that read the closed flag just before a close may reach the channel
  after the worker has drained it and gone; its event is then in the buffer of every later state, reported
  neither as delivered nor as dropped.
\<close>

theorem late_event_never_counted:
  assumes "sink_step\<^sup>*\<^sup>* (late p dead e) s"
  shows "sink_reachable p dead (late p dead e) \<and> e \<in> set (hs_ch s) \<and> hs_worker s = Exited \<and>
    counted (hs_reports s) + 1 \<le> hs_emitted s"
proof -
  have r: "sink_reachable p dead (late p dead e)" by (rule late_reachable)
  have stays: "hs_worker b = Exited \<and> set (hs_ch a) \<subseteq> set (hs_ch b)" if "sink_step a b" "hs_worker a = Exited" for a b
    using that by (induction rule: sink_step.induct) (auto simp: emit_check_def emit_send_def Let_def)
  have "hs_worker s = Exited \<and> e \<in> set (hs_ch s) \<and> sink_reachable p dead s"
    using assms
  proof (induction rule: rtranclp_induct)
    case base
    then show ?case using r by (simp add: late_def)
  next
    case (step a b)
    then show ?case using stays sink_reachable.step by blast
  qed
  moreover from this have "1 \<le> length (hs_ch s)" by (cases "hs_ch s") auto
  ultimately show ?thesis using r every_event_accounted [of p dead s] by simp
qed

theorem late_event_never_counted_witness:
  "\<forall>e. e \<in> set (hs_ch (late (resolveRetry None) None e))"
  using late_event_never_counted [OF rtranclp.rtrancl_refl] by blast

end
