(* ===== verification/Audit_File.thy ===== *)
theory Audit_File
  imports Config_Document
begin

section \<open>The rotating audit file\<close>

text \<open>
  The file sink's storage (src/audit/file.go). The live file and its numbered predecessors are one map: 0 is the
  live name, \<open>i\<close> the name with suffix \<open>.i\<close>; a file is its bytes. What the system calls of one
  \<^verbatim>\<open>writeLine\<close> answer is an argument. An \<^verbatim>\<open>os.File\<close> that was closed stays in the field until a successful open replaces
  it: \<open>Shut\<close>.

  The lemmas show that the files, oldest first, hold a suffix of all that was ever written, within the size
  and the number configured, and that one failed reopening ends the sink for good.
\<close>

definition defaultMaxSizeMb :: int where "defaultMaxSizeMb = 100"
definition defaultMaxFiles :: int where "defaultMaxFiles = 5"

datatype fhandle = NoFile | Shut | Opened

record rotatingFile =
  rf_maxBytes :: int
  rf_maxFiles :: nat
  rf_f :: fhandle
  rf_size :: int
  rf_files :: "(nat, string) fmap"

text \<open>
  The answers of the system in one call: whether closing, the rename of file \<open>i\<close>, the rename of the live file, the opening
  and \<^verbatim>\<open>Stat\<close> succeed, and how many bytes are written; all of them is success.
\<close>

record os_answers =
  oa_close :: bool
  oa_shift :: "nat \<Rightarrow> bool"
  oa_rename :: bool
  oa_open :: bool
  oa_stat :: bool
  oa_written :: nat

definition content :: "rotatingFile \<Rightarrow> nat \<Rightarrow> string" where
  "content r i = (case fmlookup (rf_files r) i of None \<Rightarrow> '''' | Some b \<Rightarrow> b)"

definition open_file :: "os_answers \<Rightarrow> rotatingFile \<Rightarrow> bool \<times> rotatingFile" where
  "open_file os r =
     (if \<not> oa_open os then (False, r)
      else let r1 = r\<lparr>rf_f := Opened, rf_files := fmupd 0 (content r 0) (rf_files r)\<rparr>
           in (True, if oa_stat os then r1\<lparr>rf_size := int (length (content r 0))\<rparr> else r1))"

definition newRotatingFile :: "os_answers \<Rightarrow> int \<Rightarrow> int \<Rightarrow> (nat, string) fmap \<Rightarrow> bool \<times> rotatingFile" where
  "newRotatingFile os maxSizeMb maxFiles disk =
     open_file os
       \<lparr>rf_maxBytes = wrap64 ((if maxSizeMb \<le> 0 then defaultMaxSizeMb else maxSizeMb) * 1024 * 1024),
        rf_maxFiles = nat (if maxFiles \<le> 0 then defaultMaxFiles else maxFiles),
        rf_f = NoFile, rf_size = 0, rf_files = disk\<rparr>"

text \<open>Renaming a file that exists, onto whatever is there.\<close>

definition move :: "nat \<Rightarrow> nat \<Rightarrow> (nat, string) fmap \<Rightarrow> (nat, string) fmap" where
  "move i j m = (case fmlookup m i of None \<Rightarrow> m | Some b \<Rightarrow> fmupd j b (fmdrop i m))"

fun shift_files :: "(nat \<Rightarrow> bool) \<Rightarrow> nat \<Rightarrow> (nat, string) fmap \<Rightarrow> (nat, string) fmap" where
  "shift_files ok 0 m = m"
| "shift_files ok (Suc i) m = shift_files ok i (if ok (Suc i) then move (Suc i) (Suc (Suc i)) m else m)"

definition rotate_file :: "os_answers \<Rightarrow> rotatingFile \<Rightarrow> bool \<times> rotatingFile" where
  "rotate_file os r =
     (let closes = (rf_f r = Opened \<and> oa_close os); r0 = r\<lparr>rf_f := Shut\<rparr> in
      if \<not> closes then (False, r0)
      else let m = shift_files (oa_shift os) (rf_maxFiles r - 1) (fmdrop (rf_maxFiles r) (rf_files r))
           in if \<not> oa_rename os then (False, snd (open_file os (r0\<lparr>rf_files := m\<rparr>)))
              else open_file os (r0\<lparr>rf_files := move 0 1 m, rf_size := 0\<rparr>))"

definition writeLine :: "os_answers \<Rightarrow> string \<Rightarrow> rotatingFile \<Rightarrow> bool \<times> rotatingFile" where
  "writeLine os line r =
     (if rf_f r = NoFile then (False, r)
      else (case (if rf_maxBytes r < rf_size r + int (length line) + 1 \<and> 0 < rf_size r then rotate_file os r else (True, r)) of
              (False, r1) \<Rightarrow> (False, r1)
            | (True, r1) \<Rightarrow>
                let bytes = line @ [CHR 0x0A];
                    n = (if rf_f r1 = Opened then min (oa_written os) (length bytes) else 0)
                in (n = length bytes,
                    if rf_f r1 = Opened
                    then r1\<lparr>rf_size := rf_size r1 + int n, rf_files := fmupd 0 (content r1 0 @ take n bytes) (rf_files r1)\<rparr>
                    else r1)))"

definition Close_file :: "bool \<Rightarrow> rotatingFile \<Rightarrow> bool \<times> rotatingFile" where
  "Close_file ok r =
     (if rf_f r = NoFile then (True, r) else (rf_f r = Opened \<and> ok, r\<lparr>rf_f := NoFile\<rparr>))"

subsection \<open>One failed reopening is final\<close>

fun write_all :: "(os_answers \<times> string) list \<Rightarrow> rotatingFile \<Rightarrow> bool list \<times> rotatingFile" where
  "write_all [] r = ([], r)"
| "write_all ((os, line) # ws) r =
     (case writeLine os line r of (ok, r1) \<Rightarrow> (case write_all ws r1 of (oks, r2) \<Rightarrow> (ok # oks, r2)))"

lemma writeLine_shut:
  assumes "rf_f r = Shut"
  shows "writeLine os line r = (False, r)"
proof -
  have "r\<lparr>rf_f := Shut\<rparr> = r" using assms by simp
  then show ?thesis using assms by (simp add: writeLine_def rotate_file_def Let_def)
qed

text \<open>
  A rotation that cannot reopen the live file ends the sink. Whatever the system answers later, every further line is refused
  and the files stay as they are: nothing opens the file again, although the code reopens after a failed
  rename precisely so as not to lose every later event.
\<close>

theorem failed_reopen_is_final:
  assumes "rf_f r = Opened" "rf_maxBytes r < rf_size r + int (length line) + 1" "0 < rf_size r" "\<not> oa_open os"
    and "writeLine os line r = (ok, r1)" "write_all ws r1 = (oks, r2)"
  shows "\<not> ok \<and> oks = replicate (length ws) False \<and> rf_files r2 = rf_files r1"
proof -
  have shut: "\<not> ok \<and> rf_f r1 = Shut"
    using assms(1-5) by (auto simp: writeLine_def rotate_file_def open_file_def Let_def split: if_splits)
  have "oks = replicate (length ws) False \<and> r2 = r1"
    using assms(6) shut
  proof (induction ws arbitrary: oks)
    case (Cons a ws)
    obtain os' line' where a: "a = (os', line')" by (cases a)
    show ?case using Cons writeLine_shut [of r1 os' line'] by (auto simp: a split: prod.splits)
  qed simp
  with shut show ?thesis by simp
qed

definition full_file :: rotatingFile where
  "full_file = \<lparr>rf_maxBytes = 4, rf_maxFiles = 2, rf_f = Opened, rf_size = 3, rf_files = fmupd 0 ''ab\<newline>'' fmempty\<rparr>"

definition all_well :: os_answers where
  "all_well = \<lparr>oa_close = True, oa_shift = (\<lambda>_. True), oa_rename = True, oa_open = True, oa_stat = True, oa_written = 1000\<rparr>"

theorem failed_reopen_is_final_witness:
  "\<exists>ok r1 oks r2. writeLine (all_well\<lparr>oa_open := False\<rparr>) ''cd'' full_file = (ok, r1) \<and>
     write_all [(all_well, ''ef''), (all_well, ''gh'')] r1 = (oks, r2) \<and> oks = [False, False]"
proof -
  obtain ok r1 where 1: "writeLine (all_well\<lparr>oa_open := False\<rparr>) ''cd'' full_file = (ok, r1)" by fastforce
  obtain oks r2 where 2: "write_all [(all_well, ''ef''), (all_well, ''gh'')] r1 = (oks, r2)" by fastforce
  have "oks = replicate (length [(all_well, ''ef''), (all_well, ''gh'')]) False"
    using failed_reopen_is_final [OF _ _ _ _ 1 2] by (simp add: full_file_def all_well_def)
  with 1 2 show ?thesis by (simp add: numeral_2_eq_2)
qed

subsection \<open>What the files hold\<close>

definition well :: "os_answers \<Rightarrow> string \<Rightarrow> bool" where
  "well os line \<longleftrightarrow> oa_close os \<and> (\<forall>i. oa_shift os i) \<and> oa_rename os \<and> oa_open os \<and> oa_stat os \<and> length line < oa_written os"

text \<open>The bytes on disk, oldest file first, and what the sink keeps about them.\<close>

definition history :: "rotatingFile \<Rightarrow> string" where
  "history r = concat (map (content r) (rev [0 ..< Suc (rf_maxFiles r)]))"

definition file_inv :: "nat \<Rightarrow> rotatingFile \<Rightarrow> bool" where
  "file_inv longest r \<longleftrightarrow>
     rf_f r = Opened \<and> 0 < rf_maxFiles r \<and> rf_size r = int (length (content r 0)) \<and>
     (\<forall>i. int (length (content r i)) \<le> max (rf_maxBytes r) (int longest)) \<and> (\<forall>i > rf_maxFiles r. fmlookup (rf_files r) i = None)"

lemma shift_lookup:
  assumes "\<And>i. ok i"
  shows "fmlookup m (Suc n) = None \<Longrightarrow>
    fmlookup (shift_files ok n m) i = (if i = 0 then fmlookup m 0 else if i = 1 then None else if i \<le> Suc n then fmlookup m (i - 1) else fmlookup m i)"
proof (induction n arbitrary: m)
  case 0
  then show ?case by auto
next
  case (Suc n)
  define m' where "m' = move (Suc n) (Suc (Suc n)) m"
  have m': "fmlookup m' j = (if j = Suc n then None else if j = Suc (Suc n) then fmlookup m (Suc n) else fmlookup m j)" for j
    using Suc.prems by (auto simp: m'_def move_def split: option.splits)
  have "shift_files ok (Suc n) m = shift_files ok n m'" using assms by (simp add: m'_def)
  moreover have "fmlookup m' (Suc n) = None" using m' by simp
  ultimately show ?case using Suc.IH [of m'] m' by auto
qed

lemma rotate_content:
  assumes "well os line" "rf_f r = Opened" "0 < rf_maxFiles r" "\<forall>i > rf_maxFiles r. fmlookup (rf_files r) i = None"
  obtains r1 where "rotate_file os r = (True, r1)" "rf_f r1 = Opened" "rf_size r1 = 0" "rf_maxFiles r1 = rf_maxFiles r"
    "rf_maxBytes r1 = rf_maxBytes r" "content r1 0 = ''''"
    "\<And>i. content r1 (Suc i) = (if i < rf_maxFiles r then content r i else '''')"
    "\<forall>i > rf_maxFiles r1. fmlookup (rf_files r1) i = None"
proof -
  obtain k where k: "rf_maxFiles r = Suc k" using assms(3) by (cases "rf_maxFiles r") auto
  define m where "m = shift_files (oa_shift os) k (fmdrop (Suc k) (rf_files r))"
  have l: "fmlookup m i = (if i = 0 then fmlookup (rf_files r) 0 else if i = 1 then None
      else if i \<le> Suc k then fmlookup (rf_files r) (i - 1) else fmlookup (rf_files r) i)" for i
    unfolding m_def by (subst shift_lookup) (use assms(1) in \<open>auto simp: well_def\<close>)
  have mv: "fmlookup (move 0 (Suc 0) m) i = (if i = 0 then None else if i \<le> Suc k then fmlookup (rf_files r) (i - 1) else None)" for i
    using l assms(4) k by (auto simp: move_def split: option.splits)
  define r1 where "r1 = r\<lparr>rf_f := Opened, rf_size := 0, rf_files := fmupd 0 '''' (move 0 (Suc 0) m)\<rparr>"
  have c0: "content (r\<lparr>rf_f := Shut, rf_files := move 0 (Suc 0) m, rf_size := 0\<rparr>) 0 = ''''" by (simp add: content_def mv)
  have rot: "rotate_file os r = (True, r1)"
    using assms(1,2) c0 by (simp add: rotate_file_def open_file_def well_def k m_def [symmetric] r1_def Let_def)
  have c: "content r1 (Suc i) = (if i < rf_maxFiles r then content r i else '''')" for i
    using assms(4) by (auto simp: r1_def content_def mv k)
  show ?thesis by (rule that [OF rot _ _ _ _ _ c]) (auto simp: r1_def content_def mv k)
qed

lemma history_cong:
  "rf_maxFiles r1 = rf_maxFiles r \<Longrightarrow> (\<And>i. content r1 i = content r i) \<Longrightarrow> history r1 = history r"
proof -
  assume "rf_maxFiles r1 = rf_maxFiles r" "\<And>i. content r1 i = content r i"
  then have "rf_maxFiles r1 = rf_maxFiles r" "content r1 = content r" by auto
  then show "history r1 = history r" by (simp add: history_def)
qed

lemma history_Suc: "history r = concat (map (content r) (rev [1 ..< Suc (rf_maxFiles r)])) @ content r 0"
proof -
  have "[0 ..< Suc (rf_maxFiles r)] = 0 # [1 ..< Suc (rf_maxFiles r)]" by (simp add: upt_rec)
  then show ?thesis unfolding history_def by simp
qed

lemma rotate_history:
  assumes "rf_maxFiles r1 = rf_maxFiles r" "content r1 0 = ''''" "\<And>i. content r1 (Suc i) = (if i < rf_maxFiles r then content r i else '''')"
    "0 < rf_maxFiles r"
  shows "history r = content r (rf_maxFiles r) @ history r1"
proof -
  let ?n = "rf_maxFiles r"
  have "map (content r1) [Suc 0 ..< Suc ?n] = map (\<lambda>i. content r1 (Suc i)) [0 ..< ?n]"
    by (simp only: map_Suc_upt [symmetric] map_map comp_def)
  also have "\<dots> = map (content r) [0 ..< ?n]" using assms(3) by simp
  finally have "map (content r1) (rev [1 ..< Suc ?n]) = map (content r) (rev [0 ..< ?n])" unfolding One_nat_def rev_map [symmetric] by (rule arg_cong)
  then have "history r1 = concat (map (content r) (rev [0 ..< ?n]))" using assms(1,2) by (simp add: history_Suc)
  then show ?thesis by (simp add: history_def)
qed

lemma write_history:
  assumes "file_inv longest r" "well os line" "length line < longest" "writeLine os line r = (ok, r1)"
  shows "ok \<and> file_inv longest r1 \<and> (\<exists>lost. history r @ line @ [CHR 0x0A] = lost @ history r1)"
proof -
  have inv: "rf_f r = Opened" "0 < rf_maxFiles r" "rf_size r = int (length (content r 0))"
      "\<And>i. int (length (content r i)) \<le> max (rf_maxBytes r) (int longest)" "\<forall>i > rf_maxFiles r. fmlookup (rf_files r) i = None"
    using assms(1) unfolding file_inv_def by blast+
  define fits where "fits q \<longleftrightarrow> int (length (content q 0)) + int (length line) + 1 \<le> max (rf_maxBytes q) (int longest)" for q
  have append: "ok \<and> file_inv longest r1 \<and> history q @ line @ [CHR 0x0A] = history r1"
    if q: "rf_f q = Opened" "0 < rf_maxFiles q" "rf_size q = int (length (content q 0))" "fits q"
      "\<And>i. int (length (content q i)) \<le> max (rf_maxBytes q) (int longest)" "\<forall>i > rf_maxFiles q. fmlookup (rf_files q) i = None"
      and w: "ok" "r1 = q\<lparr>rf_size := rf_size q + int (Suc (length line)), rf_files := fmupd 0 (content q 0 @ line @ [CHR 0x0A]) (rf_files q)\<rparr>" for q
  proof -
    have c: "content r1 i = (if i = 0 then content q 0 @ line @ [CHR 0x0A] else content q i)" for i by (simp add: w(2) content_def)
    have "map (content r1) (rev [1 ..< Suc (rf_maxFiles q)]) = map (content q) (rev [1 ..< Suc (rf_maxFiles q)])"
      by (rule map_cong [OF refl]) (auto simp: c)
    moreover have "rf_maxFiles r1 = rf_maxFiles q" by (simp add: w(2))
    ultimately have "history r1 = history q @ line @ [CHR 0x0A]" unfolding history_Suc by (simp only: c append_assoc if_True refl)
    moreover have "file_inv longest r1"
      unfolding file_inv_def using q by (auto simp: c fits_def) (simp_all add: w(2))
    ultimately show ?thesis using w(1) by simp
  qed
  have n: "min (oa_written os) (length (line @ [CHR 0x0A])) = Suc (length line)" using assms(2) by (simp add: well_def)
  show ?thesis
  proof (cases "rf_maxBytes r < rf_size r + int (length line) + 1 \<and> 0 < rf_size r")
    case False
    have "fits r" using False inv(3) assms(3) unfolding fits_def by auto
    moreover have "ok" "r1 = r\<lparr>rf_size := rf_size r + int (Suc (length line)), rf_files := fmupd 0 (content r 0 @ line @ [CHR 0x0A]) (rf_files r)\<rparr>"
      using assms(4) False inv(1) n by (auto simp: writeLine_def Let_def)
    ultimately have "ok \<and> file_inv longest r1 \<and> history r @ line @ [CHR 0x0A] = history r1" using append [of r] inv by blast
    then show ?thesis by (metis append_Nil)
  next
    case True
    obtain q where q: "rotate_file os r = (True, q)" "rf_f q = Opened" "rf_size q = 0" "rf_maxFiles q = rf_maxFiles r"
        "rf_maxBytes q = rf_maxBytes r" "content q 0 = ''''" "\<And>i. content q (Suc i) = (if i < rf_maxFiles r then content r i else '''')"
        "\<forall>i > rf_maxFiles q. fmlookup (rf_files q) i = None"
      using rotate_content [OF assms(2) inv(1,2,5)] by metis
    have "fits q" using assms(3) unfolding fits_def by (simp add: q(6))
    moreover have "int (length (content q i)) \<le> max (rf_maxBytes q) (int longest)" for i
      using inv(4) [of "i - 1"] by (cases i) (simp_all add: q(5,6,7))
    moreover have "ok" "r1 = q\<lparr>rf_size := rf_size q + int (Suc (length line)), rf_files := fmupd 0 (content q 0 @ line @ [CHR 0x0A]) (rf_files q)\<rparr>"
      using assms(4) True inv(1) n q(1,2) by (auto simp: writeLine_def Let_def)
    ultimately have "ok \<and> file_inv longest r1 \<and> history q @ line @ [CHR 0x0A] = history r1"
      using append [of q] q inv(2) by simp
    moreover have "history r = content r (rf_maxFiles r) @ history q" by (rule rotate_history [OF q(4,6,7) inv(2)])
    ultimately show ?thesis by (metis append_assoc)
  qed
qed

definition written :: "(os_answers \<times> string) list \<Rightarrow> string" where
  "written ws = concat (map (\<lambda>(os, line). line @ [CHR 0x0A]) ws)"

lemma write_all_history:
  "file_inv longest r \<Longrightarrow> list_all (\<lambda>(os, line). well os line \<and> length line < longest) ws \<Longrightarrow> write_all ws r = (oks, r') \<Longrightarrow>
     list_all (\<lambda>b. b) oks \<and> file_inv longest r' \<and> rf_maxBytes r' = rf_maxBytes r \<and> rf_maxFiles r' = rf_maxFiles r \<and>
     (\<exists>lost. history r @ written ws = lost @ history r')"
proof (induction ws arbitrary: r oks)
  case Nil
  then show ?case by (simp add: written_def)
next
  case (Cons a ws)
  obtain os line where a: "a = (os, line)" by (cases a)
  obtain ok r1 where w: "writeLine os line r = (ok, r1)" by fastforce
  obtain oks1 where ws: "write_all ws r1 = (oks1, r')" "oks = ok # oks1" using Cons.prems(3) w by (auto simp: a split: prod.splits)
  have ok: "well os line" "length line < longest" using Cons.prems(2) by (simp_all add: a)
  obtain lost where l: "ok" "file_inv longest r1" "history r @ line @ [CHR 0x0A] = lost @ history r1"
    using write_history [OF Cons.prems(1) ok w] by blast
  have same: "rf_maxBytes r1 = rf_maxBytes r \<and> rf_maxFiles r1 = rf_maxFiles r"
    using w by (auto simp: writeLine_def rotate_file_def open_file_def Let_def split: if_splits)
  have "list_all (\<lambda>(os, line). well os line \<and> length line < longest) ws" using Cons.prems(2) by simp
  from Cons.IH [OF l(2) this ws(1)] obtain lost' where
      IH: "list_all (\<lambda>b. b) oks1" "file_inv longest r'" "rf_maxBytes r' = rf_maxBytes r1" "rf_maxFiles r' = rf_maxFiles r1"
        "history r1 @ written ws = lost' @ history r'" by blast
  have "history r @ written (a # ws) = (history r @ line @ [CHR 0x0A]) @ written ws" by (simp add: written_def a)
  also have "\<dots> = lost @ history r1 @ written ws" unfolding l(3) by simp
  also have "\<dots> = (lost @ lost') @ history r'" unfolding IH(5) by simp
  finally show ?case using IH l(1) same ws(2) by auto
qed

text \<open>
  C21. While the system calls succeed, every line is accepted and the files hold the most recent past: read from the
  oldest to the live one they are a suffix of all that was written, no file is larger than the configured size
  unless a single line is, and there are at most the configured number of old files.
\<close>

theorem files_hold_recent_past:
  assumes "newRotatingFile os maxSizeMb maxFiles fmempty = (True, r0)" "oa_stat os"
    and "list_all (\<lambda>(os, line). well os line \<and> length line < longest) ws" and "write_all ws r0 = (oks, r)"
  shows "list_all (\<lambda>b. b) oks \<and> (\<exists>lost. written ws = lost @ history r) \<and>
    int (length (content r i)) \<le> max (rf_maxBytes r0) (int longest) \<and>
    (nat (if maxFiles \<le> 0 then 5 else maxFiles) < i \<longrightarrow> fmlookup (rf_files r) i = None)"
proof -
  have r0: "rf_f r0 = Opened" "rf_size r0 = 0" "rf_files r0 = fmupd 0 '''' fmempty" "rf_maxFiles r0 = nat (if maxFiles \<le> 0 then 5 else maxFiles)"
    using assms(1,2) by (auto simp: newRotatingFile_def open_file_def content_def defaultMaxFiles_def Let_def split: if_splits)
  have c: "content r0 j = ''''" for j by (simp add: content_def r0(3))
  have inv: "file_inv longest r0" unfolding file_inv_def using r0 c by auto
  have h: "history r0 = ''''" by (simp add: history_def c concat_eq_Nil_conv del: upt_Suc)
  note w = write_all_history [OF inv assms(3,4)]
  have "written ws = history r0 @ written ws" using h by simp
  then show ?thesis using w r0(4) unfolding file_inv_def by auto
qed

theorem files_hold_recent_past_witness:
  "\<exists>oks r. write_all [(all_well, ''ab''), (all_well, ''cd'')] (snd (newRotatingFile all_well 1 2 fmempty)) = (oks, r) \<and> list_all (\<lambda>b. b) oks"
proof -
  obtain oks r where w: "write_all [(all_well, ''ab''), (all_well, ''cd'')] (snd (newRotatingFile all_well 1 2 fmempty)) = (oks, r)" by fastforce
  have "newRotatingFile all_well 1 2 fmempty = (True, snd (newRotatingFile all_well 1 2 fmempty))"
    by (simp add: newRotatingFile_def open_file_def all_well_def Let_def)
  from files_hold_recent_past [OF this _ _ w, of 5] have "list_all (\<lambda>b. b) oks" by (simp add: all_well_def well_def)
  with w show ?thesis by blast
qed

end
