(* ===== verification/Audit_Trail.thy ===== *)
theory Audit_Trail
  imports Audit_Delivery Audit_File
begin

section \<open>Building the audit logger\<close>

text \<open>
  The logger of src/audit/audit.go and the mapping of src/audit/otlp.go: which sinks are built from the
  configuration, the guard \<^verbatim>\<open>requireDurable\<close> asks for, what the scrub withholds, and how an event is rendered and
  accounted for over OTLP. The environment, the host name, which paths open and whether the exporter can be
  built are arguments.
\<close>

subsection \<open>Sinks\<close>

datatype built_sink =
    StdoutSink
  | WebhookSink string "(string \<times> string) list" retryPolicy bool
  | OTLPSink string retryPolicy bool
  | FileSink string

record logger =
  lg_sinks :: "built_sink list"
  lg_scrub :: "AuditScrub option"
  lg_startupErrs :: "string list"
  lg_instance :: string
  lg_requireDurable :: bool
  lg_durable :: bool

record startup =
  su_getenv :: "string \<Rightarrow> string"
  su_hostname :: "string option"
  su_opens :: "string \<Rightarrow> bool"
  su_exporter :: "string \<Rightarrow> bool"
  su_trim :: "string \<Rightarrow> string"

definition resolveInstance :: "startup \<Rightarrow> string" where
  "resolveInstance S =
     (let v = su_trim S (su_getenv S ''FOLD_INSTANCE_ID'') in
      if v \<noteq> '''' then v else case su_hostname S of Some h \<Rightarrow> h | None \<Rightarrow> '''')"

definition webhookHeaders :: "startup \<Rightarrow> AuditSink \<Rightarrow> string + (string \<times> string) list" where
  "webhookHeaders S s =
     (if sk_BearerSecretRef s = '''' then Inr (sk_Headers s)
      else let token = su_getenv S (sk_BearerSecretRef s) in
           if token = '''' then Inl ''bearerSecretRef: environment variable is empty''
           else Inr (AList.update ''Authorization'' (''Bearer '' @ token) (sk_Headers s)))"

text \<open>One sink: what is built, if anything, and the errors; the flag of a delivering sink tells that its dead-letter file is open.\<close>

definition dead_letter :: "startup \<Rightarrow> AuditSink \<Rightarrow> bool \<times> string list" where
  "dead_letter S s =
     (if sk_DeadLetterPath s = '''' then (False, [])
      else if su_opens S (sk_DeadLetterPath s) then (True, []) else (False, [''dead letter: '' @ sk_DeadLetterPath s]))"

definition build_sink :: "startup \<Rightarrow> AuditSink \<Rightarrow> built_sink option \<times> string list" where
  "build_sink S s =
     (if sk_Type s = ''stdout'' then (Some StdoutSink, [])
      else if sk_Type s = ''webhook'' then
        (case webhookHeaders S s of
           Inl e \<Rightarrow> (None, [e])
         | Inr hs \<Rightarrow> (case dead_letter S s of (dl, errs) \<Rightarrow> (Some (WebhookSink (sk_URL s) hs (resolveRetry (sk_Retry s)) dl), errs)))
      else if sk_Type s = ''otlp-logs'' then
        (case dead_letter S s of (dl, errs) \<Rightarrow>
           if su_exporter S (sk_URL s) then (Some (OTLPSink (sk_URL s) (resolveRetry (sk_Retry s)) dl), errs)
           else (None, errs @ [''otlp exporter'']))
      else if sk_Type s = ''file'' then
        (if su_opens S (sk_Path s) then (Some (FileSink (sk_Path s)), []) else (None, [''audit file sink: '' @ sk_Path s]))
      else (None, []))"

definition add_sink :: "startup \<Rightarrow> AuditSink \<Rightarrow> logger \<Rightarrow> logger" where
  "add_sink S s l =
     (case build_sink S s of
        (None, errs) \<Rightarrow> l\<lparr>lg_startupErrs := lg_startupErrs l @ errs\<rparr>
      | (Some b, errs) \<Rightarrow>
          l\<lparr>lg_sinks := lg_sinks l @ [b], lg_startupErrs := lg_startupErrs l @ errs, lg_durable := lg_durable l \<or> Durable s\<rparr>)"

definition New_logger :: "startup \<Rightarrow> Audit option \<Rightarrow> logger option" where
  "New_logger S cfg =
     (case cfg of
        None \<Rightarrow> None
      | Some a \<Rightarrow>
          if ad_Sinks a = [] then None
          else Some (fold (add_sink S) (ad_Sinks a)
                 \<lparr>lg_sinks = [], lg_scrub = ad_Scrub a, lg_startupErrs = [], lg_instance = resolveInstance S,
                  lg_requireDurable = ad_RequireDurable a, lg_durable = False\<rparr>))"

definition DurabilityError :: "logger option \<Rightarrow> string list option" where
  "DurabilityError ol =
     (case ol of
        None \<Rightarrow> None
      | Some l \<Rightarrow>
          if \<not> lg_requireDurable l \<or> lg_durable l then None
          else Some (''audit.requireDurable is set but no durable sink was started'' # lg_startupErrs l))"

text \<open>Whether a built sink has a place on disk for what it cannot deliver.\<close>

fun keeps :: "built_sink \<Rightarrow> bool" where
  "keeps StdoutSink = False"
| "keeps (WebhookSink _ _ _ dl) = dl"
| "keeps (OTLPSink _ _ dl) = dl"
| "keeps (FileSink _) = True"

subsection \<open>Scrubbing\<close>

text \<open>
  The scrub touches two fields: the usage an upstream reported, of which a copy is edited, and the error text.
\<close>

definition scrubEvent :: "AuditScrub option \<Rightarrow> json_map option \<Rightarrow> string \<Rightarrow> json_map option \<times> string" where
  "scrubEvent os usage err =
     (case os of
        None \<Rightarrow> (usage, err)
      | Some sc \<Rightarrow>
          (map_option (fold fmdrop (sc_RedactUsageKeys sc)) usage,
           if 0 < sc_MaxErrorLength sc \<and> sc_MaxErrorLength sc < int (length err) then take (nat (sc_MaxErrorLength sc)) err else err))"

lemma fold_fmdrop_lookup: "fmlookup (fold fmdrop ks m) k = (if k \<in> set ks then None else fmlookup m k)"
  by (induction ks arbitrary: m) auto

lemma scrub_withholds:
  assumes "scrubEvent (Some sc) (Some usage) err = (Some usage', err')"
  shows "fmlookup usage' k = (if k \<in> set (sc_RedactUsageKeys sc) then None else fmlookup usage k) \<and> prefix err' err \<and>
    (0 < sc_MaxErrorLength sc \<longrightarrow> int (length err') \<le> sc_MaxErrorLength sc)"
  using assms by (auto simp: scrubEvent_def fold_fmdrop_lookup take_is_prefix split: if_splits)

subsection \<open>OpenTelemetry records\<close>

fun outcome_name :: "Outcome \<Rightarrow> string" where
  "outcome_name OutcomeNone = ''''"
| "outcome_name OutcomeOK = ''ok''"
| "outcome_name OutcomeError = ''error''"
| "outcome_name OutcomeDenied = ''denied''"
| "outcome_name OutcomeRateLimited = ''rate_limited''"
| "outcome_name OutcomeUnauthenticated = ''unauthenticated''"
| "outcome_name OutcomeUpstreamDown = ''upstream_down''"
| "outcome_name OutcomeForbidden = ''forbidden''"
| "outcome_name OutcomeBudgetExhausted = ''budget_exhausted''"
| "outcome_name OutcomeWarned = ''warned''"
| "outcome_name OutcomeHookDenied = ''hook_denied''"

definition arrow :: string where
  "arrow = [CHR '' '', char_of (0xE2::nat), char_of (0x86::nat), char_of (0x92::nat), CHR '' '']"

definition summarize :: "Event \<Rightarrow> string" where
  "summarize e =
     e_Method e @ (if e_Name e \<noteq> '''' then '' '' @ e_Name e else '''') @
     (if e_Outcome e \<noteq> OutcomeNone then arrow @ outcome_name (e_Outcome e) else '''')"

definition severityFor :: "Outcome \<Rightarrow> string" where
  "severityFor out =
     (if out \<in> {OutcomeError, OutcomeUpstreamDown} then ''ERROR''
      else if out \<in> {OutcomeDenied, OutcomeRateLimited, OutcomeBudgetExhausted, OutcomeForbidden, OutcomeUnauthenticated} then ''WARN''
      else ''INFO'')"

text \<open>The string attributes of a record; \<open>text_of\<close> renders an error.\<close>

definition otlpAttributes :: "(wire_error \<Rightarrow> string) \<Rightarrow> Event \<Rightarrow> (string \<times> string) list" where
  "otlpAttributes text_of e =
     (''mcp.method'', e_Method e) #
     filter (\<lambda>(k, v). v \<noteq> '''')
       [(''mcp.name'', e_Name e), (''fold.upstream'', e_Upstream e), (''fold.outcome'', outcome_name (e_Outcome e)),
        (''fold.policy.decision'', e_Decision e), (''fold.policy.rule'', e_RuleID e), (''fold.tenant'', e_Tenant e),
        (''enduser.id'', e_Principal e), (''enduser.issuer'', e_Issuer e),
        (''error.message'', case e_Error e of None \<Rightarrow> '''' | Some err \<Rightarrow> text_of err)]"

text \<open>The exporter's accounting: the export answers whether the batch arrived.\<close>

definition Export :: "bool \<Rightarrow> (Event \<Rightarrow> bool) option \<Rightarrow> Event list \<Rightarrow> reports" where
  "Export arrived dead records =
     (if arrived then [(Delivered, length records)]
      else case dead of Some kept \<Rightarrow> dead_write kept records | None \<Rightarrow> [(Dropped, length records)])"

lemma Export_counts: "counted (Export arrived dead records) = length records"
  by (simp add: Export_def counted_dead split: option.splits)

subsection \<open>The durability guard\<close>

lemma add_sinks:
  "lg_durable (fold (add_sink S) ss l) \<longleftrightarrow> lg_durable l \<or> (\<exists>s \<in> set ss. Durable s \<and> fst (build_sink S s) \<noteq> None)"
  "set (lg_sinks (fold (add_sink S) ss l)) = set (lg_sinks l) \<union> {b. \<exists>s \<in> set ss. fst (build_sink S s) = Some b}"
  "lg_requireDurable (fold (add_sink S) ss l) = lg_requireDurable l"
  by (induction ss arbitrary: l) (auto simp: add_sink_def split: prod.splits option.splits)

text \<open>
  C22. The guard refuses a logger without any sink that keeps what it cannot deliver, with one exception: it credits a webhook or an OTLP
  sink for its configured dead-letter path even when that file could not be opened, so a logger whose only
  such sink lost its dead-letter file passes, and keeps nothing.
\<close>

theorem durability_guard_blind_to_dead_letter:
  assumes "New_logger S (Some a) = Some l" "ad_RequireDurable a"
  shows "(DurabilityError (Some l) \<noteq> None \<longrightarrow> \<not> (\<exists>b \<in> set (lg_sinks l). keeps b)) \<and>
    (DurabilityError (Some l) = None \<and> \<not> (\<exists>b \<in> set (lg_sinks l). keeps b) \<longleftrightarrow>
      (\<forall>b \<in> set (lg_sinks l). \<not> keeps b) \<and>
      (\<exists>s \<in> set (ad_Sinks a). (sk_Type s = ''webhook'' \<or> sk_Type s = ''otlp-logs'') \<and> sk_DeadLetterPath s \<noteq> '''' \<and>
         \<not> su_opens S (sk_DeadLetterPath s) \<and> fst (build_sink S s) \<noteq> None))"
proof -
  define l0 where "l0 = \<lparr>lg_sinks = [], lg_scrub = ad_Scrub a, lg_startupErrs = [], lg_instance = resolveInstance S,
                  lg_requireDurable = ad_RequireDurable a, lg_durable = False\<rparr>"
  have l: "l = fold (add_sink S) (ad_Sinks a) l0" using assms(1) by (simp add: New_logger_def l0_def split: if_splits)
  have dur: "lg_durable l \<longleftrightarrow> (\<exists>s \<in> set (ad_Sinks a). Durable s \<and> fst (build_sink S s) \<noteq> None)"
    and sinks: "set (lg_sinks l) = {b. \<exists>s \<in> set (ad_Sinks a). fst (build_sink S s) = Some b}" and req: "lg_requireDurable l"
    unfolding l add_sinks using assms(2) by (simp_all add: l0_def)
  have keeps_durable: "Durable s" if "fst (build_sink S s) = Some b" "keeps b" for s b
    using that by (auto simp: build_sink_def dead_letter_def Durable_def split: if_splits sum.splits prod.splits)
  have durable_keeps: "keeps b \<or> (sk_Type s = ''webhook'' \<or> sk_Type s = ''otlp-logs'') \<and> sk_DeadLetterPath s \<noteq> '''' \<and> \<not> su_opens S (sk_DeadLetterPath s)"
    if "fst (build_sink S s) = Some b" "Durable s" for s b
    using that by (auto simp: build_sink_def dead_letter_def Durable_def split: if_splits sum.splits prod.splits)
  have unopened: "Durable s" if "sk_Type s = ''webhook'' \<or> sk_Type s = ''otlp-logs''" "sk_DeadLetterPath s \<noteq> ''''" for s
    using that by (auto simp: Durable_def)
  have err: "DurabilityError (Some l) = None \<longleftrightarrow> lg_durable l" using req by (simp add: DurabilityError_def)
  show ?thesis unfolding err dur sinks using keeps_durable durable_keeps unopened by blast
qed

definition no_disk :: startup where
  "no_disk = \<lparr>su_getenv = (\<lambda>_. ''''), su_hostname = None, su_opens = (\<lambda>_. False), su_exporter = (\<lambda>_. True), su_trim = id\<rparr>"

definition webhook_only :: Audit where
  "webhook_only =
     \<lparr>ad_Sinks = [\<lparr>sk_Type = ''webhook'', sk_URL = ''https://siem'', sk_Headers = [], sk_BearerSecretRef = '''', sk_Path = '''',
        sk_MaxSizeMb = 0, sk_MaxFiles = 0, sk_Retry = None, sk_DeadLetterPath = ''/var/dead''\<rparr>],
      ad_Scrub = None, ad_RequireDurable = True\<rparr>"

theorem durability_guard_blind_to_dead_letter_witness:
  "\<exists>l. New_logger no_disk (Some webhook_only) = Some l \<and> DurabilityError (Some l) = None \<and> (\<forall>b \<in> set (lg_sinks l). \<not> keeps b)"
proof -
  obtain l where l: "New_logger no_disk (Some webhook_only) = Some l" by (simp add: New_logger_def webhook_only_def)
  have none: "\<forall>b \<in> set (lg_sinks l). \<not> keeps b"
    using l by (auto simp: New_logger_def webhook_only_def no_disk_def add_sink_def build_sink_def webhookHeaders_def dead_letter_def)
  have "DurabilityError (Some l) = None"
    using durability_guard_blind_to_dead_letter [OF l] none
    by (auto simp: webhook_only_def no_disk_def build_sink_def webhookHeaders_def dead_letter_def)
  with l none show ?thesis by blast
qed

end
