(* ===== verification/Auth_Keys.thy ===== *)
theory Auth_Keys
  imports Pagination
begin

section \<open>The key sets of the token issuers\<close>

text \<open>
  The JWKS cache of src/auth/jwks.go: reading a key set, looking a key up, and when a set is fetched. A key set is
  the association list of identifiers and public keys, distinct identifiers, in the order they were first
  seen. What a fetch answers is an argument; the fetches of one URI are serialized by its gate, so the part of
  \<^verbatim>\<open>key\<close> behind the gate is one operation, and the lookup in front of it only reads.

  The lemmas show how far apart fetches are, that a stale set is only served when the issuer could not be asked,
  and what becomes of a withdrawn key.
\<close>

subsection \<open>Reading a key set\<close>

record JWK =
  jk_kty :: string
  jk_kid :: string
  jk_use :: string
  jk_n :: string
  jk_e :: string
  jk_crv :: string
  jk_x :: string
  jk_y :: string

datatype publicKey =
    RSAKey nat int
  | ECKey string nat nat
  | OKPKey string

text \<open>\<open>big.Int.SetBytes\<close>: big-endian.\<close>

definition setBytes :: "string \<Rightarrow> nat" where
  "setBytes bs = foldl (\<lambda>n b. n * 256 + of_char b) 0 bs"

definition parseJWK :: "JWK \<Rightarrow> (string \<times> publicKey) option" where
  "parseJWK j =
     (if jk_use j \<noteq> '''' \<and> jk_use j \<noteq> ''sig'' then None
      else if jk_kty j = ''RSA'' then
        (case b64_decode (jk_n j) of
           None \<Rightarrow> None
         | Some n \<Rightarrow> (case b64_decode (jk_e j) of
                        None \<Rightarrow> None
                      | Some e \<Rightarrow> Some (jk_kid j, RSAKey (setBytes n) (wrap64 (int (setBytes e))))))
      else if jk_kty j = ''EC'' then
        (if jk_crv j \<notin> {''P-256'', ''P-384'', ''P-521''} then None
         else (case b64_decode (jk_x j) of
                 None \<Rightarrow> None
               | Some x \<Rightarrow> (case b64_decode (jk_y j) of
                              None \<Rightarrow> None
                            | Some y \<Rightarrow> Some (jk_kid j, ECKey (jk_crv j) (setBytes x) (setBytes y)))))
      else if jk_kty j = ''OKP'' then
        (if jk_crv j \<noteq> ''Ed25519'' then None
         else (case b64_decode (jk_x j) of None \<Rightarrow> None | Some x \<Rightarrow> Some (jk_kid j, OKPKey x)))
      else None)"

type_synonym keySet = "(string \<times> publicKey) list"

text \<open>
  The answer to a request: none, or a status and the decoded document, whose members are \<open>None\<close> where they
  do not decode; a body that is no document at all is \<open>None\<close>.
\<close>

datatype jwksReply = NoReply | Reply int "JWK option list option"

definition read_keys :: "JWK option list \<Rightarrow> keySet" where
  "read_keys docs =
     fold (\<lambda>d ks. case Option.bind d parseJWK of None \<Rightarrow> ks | Some (kid, k) \<Rightarrow> AList.update kid k ks) docs []"

definition fetch :: "jwksReply \<Rightarrow> keySet option" where
  "fetch r =
     (case r of
        NoReply \<Rightarrow> None
      | Reply status body \<Rightarrow>
          if status \<noteq> 200 then None
          else (case body of None \<Rightarrow> None | Some docs \<Rightarrow> let ks = read_keys docs in if ks = [] then None else Some ks))"

definition lookup_key :: "keySet \<Rightarrow> string \<Rightarrow> publicKey option" where
  "lookup_key ks kid =
     (case map_of ks kid of
        Some k \<Rightarrow> Some k
      | None \<Rightarrow> if kid = '''' then (case ks of [(_, k)] \<Rightarrow> Some k | _ \<Rightarrow> None) else None)"

subsection \<open>The cache\<close>

definition refetchHoldoff :: duration where "refetchHoldoff = 30 * second"
definition jwksTTL :: duration where "jwksTTL = 5 * minute"

record jwksEntry =
  je_keys :: keySet
  je_fetched :: time
  je_refreshAt :: time
  je_noFetchBefore :: time

type_synonym jwksCache = "(string, jwksEntry) fmap"

datatype keyError = FetchFailed | NoKey string

definition freshKey :: "string \<Rightarrow> string \<Rightarrow> time \<Rightarrow> jwksCache \<Rightarrow> publicKey option" where
  "freshKey uri kid now c =
     (case fmlookup c uri of
        None \<Rightarrow> None
      | Some e \<Rightarrow> if now < je_refreshAt e then lookup_key (je_keys e) kid else None)"

text \<open>
  Behind the gate. The result, the cache, and what was observed of a fetch: \<open>None\<close> when there was none,
  otherwise its outcome. The clock is read once before the fetch and once after it.
\<close>

datatype observed = Ok | Error | Stale

definition key_gated ::
  "string \<Rightarrow> string \<Rightarrow> time \<Rightarrow> time \<Rightarrow> jwksReply \<Rightarrow> jwksCache \<Rightarrow> (keyError + publicKey) \<times> jwksCache \<times> observed option" where
  "key_gated uri kid now later reply c =
     (let answer = (\<lambda>ks. case lookup_key ks kid of Some k \<Rightarrow> Inr k | None \<Rightarrow> Inl (NoKey kid)) in
      case freshKey uri kid now c of
        Some k \<Rightarrow> (Inr k, c, None)
      | None \<Rightarrow>
          (case fmlookup c uri of
             None \<Rightarrow>
               (case fetch reply of
                  None \<Rightarrow> (Inl FetchFailed, c, Some Error)
                | Some ks \<Rightarrow>
                    (answer ks,
                     fmupd uri \<lparr>je_keys = ks, je_fetched = later, je_refreshAt = later + jwksTTL, je_noFetchBefore = later + refetchHoldoff\<rparr> c,
                     Some Ok))
           | Some e \<Rightarrow>
               if now < je_noFetchBefore e then (answer (je_keys e), c, None)
               else (case fetch reply of
                       None \<Rightarrow> (answer (je_keys e), fmupd uri (e\<lparr>je_noFetchBefore := later + refetchHoldoff\<rparr>) c, Some Stale)
                     | Some ks \<Rightarrow>
                         (answer ks,
                          fmupd uri \<lparr>je_keys = ks, je_fetched = later, je_refreshAt = later + jwksTTL, je_noFetchBefore = later + refetchHoldoff\<rparr> c,
                          Some Ok))))"

definition key ::
  "string \<Rightarrow> string \<Rightarrow> time \<Rightarrow> time \<Rightarrow> jwksReply \<Rightarrow> jwksCache \<Rightarrow> (keyError + publicKey) \<times> jwksCache \<times> observed option" where
  "key uri kid now later reply c =
     (case freshKey uri kid now c of Some k \<Rightarrow> (Inr k, c, None) | None \<Rightarrow> key_gated uri kid now later reply c)"

lemma key_eq: "key uri kid now later reply c = key_gated uri kid now later reply c"
  by (simp add: key_def key_gated_def Let_def split: option.splits)

subsection \<open>Runs of lookups\<close>

text \<open>A call: the key identifier, the clock before and after, and the reply a fetch would get. The list \<open>fs\<close> is of the fetches made.\<close>

record call =
  ca_kid :: string
  ca_now :: time
  ca_later :: time
  ca_reply :: jwksReply

fun key_run :: "string \<Rightarrow> call list \<Rightarrow> jwksCache \<Rightarrow> (call \<times> observed) list \<times> jwksCache" where
  "key_run uri [] c = ([], c)"
| "key_run uri (x # xs) c =
     (case key uri (ca_kid x) (ca_now x) (ca_later x) (ca_reply x) c of
        (_, c1, obs) \<Rightarrow>
          (case key_run uri xs c1 of (fs, c2) \<Rightarrow> (case obs of None \<Rightarrow> fs | Some ob \<Rightarrow> (x, ob) # fs, c2)))"

text \<open>Calls in the order of time.\<close>

fun ordered :: "time \<Rightarrow> call list \<Rightarrow> bool" where
  "ordered t [] = True"
| "ordered t (x # xs) \<longleftrightarrow> t \<le> ca_now x \<and> ca_now x \<le> ca_later x \<and> ordered (ca_later x) xs"

fun spaced :: "time \<Rightarrow> (call \<times> observed) list \<Rightarrow> bool" where
  "spaced t [] = True"
| "spaced t ((x, ob) # fs) \<longleftrightarrow> t \<le> ca_now x \<and> spaced (ca_later x + refetchHoldoff) fs"

lemma key_holds:
  assumes "key uri kid now later reply c = (r, c1, obs)" "fmlookup c uri = Some e"
  shows "\<exists>e1. fmlookup c1 uri = Some e1 \<and>
    (case obs of None \<Rightarrow> c1 = c | Some _ \<Rightarrow> je_noFetchBefore e \<le> now \<and> je_noFetchBefore e1 = later + refetchHoldoff)"
  using assms by (auto simp: key_eq key_gated_def Let_def split: option.splits if_splits)

lemma run_spaced:
  "fmlookup c uri = Some e \<Longrightarrow> key_run uri xs c = (fs, c2) \<Longrightarrow> spaced (je_noFetchBefore e) fs \<and> (\<exists>e2. fmlookup c2 uri = Some e2)"
proof (induction xs arbitrary: c e fs)
  case (Cons x xs)
  obtain r c1 obs where k: "key uri (ca_kid x) (ca_now x) (ca_later x) (ca_reply x) c = (r, c1, obs)" by (metis prod_cases3)
  obtain fs1 where run: "key_run uri xs c1 = (fs1, c2)" "fs = (case obs of None \<Rightarrow> fs1 | Some ob \<Rightarrow> (x, ob) # fs1)"
    using Cons.prems(2) k by (auto split: prod.splits)
  obtain e1 where e1: "fmlookup c1 uri = Some e1"
      "case obs of None \<Rightarrow> c1 = c | Some _ \<Rightarrow> je_noFetchBefore e \<le> ca_now x \<and> je_noFetchBefore e1 = ca_later x + refetchHoldoff"
    using key_holds [OF k Cons.prems(1)] by blast
  show ?case using Cons.IH [OF e1(1) run(1)] e1 Cons.prems(1) run(2) by (cases obs) auto
qed auto

subsection \<open>When a set is fetched\<close>

lemma spaced_sorted:
  "spaced t fs \<Longrightarrow> list_all (\<lambda>(x, _). ca_now x \<le> ca_later x) fs \<Longrightarrow>
     sorted_wrt (\<lambda>(x, _) (y, _). ca_later x + refetchHoldoff \<le> ca_now y) fs \<and> list_all (\<lambda>(x, _). t \<le> ca_now x) fs"
proof (induction t fs rule: spaced.induct)
  case (2 t x ob fs)
  have IH: "sorted_wrt (\<lambda>(x, _) (y, _). ca_later x + refetchHoldoff \<le> ca_now y) fs"
      "list_all (\<lambda>(y, _). ca_later x + refetchHoldoff \<le> ca_now y) fs" using 2 by simp_all
  moreover have "t \<le> ca_later x + refetchHoldoff" using 2(2,3) by (simp add: refetchHoldoff_def)
  then have "list_all (\<lambda>(y, _). t \<le> ca_now y) fs" using IH(2) by (auto simp: list_all_iff)
  ultimately show ?case using 2(2) by (auto simp: list_all_iff)
qed simp

lemma run_calls: "key_run uri xs c = (fs, c2) \<Longrightarrow> fst ` set fs \<subseteq> set xs"
  by (induction xs arbitrary: c fs) (fastforce split: prod.splits option.splits)+

lemma ordered_le: "ordered t xs \<Longrightarrow> x \<in> set xs \<Longrightarrow> t \<le> ca_now x \<and> ca_now x \<le> ca_later x"
  by (induction t xs rule: ordered.induct) auto

text \<open>
  C32. Once a key set is held, its issuer is asked at most once in thirty seconds, however many tokens with unknown keys arrive and
  however its answers fail: of two fetches of one URI the later starts at least that long after the end of the earlier.
\<close>

theorem fetches_spaced:
  assumes "fmlookup c uri = Some e" "ordered t xs" "key_run uri xs c = (fs, c2)"
  shows "sorted_wrt (\<lambda>(x, _) (y, _). ca_later x + 30 * second \<le> ca_now y) fs \<and>
    list_all (\<lambda>(x, _). je_noFetchBefore e \<le> ca_now x) fs"
proof -
  have "list_all (\<lambda>(x, _). ca_now x \<le> ca_later x) fs"
    using run_calls [OF assms(3)] ordered_le [OF assms(2)] by (fastforce simp: list_all_iff)
  then show ?thesis
    using spaced_sorted [OF conjunct1 [OF run_spaced [OF assms(1,3)]]] by (simp add: refetchHoldoff_def)
qed

text \<open>Without a held set nothing spaces the fetches: every call while the issuer cannot be reached is one.\<close>

lemma cold_failures_unspaced:
  "list_all (\<lambda>x. fetch (ca_reply x) = None) xs \<Longrightarrow> key_run uri xs fmempty = (map (\<lambda>x. (x, Error)) xs, fmempty)"
  by (induction xs) (simp_all add: key_eq key_gated_def freshKey_def Let_def)

subsection \<open>Which keys verify tokens\<close>

definition cache_inv :: "string \<Rightarrow> (call \<times> observed) list \<Rightarrow> jwksCache \<Rightarrow> bool" where
  "cache_inv uri fs c \<longleftrightarrow>
     (\<forall>e. fmlookup c uri = Some e \<longrightarrow>
        je_refreshAt e = je_fetched e + jwksTTL \<and>
        (\<exists>y. (y, Ok) \<in> set fs \<and> fetch (ca_reply y) = Some (je_keys e) \<and> je_fetched e = ca_later y) \<and>
        (je_noFetchBefore e = je_fetched e + refetchHoldoff \<or>
         (\<exists>z. (z, Stale) \<in> set fs \<and> je_noFetchBefore e = ca_later z + refetchHoldoff)))"

definition logged :: "call \<Rightarrow> observed option \<Rightarrow> (call \<times> observed) list" where
  "logged x obs = (case obs of None \<Rightarrow> [] | Some ob \<Rightarrow> [(x, ob)])"

text \<open>Where a key comes from: a set the issuer served, younger than the lifetime unless a refresh failed in the last half minute.\<close>

definition sourced :: "call \<Rightarrow> publicKey \<Rightarrow> (call \<times> observed) list \<Rightarrow> bool" where
  "sourced x k fs \<longleftrightarrow>
     (\<exists>y ks. (y, Ok) \<in> set fs \<and> fetch (ca_reply y) = Some ks \<and> lookup_key ks (ca_kid x) = Some k \<and>
        (ca_now x < ca_later y + jwksTTL \<or> (\<exists>z. (z, Stale) \<in> set fs \<and> ca_now x < ca_later z + refetchHoldoff)))"

text \<open>The two facts of an entry just stored.\<close>

lemma stored_inv:
  assumes "fetch (ca_reply x) = Some ks"
  shows "cache_inv uri (fs @ [(x, Ok)]) (fmupd uri \<lparr>je_keys = ks, je_fetched = ca_later x, je_refreshAt = ca_later x + jwksTTL,
    je_noFetchBefore = ca_later x + refetchHoldoff\<rparr> c)"
  using assms by (auto simp: cache_inv_def intro!: exI [of _ x])

lemma stored_sourced:
  assumes "fetch (ca_reply x) = Some ks" "lookup_key ks (ca_kid x) = Some k" "ca_now x \<le> ca_later x"
  shows "sourced x k (fs @ [(x, Ok)])"
  unfolding sourced_def using assms by (intro exI [of _ x] exI [of _ ks]) (simp add: jwksTTL_def)

lemma ordered_last: "ordered t (xs @ [x]) \<Longrightarrow> ordered t xs \<and> ca_now x \<le> ca_later x"
  by (induction xs arbitrary: t) auto

lemma key_step:
  assumes inv: "cache_inv uri fs c" and k: "key uri (ca_kid x) (ca_now x) (ca_later x) (ca_reply x) c = (r, c1, obs)"
    and t: "ca_now x \<le> ca_later x"
  shows "cache_inv uri (fs @ logged x obs) c1 \<and> (\<forall>key. r = Inr key \<longrightarrow> sourced x key (fs @ logged x obs))"
proof (cases "fmlookup c uri")
  case None
  show ?thesis
  proof (cases "fetch (ca_reply x)")
    case None
    then show ?thesis using k \<open>fmlookup c uri = None\<close>
      by (auto simp: key_eq key_gated_def freshKey_def cache_inv_def logged_def)
  next
    case (Some ks)
    then have c1: "obs = Some Ok" "c1 = fmupd uri \<lparr>je_keys = ks, je_fetched = ca_later x, je_refreshAt = ca_later x + jwksTTL,
          je_noFetchBefore = ca_later x + refetchHoldoff\<rparr> c"
        and r: "r = (case lookup_key ks (ca_kid x) of Some k \<Rightarrow> Inr k | None \<Rightarrow> Inl (NoKey (ca_kid x)))"
      using k None by (simp_all add: key_eq key_gated_def freshKey_def Let_def)
    have "cache_inv uri (fs @ logged x obs) c1" using stored_inv [OF Some] by (simp add: c1 logged_def)
    moreover have "sourced x key (fs @ logged x obs)" if "lookup_key ks (ca_kid x) = Some key" for key
      using stored_sourced [OF Some that t] by (simp add: c1 logged_def)
    ultimately show ?thesis using r by (auto split: option.splits)
  qed
next
  case (Some e)
  obtain y where e: "je_refreshAt e = je_fetched e + jwksTTL" "(y, Ok) \<in> set fs" "fetch (ca_reply y) = Some (je_keys e)"
      "je_fetched e = ca_later y"
      "je_noFetchBefore e = je_fetched e + refetchHoldoff \<or> (\<exists>z. (z, Stale) \<in> set fs \<and> je_noFetchBefore e = ca_later z + refetchHoldoff)"
    using inv Some unfolding cache_inv_def by blast
  have mono: "sourced x key (fs @ more)" if "sourced x key fs" for key more using that unfolding sourced_def by auto
  have held: "sourced x key fs" if "lookup_key (je_keys e) (ca_kid x) = Some key"
      "ca_now x < je_refreshAt e \<or> ca_now x < je_noFetchBefore e" for key
  proof -
    have "ca_now x < ca_later y + jwksTTL \<or> (\<exists>z. (z, Stale) \<in> set fs \<and> ca_now x < ca_later z + refetchHoldoff)"
      using that(2) e by (auto simp: jwksTTL_def refetchHoldoff_def)
    then show ?thesis unfolding sourced_def using e(2,3) that(1) by blast
  qed
  have same: "cache_inv uri (fs @ logged x None) c" using inv by (simp add: logged_def)
  consider (fresh) key where "freshKey uri (ca_kid x) (ca_now x) c = Some key"
    | (off) "freshKey uri (ca_kid x) (ca_now x) c = None" "ca_now x < je_noFetchBefore e"
    | (stale) "freshKey uri (ca_kid x) (ca_now x) c = None" "\<not> ca_now x < je_noFetchBefore e" "fetch (ca_reply x) = None"
    | (new) ks where "freshKey uri (ca_kid x) (ca_now x) c = None" "\<not> ca_now x < je_noFetchBefore e" "fetch (ca_reply x) = Some ks"
    by (cases "freshKey uri (ca_kid x) (ca_now x) c"; cases "fetch (ca_reply x)") auto
  then show ?thesis
  proof cases
    case fresh
    then have "r = Inr key" "c1 = c" "obs = None" using k by (simp_all add: key_def)
    moreover have "lookup_key (je_keys e) (ca_kid x) = Some key" "ca_now x < je_refreshAt e"
      using fresh Some by (auto simp: freshKey_def split: if_splits)
    ultimately show ?thesis using same held mono by (simp add: logged_def)
  next
    case off
    then have "c1 = c" "obs = None" "r = (case lookup_key (je_keys e) (ca_kid x) of Some k \<Rightarrow> Inr k | None \<Rightarrow> Inl (NoKey (ca_kid x)))"
      using k Some by (simp_all add: key_eq key_gated_def Let_def)
    then show ?thesis using same held off(2) by (auto simp: logged_def split: option.splits)
  next
    case stale
    then have c1: "c1 = fmupd uri (e\<lparr>je_noFetchBefore := ca_later x + refetchHoldoff\<rparr>) c" "obs = Some Stale"
        and r: "r = (case lookup_key (je_keys e) (ca_kid x) of Some k \<Rightarrow> Inr k | None \<Rightarrow> Inl (NoKey (ca_kid x)))"
      using k Some by (simp_all add: key_eq key_gated_def Let_def)
    have "cache_inv uri (fs @ logged x obs) c1" unfolding cache_inv_def using e by (auto simp: c1 logged_def)
    moreover have "sourced x key (fs @ logged x obs)" if "lookup_key (je_keys e) (ca_kid x) = Some key" for key
      unfolding sourced_def using e(2,3) that t
      by (intro exI [of _ y] exI [of _ "je_keys e"]) (auto simp: c1 logged_def refetchHoldoff_def)
    ultimately show ?thesis using r by (auto split: option.splits)
  next
    case new
    then have c1: "obs = Some Ok" "c1 = fmupd uri \<lparr>je_keys = ks, je_fetched = ca_later x, je_refreshAt = ca_later x + jwksTTL,
          je_noFetchBefore = ca_later x + refetchHoldoff\<rparr> c"
        and r: "r = (case lookup_key ks (ca_kid x) of Some k \<Rightarrow> Inr k | None \<Rightarrow> Inl (NoKey (ca_kid x)))"
      using k Some by (simp_all add: key_eq key_gated_def Let_def)
    have "cache_inv uri (fs @ logged x obs) c1" using stored_inv [OF new(3)] by (simp add: c1 logged_def)
    moreover have "sourced x key (fs @ logged x obs)" if "lookup_key ks (ca_kid x) = Some key" for key
      using stored_sourced [OF new(3) that t] by (simp add: c1 logged_def)
    ultimately show ?thesis using r by (auto split: option.splits)
  qed
qed

lemma run_inv:
  "cache_inv uri fs0 c \<Longrightarrow> ordered t xs \<Longrightarrow> key_run uri xs c = (fs, c2) \<Longrightarrow> cache_inv uri (fs0 @ fs) c2"
proof (induction xs arbitrary: c fs fs0 t)
  case (Cons x xs)
  obtain r c1 obs where k: "key uri (ca_kid x) (ca_now x) (ca_later x) (ca_reply x) c = (r, c1, obs)" by (metis prod_cases3)
  obtain fs1 where run: "key_run uri xs c1 = (fs1, c2)" "fs = logged x obs @ fs1"
    using Cons.prems(3) k by (auto simp: logged_def split: prod.splits option.splits)
  have "cache_inv uri (fs0 @ logged x obs) c1" using key_step [OF Cons.prems(1) k] Cons.prems(2) by simp
  from Cons.IH [OF this, of "ca_later x"] show ?case using Cons.prems(2) run by simp
qed simp

text \<open>
  C13. A key that verifies a token was published by its issuer, and recently: in every history of lookups from an empty cache, the key a
  lookup yields is in a set some fetch of that URI returned, and unless a refresh failed within the last
  thirty seconds that set is less than five minutes old. So a key the issuer withdrew stops verifying tokens within the lifetime
  as long as the issuer can be asked.
\<close>

theorem keys_are_current:
  assumes "ordered t (xs @ [x])" "key_run uri xs fmempty = (fs, c)"
    and "key uri (ca_kid x) (ca_now x) (ca_later x) (ca_reply x) c = (Inr k, c1, obs)"
  shows "\<exists>y ks. (y, Ok) \<in> set (fs @ logged x obs) \<and> fetch (ca_reply y) = Some ks \<and> lookup_key ks (ca_kid x) = Some k \<and>
    (ca_now x < ca_later y + 5 * minute \<or> (\<exists>z. (z, Stale) \<in> set (fs @ logged x obs) \<and> ca_now x < ca_later z + 30 * second))"
proof -
  have split: "ordered t xs \<and> ca_now x \<le> ca_later x" using ordered_last [OF assms(1)] .
  have "cache_inv uri [] fmempty" by (simp add: cache_inv_def)
  then have "cache_inv uri fs c" using run_inv [of uri "[]" fmempty t xs fs c] split assms(2) by simp
  from key_step [OF this assms(3)] show ?thesis using split by (simp add: sourced_def jwksTTL_def refetchHoldoff_def)
qed

definition one_key :: call where
  "one_key = \<lparr>ca_kid = ''k'', ca_now = 0, ca_later = 1,
     ca_reply = Reply 200 (Some [Some \<lparr>jk_kty = ''OKP'', jk_kid = ''k'', jk_use = '''', jk_n = '''', jk_e = '''', jk_crv = ''Ed25519'', jk_x = ''AA'', jk_y = ''''\<rparr>])\<rparr>"

lemma one_key_run: "key_run ''u'' [one_key] fmempty = ([(one_key, Ok)], fmupd ''u'' \<lparr>je_keys = [(''k'', OKPKey [char_of (0::nat)])], je_fetched = 1,
    je_refreshAt = 1 + jwksTTL, je_noFetchBefore = 1 + refetchHoldoff\<rparr> fmempty)"
  by (simp add: key_eq key_gated_def freshKey_def fetch_def read_keys_def parseJWK_def b64_decode_def b64_value_def one_key_def lookup_key_def Let_def char_of_def)

theorem keys_are_current_witness:
  "\<exists>y ks. (y, Ok) \<in> set [(one_key, Ok)] \<and> fetch (ca_reply y) = Some ks \<and> lookup_key ks ''k'' = Some (OKPKey [char_of (0::nat)])"
proof -
  define x where "x = one_key\<lparr>ca_now := 2, ca_later := 3\<rparr>"
  have o: "ordered 0 ([one_key] @ [x])" by (simp add: x_def one_key_def)
  have k: "key ''u'' (ca_kid x) (ca_now x) (ca_later x) (ca_reply x)
      (snd (key_run ''u'' [one_key] fmempty)) = (Inr (OKPKey [char_of (0::nat)]), snd (key_run ''u'' [one_key] fmempty), None)"
    unfolding one_key_run by (simp add: key_def freshKey_def x_def one_key_def lookup_key_def jwksTTL_def)
  have r: "key_run ''u'' [one_key] fmempty = ([(one_key, Ok)], snd (key_run ''u'' [one_key] fmempty))" by (simp add: one_key_run del: key_run.simps)
  from keys_are_current [OF o r k] show ?thesis by (simp add: logged_def x_def one_key_def)
qed

theorem fetches_spaced_witness:
  "\<exists>fs c2. key_run ''u'' [one_key\<lparr>ca_kid := ''z'', ca_now := 2, ca_later := 3\<rparr>] (snd (key_run ''u'' [one_key] fmempty)) = (fs, c2) \<and>
     list_all (\<lambda>(x, _). 1 + 30 * second \<le> ca_now x) fs"
proof -
  let ?c = "snd (key_run ''u'' [one_key] fmempty)" and ?x = "one_key\<lparr>ca_kid := ''z'', ca_now := 2, ca_later := 3\<rparr>"
  obtain fs c2 where r: "key_run ''u'' [?x] ?c = (fs, c2)" by fastforce
  obtain e where e: "fmlookup ?c ''u'' = Some e" "je_noFetchBefore e = 1 + 30 * second" by (simp add: one_key_run refetchHoldoff_def del: key_run.simps)
  have "ordered 0 [?x]" by (simp add: one_key_def)
  from fetches_spaced [OF e(1) this r] show ?thesis using r e(2) by auto
qed

end
