(* ===== verification/Auth_Verifier.thy ===== *)
theory Auth_Verifier
  imports Auth_Keys Config_Document
begin

section \<open>Verification of bearer tokens\<close>

text \<open>
  \<^verbatim>\<open>NewVerifier\<close>, \<^verbatim>\<open>TrustLocal\<close> and \<^verbatim>\<open>Verify\<close> of src/auth/verifier.go and the reading of scopes of
  src/auth/principal.go. The JWT library is the record \<open>jwt\<close> of its functions the code calls; \<open>jwt_sound\<close> states
  what its documentation says about a parse that succeeds. The key callback of a parse works on a state, so
  that the fetches of the key cache it causes are part of the model.

  The lemmas show who can be named by a principal: whose key signed the token, for which audience, and until when.
\<close>

subsection \<open>Scopes of a token\<close>

text \<open>The length of the white-space code point a string starts with, 0 when it starts with none.\<close>

fun space_len :: "string \<Rightarrow> nat" where
  "space_len [] = 0"
| "space_len (a # s) =
     (if a \<in> {CHR 0x09, CHR 0x0A, CHR 0x0B, CHR 0x0C, CHR 0x0D, CHR 0x20} then 1
      else (case s of
              [] \<Rightarrow> 0
            | b # s' \<Rightarrow>
                if a = CHR 0xC2 \<and> b \<in> {CHR 0x85, CHR 0xA0} then 2
                else (case s' of
                        [] \<Rightarrow> 0
                      | c # _ \<Rightarrow>
                          if (a, b, c) = (CHR 0xE1, CHR 0x9A, CHR 0x80) \<or>
                             (a = CHR 0xE2 \<and> b = CHR 0x80 \<and>
                                c \<in> {CHR 0x80, CHR 0x81, CHR 0x82, CHR 0x83, CHR 0x84, CHR 0x85, CHR 0x86, CHR 0x87,
                                     CHR 0x88, CHR 0x89, CHR 0x8A, CHR 0xA8, CHR 0xA9, CHR 0xAF}) \<or>
                             (a, b, c) = (CHR 0xE2, CHR 0x81, CHR 0x9F) \<or> (a, b, c) = (CHR 0xE3, CHR 0x80, CHR 0x80)
                          then 3 else 0)))"

text \<open>\<open>strings.Fields\<close>; the field that is being read is in front, reversed.\<close>

function fields_from :: "string \<Rightarrow> string \<Rightarrow> string list" where
  "fields_from cur [] = (if cur = [] then [] else [rev cur])"
| "fields_from cur (c # s) =
     (case space_len (c # s) of
        0 \<Rightarrow> fields_from (c # cur) s
      | Suc n \<Rightarrow> (if cur = [] then [] else [rev cur]) @ fields_from [] (drop n s))"
  by pat_completeness auto
termination by (relation "measure (\<lambda>(cur, s). length s)") auto

definition Fields :: "string \<Rightarrow> string list" where
  "Fields s = fields_from [] s"

definition scopeValues :: "json option \<Rightarrow> string list" where
  "scopeValues v =
     (case v of
        Some (JStr s) \<Rightarrow> Fields s
      | Some (JArr es) \<Rightarrow> List.map_filter (\<lambda>e. case e of JStr s \<Rightarrow> if s \<noteq> '''' then Some s else None | _ \<Rightarrow> None) es
      | _ \<Rightarrow> [])"

definition ScopesFromClaims :: "json_map \<Rightarrow> string list" where
  "ScopesFromClaims claims =
     (let got = scopeValues (fmlookup claims ''scope'') in
      if got \<noteq> [] then got else scopeValues (fmlookup claims ''scp''))"

subsection \<open>The JWT library\<close>

record parser_options =
  po_methods :: "string list"
  po_issuer :: string
  po_audience :: string
  po_leeway :: duration

text \<open>
  \<open>jw_unverified\<close> decodes header and claims of a token; \<open>jw_parse\<close> is the validating parse at a time, with a callback for the key.
  The accessors give the empty string where the library reports an error. \<open>jw_signed\<close> tells that the signature of a token verifies under a key.
\<close>

record 's jwt =
  jw_unverified :: "string \<Rightarrow> (json_map \<times> json_map) option"
  jw_parse :: "parser_options \<Rightarrow> time \<Rightarrow> string \<Rightarrow> (json_map \<Rightarrow> 's \<Rightarrow> publicKey option \<times> 's) \<Rightarrow> 's \<Rightarrow> json_map option \<times> 's"
  jw_issuer :: "json_map \<Rightarrow> string"
  jw_subject :: "json_map \<Rightarrow> string"
  jw_audience :: "json_map \<Rightarrow> string list"
  jw_expiry :: "json_map \<Rightarrow> time option"
  jw_alg :: "json_map \<Rightarrow> string"
  jw_signed :: "string \<Rightarrow> publicKey \<Rightarrow> bool"

text \<open>
  The documented behaviour: the callback is asked at most once, and a parse succeeds exactly when the method is allowed, the callback yields a key
  under which the signature verifies, and issuer, audience and expiry, the latter with its leeway, hold.
\<close>

definition jwt_accepts :: "'s jwt \<Rightarrow> parser_options \<Rightarrow> time \<Rightarrow> json_map \<Rightarrow> bool" where
  "jwt_accepts J po t claims \<longleftrightarrow>
     jw_issuer J claims = po_issuer po \<and> po_audience po \<in> set (jw_audience J claims) \<and>
     (case jw_expiry J claims of None \<Rightarrow> False | Some e \<Rightarrow> t < e + po_leeway po)"

definition jwt_reference ::
  "'s jwt \<Rightarrow> parser_options \<Rightarrow> time \<Rightarrow> string \<Rightarrow> (json_map \<Rightarrow> 's \<Rightarrow> publicKey option \<times> 's) \<Rightarrow> 's \<Rightarrow> json_map option \<times> 's" where
  "jwt_reference J po t raw kf s =
     (case jw_unverified J raw of
        None \<Rightarrow> (None, s)
      | Some (header, claims) \<Rightarrow>
          if jw_alg J header \<notin> set (po_methods po) then (None, s)
          else (case kf header s of
                  (None, s1) \<Rightarrow> (None, s1)
                | (Some k, s1) \<Rightarrow> (if jw_signed J raw k \<and> jwt_accepts J po t claims then Some claims else None, s1)))"

definition jwt_sound :: "'s jwt \<Rightarrow> bool" where
  "jwt_sound J \<longleftrightarrow> (\<forall>po t raw kf s. jw_parse J po t raw kf s = jwt_reference J po t raw kf s)"

definition allowedAlgs :: "string list" where
  "allowedAlgs = [''RS256'', ''RS384'', ''RS512'', ''ES256'', ''ES384'', ''ES512'', ''EdDSA'']"

subsection \<open>The verifier\<close>

record Verifier =
  ve_resource :: string
  ve_issuers :: "(string, Issuer) fmap"
  ve_local :: "(string, publicKey) fmap"
  ve_jwks :: jwksCache

definition trust_issuer :: "Issuer \<Rightarrow> (string, Issuer) fmap \<Rightarrow> (string, Issuer) fmap" where
  "trust_issuer iss m = (if is_Mode iss = ''exchange'' then m else fmupd (is_Issuer iss) iss m)"

definition NewVerifier :: "Auth \<Rightarrow> Verifier" where
  "NewVerifier cfg =
     \<lparr>ve_resource = au_Resource cfg,
      ve_issuers = fold trust_issuer (au_Issuers cfg) fmempty,
      ve_local = fmempty, ve_jwks = fmempty\<rparr>"

definition TrustLocal :: "string \<Rightarrow> publicKey \<Rightarrow> Verifier \<Rightarrow> Verifier" where
  "TrustLocal issuer k v =
     v\<lparr>ve_issuers := fmupd issuer \<lparr>is_Issuer = issuer, is_JWKSURI = '''', is_GroupsClaim = '''', is_Mode = ''''\<rparr> (ve_issuers v),
       ve_local := fmupd issuer k (ve_local v)\<rparr>"

text \<open>What a verification meets: the clock around a fetch of keys and at the check of the claims, and the reply to the fetch.\<close>

record moment =
  mo_now :: time
  mo_later :: time
  mo_check :: time
  mo_reply :: jwksReply

datatype verifyError = Malformed | UntrustedIssuer string | InvalidToken | MissingSub

definition string_member :: "json_map \<Rightarrow> string \<Rightarrow> string" where
  "string_member m k = (case fmlookup m k of Some (JStr s) \<Rightarrow> s | _ \<Rightarrow> '''')"

definition jwks_uri :: "string \<Rightarrow> string \<Rightarrow> string" where
  "jwks_uri configured issuer = (if configured = '''' then issuer @ ''/.well-known/jwks.json'' else configured)"

definition verify_key ::
  "(string, publicKey) fmap \<Rightarrow> string \<Rightarrow> string \<Rightarrow> moment \<Rightarrow> json_map \<Rightarrow> jwksCache \<Rightarrow> publicKey option \<times> jwksCache" where
  "verify_key local_keys issuer uri mo header c =
     (case fmlookup local_keys issuer of
        Some k \<Rightarrow> (Some k, c)
      | None \<Rightarrow>
          (case key uri (string_member header ''kid'') (mo_now mo) (mo_later mo) (mo_reply mo) c of
             (Inl _, c1, _) \<Rightarrow> (None, c1)
           | (Inr k, c1, _) \<Rightarrow> (Some k, c1)))"

definition groups_of :: "Issuer \<Rightarrow> json_map \<Rightarrow> string list" where
  "groups_of iss claims =
     (case fmlookup claims (if is_GroupsClaim iss = '''' then ''groups'' else is_GroupsClaim iss) of
        Some (JArr gs) \<Rightarrow> List.map_filter (\<lambda>g. case g of JStr s \<Rightarrow> Some s | _ \<Rightarrow> None) gs
      | _ \<Rightarrow> [])"

definition Verify :: "jwksCache jwt \<Rightarrow> moment \<Rightarrow> string \<Rightarrow> Verifier \<Rightarrow> (verifyError + Principal) \<times> Verifier" where
  "Verify J mo raw v =
     (case jw_unverified J raw of
        None \<Rightarrow> (Inl Malformed, v)
      | Some (_, pre) \<Rightarrow>
          (let issuer = jw_issuer J pre in
           case fmlookup (ve_issuers v) issuer of
             None \<Rightarrow> (Inl (UntrustedIssuer issuer), v)
           | Some iss \<Rightarrow>
               (case jw_parse J \<lparr>po_methods = allowedAlgs, po_issuer = issuer, po_audience = ve_resource v, po_leeway = 30 * second\<rparr>
                       (mo_check mo) raw (verify_key (ve_local v) issuer (jwks_uri (is_JWKSURI iss) issuer) mo) (ve_jwks v) of
                  (None, c) \<Rightarrow> (Inl InvalidToken, v\<lparr>ve_jwks := c\<rparr>)
                | (Some claims, c) \<Rightarrow>
                    let sub = jw_subject J claims; v1 = v\<lparr>ve_jwks := c\<rparr> in
                    if sub = '''' then (Inl MissingSub, v1)
                    else (Inr \<lparr>p_Subject = sub, p_Issuer = issuer, p_Groups = groups_of iss claims, p_Scopes = ScopesFromClaims claims,
                               p_Token = raw, p_Expiry = (case jw_expiry J claims of Some e \<Rightarrow> e | None \<Rightarrow> 0), p_Claims = claims\<rparr>, v1))))"

subsection \<open>The verifier of a gateway\<close>

text \<open>As \<open>New\<close> of src/gateway/gateway.go assembles it; \<open>own\<close> is the key of the gateway's own tokens, where it mints some.\<close>

definition gateway_verifier :: "Auth \<Rightarrow> publicKey option \<Rightarrow> Verifier" where
  "gateway_verifier cfg own =
     (case own of None \<Rightarrow> NewVerifier cfg | Some k \<Rightarrow> TrustLocal (au_Resource cfg) k (NewVerifier cfg))"

text \<open>The key set a verification of a token may ask for.\<close>

definition asked_uri :: "'s jwt \<Rightarrow> Verifier \<Rightarrow> string \<Rightarrow> string option" where
  "asked_uri J v raw =
     (case jw_unverified J raw of
        None \<Rightarrow> None
      | Some (_, pre) \<Rightarrow> map_option (\<lambda>iss. jwks_uri (is_JWKSURI iss) (jw_issuer J pre)) (fmlookup (ve_issuers v) (jw_issuer J pre)))"

text \<open>The verifiers that arise, with the replies the URIs gave or would have given.\<close>

inductive verifier_run ::
  "jwksCache jwt \<Rightarrow> Auth \<Rightarrow> publicKey option \<Rightarrow> (string option \<times> jwksReply) list \<Rightarrow> Verifier \<Rightarrow> bool" for J cfg own where
  start: "verifier_run J cfg own [] (gateway_verifier cfg own)"
| verified: "verifier_run J cfg own seen v \<Longrightarrow> Verify J mo raw v = (r, v1) \<Longrightarrow>
    verifier_run J cfg own ((asked_uri J v raw, mo_reply mo) # seen) v1"

definition served :: "(string option \<times> jwksReply) list \<Rightarrow> string \<Rightarrow> keySet \<Rightarrow> bool" where
  "served seen uri ks \<longleftrightarrow> (\<exists>reply. (Some uri, reply) \<in> set seen \<and> fetch reply = Some ks)"

definition cache_served :: "(string option \<times> jwksReply) list \<Rightarrow> jwksCache \<Rightarrow> bool" where
  "cache_served seen c \<longleftrightarrow> (\<forall>uri e. fmlookup c uri = Some e \<longrightarrow> served seen uri (je_keys e))"

lemma served_Cons: "served seen uri ks \<Longrightarrow> served (x # seen) uri ks"
  by (auto simp: served_def)

text \<open>A key comes from a set its URI served, and a lookup stores nothing else.\<close>

lemma key_served:
  assumes "cache_served seen c" "key uri kid now later reply c = (r, c1, obs)"
  shows "cache_served ((Some uri, reply) # seen) c1 \<and>
    (\<forall>k. r = Inr k \<longrightarrow> (\<exists>ks. served ((Some uri, reply) # seen) uri ks \<and> lookup_key ks kid = Some k))"
proof -
  let ?seen = "(Some uri, reply) # seen"
  have old: "served ?seen u (je_keys e)" if "fmlookup c u = Some e" for u e
    using assms(1) that served_Cons unfolding cache_served_def by blast
  have new: "served ?seen uri ks" if "fetch reply = Some ks" for ks using that by (auto simp: served_def)
  show ?thesis
    using assms(2) old new
    by (auto simp: key_eq key_gated_def freshKey_def cache_served_def Let_def split: option.splits if_splits)
qed

lemma trusted_issuer:
  "fmlookup (fold trust_issuer xs m) i = Some iss \<Longrightarrow>
     (iss \<in> set xs \<and> is_Issuer iss = i \<and> is_Mode iss \<noteq> ''exchange'') \<or> fmlookup m i = Some iss"
proof (induction xs arbitrary: m)
  case (Cons x xs)
  from Cons.IH [of "trust_issuer x m"] Cons.prems show ?case by (auto simp: trust_issuer_def split: if_splits)
qed simp

lemma new_verifier_issuer:
  "fmlookup (ve_issuers (NewVerifier cfg)) i = Some iss \<Longrightarrow> iss \<in> set (au_Issuers cfg) \<and> is_Issuer iss = i \<and> is_Mode iss \<noteq> ''exchange''"
  using trusted_issuer [of "au_Issuers cfg" fmempty i iss] by (simp add: NewVerifier_def)

lemma Verify_keeps: "Verify J mo raw v = (r, v1) \<Longrightarrow> ve_issuers v1 = ve_issuers v \<and> ve_local v1 = ve_local v \<and> ve_resource v1 = ve_resource v"
  by (auto simp: Verify_def Let_def split: option.splits prod.splits if_splits)

text \<open>What a success of \<open>Verify\<close> took.\<close>

lemma Verify_success:
  assumes "jwt_sound J" "Verify J mo raw v = (Inr p, v1)"
  obtains iss k c header where "fmlookup (ve_issuers v) (p_Issuer p) = Some iss"
    "verify_key (ve_local v) (p_Issuer p) (jwks_uri (is_JWKSURI iss) (p_Issuer p)) mo header (ve_jwks v) = (Some k, c)"
    "asked_uri J v raw = Some (jwks_uri (is_JWKSURI iss) (p_Issuer p))"
    "jw_signed J raw k" "ve_jwks v1 = c" "p_Token p = raw" "p_Subject p = jw_subject J (p_Claims p)" "p_Subject p \<noteq> ''''"
    "jw_issuer J (p_Claims p) = p_Issuer p" "ve_resource v \<in> set (jw_audience J (p_Claims p))"
    "jw_expiry J (p_Claims p) = Some (p_Expiry p)" "mo_check mo < p_Expiry p + 30 * second"
    "p_Groups p = groups_of iss (p_Claims p)"
proof -
  obtain header pre where pre: "jw_unverified J raw = Some (header, pre)"
    using assms(2) by (auto simp: Verify_def split: option.splits)
  define issuer where "issuer = jw_issuer J pre"
  obtain iss where iss: "fmlookup (ve_issuers v) issuer = Some iss"
    using assms(2) by (auto simp: Verify_def pre issuer_def Let_def split: option.splits)
  let ?po = "\<lparr>po_methods = allowedAlgs, po_issuer = issuer, po_audience = ve_resource v, po_leeway = 30 * second\<rparr>"
  let ?kf = "verify_key (ve_local v) issuer (jwks_uri (is_JWKSURI iss) issuer) mo"
  obtain claims c where parse: "jw_parse J ?po (mo_check mo) raw ?kf (ve_jwks v) = (Some claims, c)"
    using assms(2) iss by (auto simp: Verify_def pre issuer_def Let_def split: option.splits prod.splits)
  obtain k where k: "?kf header (ve_jwks v) = (Some k, c)" "jw_signed J raw k" "jwt_accepts J ?po (mo_check mo) claims"
    using parse assms(1) by (auto simp: jwt_sound_def jwt_reference_def pre split: if_splits prod.splits option.splits)
  obtain e where e: "jw_expiry J claims = Some e" "mo_check mo < e + 30 * second"
    using k(3) by (auto simp: jwt_accepts_def split: option.splits)
  have p: "p = \<lparr>p_Subject = jw_subject J claims, p_Issuer = issuer, p_Groups = groups_of iss claims, p_Scopes = ScopesFromClaims claims,
        p_Token = raw, p_Expiry = e, p_Claims = claims\<rparr>" "jw_subject J claims \<noteq> ''''" "ve_jwks v1 = c"
    using assms(2) parse iss e(1) by (auto simp: Verify_def pre issuer_def [symmetric] Let_def split: if_splits)
  show ?thesis
    by (rule that [of iss header k c]) (use p k e iss pre in \<open>simp_all add: asked_uri_def jwt_accepts_def issuer_def\<close>)
qed

lemma Verify_cache:
  assumes "jwt_sound J" "Verify J mo raw v = (r, v1)" "cache_served seen (ve_jwks v)"
  shows "cache_served ((asked_uri J v raw, mo_reply mo) # seen) (ve_jwks v1)"
proof -
  have mono: "cache_served (x # seen) (ve_jwks v)" for x
    using assms(3) served_Cons unfolding cache_served_def by blast
  have ref: "jw_parse J = jwt_reference J" using assms(1) by (intro ext) (simp add: jwt_sound_def)
  consider (same) "ve_jwks v1 = ve_jwks v"
    | (asked) iss header pre c k where "jw_unverified J raw = Some (header, pre)" "fmlookup (ve_issuers v) (jw_issuer J pre) = Some iss"
        "verify_key (ve_local v) (jw_issuer J pre) (jwks_uri (is_JWKSURI iss) (jw_issuer J pre)) mo header (ve_jwks v) = (k, c)" "ve_jwks v1 = c"
    using assms(2) unfolding Verify_def ref
    by (auto simp: jwt_reference_def Let_def split: option.splits prod.splits if_splits)
  then show ?thesis
  proof cases
    case same
    then show ?thesis using mono by simp
  next
    case asked
    let ?uri = "jwks_uri (is_JWKSURI iss) (jw_issuer J pre)"
    have uri: "asked_uri J v raw = Some ?uri" using asked(1,2) by (simp add: asked_uri_def)
    show ?thesis
    proof (cases "fmlookup (ve_local v) (jw_issuer J pre)")
      case None
      obtain r' c1 obs where k: "key ?uri (string_member header ''kid'') (mo_now mo) (mo_later mo) (mo_reply mo) (ve_jwks v) = (r', c1, obs)"
        by (metis prod_cases3)
      have "c1 = c" using asked(3) None k by (auto simp: verify_key_def split: sum.splits)
      then show ?thesis using key_served [OF assms(3) k] asked(4) uri by simp
    next
      case (Some k)
      then show ?thesis using asked(3,4) mono by (simp add: verify_key_def)
    qed
  qed
qed

lemma gateway_verifier_fields:
  "ve_jwks (gateway_verifier cfg own) = fmempty" "ve_resource (gateway_verifier cfg own) = au_Resource cfg"
  "fmlookup (ve_local (gateway_verifier cfg own)) i = (if i = au_Resource cfg then own else None)"
  by (simp_all add: gateway_verifier_def NewVerifier_def TrustLocal_def split: option.splits)

lemma verifier_run_inv:
  assumes "jwt_sound J" "verifier_run J cfg own seen v"
  shows "cache_served seen (ve_jwks v) \<and> ve_issuers v = ve_issuers (gateway_verifier cfg own) \<and>
    ve_local v = ve_local (gateway_verifier cfg own) \<and> ve_resource v = au_Resource cfg"
  using assms(2)
proof (induction rule: verifier_run.induct)
  case start
  show ?case by (simp add: cache_served_def gateway_verifier_fields)
next
  case (verified seen v mo raw r v1)
  then show ?case using Verify_cache [OF assms(1) verified(2)] Verify_keeps [OF verified(2)] by simp
qed

text \<open>
  C0. A principal is what a trusted party said. Whatever tokens were presented before, a token is accepted only when a key signed it that
  is either the gateway's own, for tokens the gateway issued, or in a set served at the address of the very issuer it names, which the
  document trusts for direct presentation. The token is meant for this gateway, names a subject, and has not been expired for more than thirty seconds;
  the principal holds its subject, claims and expiry. So neither an issuer trusted for the exchange only nor the key of
  one issuer can vouch for another.
\<close>

theorem principal_is_vouched_for:
  assumes "jwt_sound J" "verifier_run J cfg own seen v" "Verify J mo raw v = (Inr p, v1)"
  shows "(\<exists>k. jw_signed J raw k \<and>
      (own = Some k \<and> p_Issuer p = au_Resource cfg \<or>
       (\<exists>iss \<in> set (au_Issuers cfg). is_Issuer iss = p_Issuer p \<and> is_Mode iss \<noteq> ''exchange'' \<and>
          (\<exists>ks kid. served ((asked_uri J v raw, mo_reply mo) # seen) (jwks_uri (is_JWKSURI iss) (p_Issuer p)) ks \<and> lookup_key ks kid = Some k)))) \<and>
    jw_issuer J (p_Claims p) = p_Issuer p \<and> au_Resource cfg \<in> set (jw_audience J (p_Claims p)) \<and>
    p_Subject p = jw_subject J (p_Claims p) \<and> p_Subject p \<noteq> '''' \<and>
    jw_expiry J (p_Claims p) = Some (p_Expiry p) \<and> mo_check mo < p_Expiry p + 30 * second \<and> p_Token p = raw"
proof -
  note inv = verifier_run_inv [OF assms(1,2)]
  obtain iss k c header where s: "fmlookup (ve_issuers v) (p_Issuer p) = Some iss"
      "verify_key (ve_local v) (p_Issuer p) (jwks_uri (is_JWKSURI iss) (p_Issuer p)) mo header (ve_jwks v) = (Some k, c)"
      "asked_uri J v raw = Some (jwks_uri (is_JWKSURI iss) (p_Issuer p))"
      "jw_signed J raw k" "p_Token p = raw" "p_Subject p = jw_subject J (p_Claims p)" "p_Subject p \<noteq> ''''"
      "jw_issuer J (p_Claims p) = p_Issuer p" "ve_resource v \<in> set (jw_audience J (p_Claims p))"
      "jw_expiry J (p_Claims p) = Some (p_Expiry p)" "mo_check mo < p_Expiry p + 30 * second"
    using Verify_success [OF assms(1,3)] by metis
  have "own = Some k \<and> p_Issuer p = au_Resource cfg \<or>
       (\<exists>iss \<in> set (au_Issuers cfg). is_Issuer iss = p_Issuer p \<and> is_Mode iss \<noteq> ''exchange'' \<and>
          (\<exists>ks kid. served ((asked_uri J v raw, mo_reply mo) # seen) (jwks_uri (is_JWKSURI iss) (p_Issuer p)) ks \<and> lookup_key ks kid = Some k))"
  proof (cases "fmlookup (ve_local v) (p_Issuer p)")
    case (Some k')
    then show ?thesis using s(2) inv by (simp add: verify_key_def gateway_verifier_fields split: if_splits)
  next
    case None
    have "own = None \<or> p_Issuer p \<noteq> au_Resource cfg" using None inv by (auto simp: gateway_verifier_fields)
    then have "fmlookup (ve_issuers (NewVerifier cfg)) (p_Issuer p) = Some iss"
      using s(1) inv by (auto simp: gateway_verifier_def TrustLocal_def split: option.splits if_splits)
    note iss = new_verifier_issuer [OF this]
    obtain c1 obs where "key (jwks_uri (is_JWKSURI iss) (p_Issuer p)) (string_member header ''kid'') (mo_now mo) (mo_later mo) (mo_reply mo) (ve_jwks v)
        = (Inr k, c1, obs)"
      using s(2) None by (auto simp: verify_key_def split: prod.splits sum.splits)
    from key_served [OF conjunct1 [OF inv] this] s(3) iss show ?thesis by fastforce
  qed
  with s inv show ?thesis by auto
qed

text \<open>A library with the documented behaviour, which knows one token.\<close>

definition one_token_base :: "'s jwt" where
  "one_token_base =
     \<lparr>jw_unverified = (\<lambda>raw. if raw = ''token'' then Some (fmupd ''kid'' (JStr ''k'') fmempty, fmupd ''sub'' (JStr ''ann'') fmempty) else None),
      jw_parse = (\<lambda>_ _ _ _ s. (None, s)), jw_issuer = (\<lambda>_. ''idp''), jw_subject = (\<lambda>c. string_member c ''sub''),
      jw_audience = (\<lambda>_. [''fold'']), jw_expiry = (\<lambda>_. Some 100), jw_alg = (\<lambda>_. ''EdDSA''), jw_signed = (\<lambda>_ k. k = OKPKey [char_of (0::nat)])\<rparr>"

definition one_token :: "'s jwt" where
  "one_token = one_token_base\<lparr>jw_parse := jwt_reference one_token_base\<rparr>"

lemma one_token_sound: "jwt_sound one_token"
  by (auto simp: jwt_sound_def one_token_def jwt_reference_def jwt_accepts_def split: option.split prod.split)

definition one_issuer :: Auth where
  "one_issuer = \<lparr>au_Mode = ''required'', au_Resource = ''fold'',
     au_Issuers = [\<lparr>is_Issuer = ''idp'', is_JWKSURI = ''u'', is_GroupsClaim = '''', is_Mode = ''direct''\<rparr>], au_EMA = None\<rparr>"

definition first_moment :: moment where
  "first_moment = \<lparr>mo_now = 0, mo_later = 1, mo_check = 1, mo_reply = ca_reply one_key\<rparr>"

lemma one_key_fetched: "fetch (ca_reply one_key) = Some [(''k'', OKPKey [char_of (0::nat)])]"
  by (simp add: fetch_def read_keys_def parseJWK_def b64_decode_def b64_value_def one_key_def Let_def char_of_def)

lemma one_token_verifies:
  "\<exists>p v1. Verify one_token first_moment ''token'' (gateway_verifier one_issuer None) = (Inr p, v1) \<and> p_Subject p = ''ann''"
  by (simp add: Verify_def one_token_def one_token_base_def gateway_verifier_def NewVerifier_def one_issuer_def trust_issuer_def
      jwt_reference_def jwt_accepts_def allowedAlgs_def verify_key_def key_eq key_gated_def freshKey_def first_moment_def one_key_fetched
      string_member_def jwks_uri_def lookup_key_def Let_def)

theorem principal_is_vouched_for_witness:
  "\<exists>p v1. Verify one_token first_moment ''token'' (gateway_verifier one_issuer None) = (Inr p, v1) \<and>
     ''fold'' \<in> set (jw_audience (one_token :: jwksCache jwt) (p_Claims p)) \<and> p_Expiry p = 100"
proof -
  obtain p v1 where v: "Verify one_token first_moment ''token'' (gateway_verifier one_issuer None) = (Inr p, v1)"
    using one_token_verifies by blast
  from principal_is_vouched_for [OF one_token_sound verifier_run.start v]
  have "''fold'' \<in> set (jw_audience (one_token :: jwksCache jwt) (p_Claims p)) \<and> Some (p_Expiry p) = jw_expiry (one_token :: jwksCache jwt) (p_Claims p)"
    by (simp add: one_issuer_def)
  with v show ?thesis by (simp add: one_token_def one_token_base_def)
qed

end
