(* ===== verification/Token_Exchange.thy ===== *)
theory Token_Exchange
  imports Auth_Verifier Task_Routing
begin

section \<open>The exchange of identity assertions\<close>

text \<open>
  The token endpoint of src/auth/ema.go: \<^verbatim>\<open>NewEMA\<close> as far as it keeps state, and \<^verbatim>\<open>ServeToken\<close> with the
  outcome it reports. An assertion is validated by the JWT library, with the key cache and the type of the
  assertion as the state of its key callback; its identifier is recorded, hashed, in the single-use recorder of the
  shared state. SHA-256 and the signing of a token are parameters.

  The lemmas show that every answer is reported once, what a minted token holds, that no assertion is redeemed twice before it
  expires, and that within the leeway after its expiry it is.
\<close>

subsection \<open>Comparing names without case\<close>

text \<open>\<open>strings.EqualFold\<close>; against a string of ASCII it is the folding of member names, and \<open>uni\<close> is the comparison of two strings that both go beyond ASCII.\<close>

definition EqualFold :: "(string \<Rightarrow> string \<Rightarrow> bool) \<Rightarrow> string \<Rightarrow> string \<Rightarrow> bool" where
  "EqualFold uni s t \<longleftrightarrow>
     (if is_ascii s \<or> is_ascii t then foldName s = foldName t else uni s t)"

subsection \<open>The exchange service\<close>

definition idJAGGrant :: string where "idJAGGrant = ''urn:ietf:params:oauth:grant-type:jwt-bearer''"
definition accessTokenTypes :: "string list" where "accessTokenTypes = [''at+jwt'', ''application/at+jwt'']"

record EMA =
  ema_issuer :: string
  ema_cfg :: EMAConfig
  ema_jwks :: jwksCache
  ema_replay :: MemOnce
  ema_ttl :: duration

definition NewEMA :: "Auth \<Rightarrow> EMAConfig \<Rightarrow> EMA" where
  "NewEMA cfg e =
     \<lparr>ema_issuer = au_Resource cfg, ema_cfg = e, ema_jwks = fmempty, ema_replay = NewMemOnce,
      ema_ttl = wrap64 (ResolvedTokenTTLSec e * second)\<rparr>"

record TokenExchange =
  tx_Outcome :: string
  tx_Detail :: string
  tx_Subject :: string
  tx_Issuer :: string

text \<open>The form is \<open>None\<close> where the body does not parse; an absent field is the empty string.\<close>

record tokenRequest =
  tr_post :: bool
  tr_form :: "(string \<Rightarrow> string) option"

text \<open>An answer: an OAuth error with its status, or the signed token and its lifetime in seconds.\<close>

datatype tokenAnswer = OAuthError int string string | AccessToken string int

text \<open>
  The functions of the libraries: the JWT parser over the callback's state, the signer, SHA-256 and the comparison beyond ASCII.
\<close>

record crypto =
  cy_jwt :: "(string \<times> jwksCache) jwt"
  cy_sign :: "json_map \<Rightarrow> string option"
  cy_sha256 :: "string \<Rightarrow> string"
  cy_fold :: "string \<Rightarrow> string \<Rightarrow> bool"

definition assertion_key ::
  "(string \<Rightarrow> string \<Rightarrow> bool) \<Rightarrow> string \<Rightarrow> moment \<Rightarrow> json_map \<Rightarrow> string \<times> jwksCache \<Rightarrow> publicKey option \<times> string \<times> jwksCache" where
  "assertion_key uni uri mo header s =
     (let ask = (\<lambda>typ c. case key uri (string_member header ''kid'') (mo_now mo) (mo_later mo) (mo_reply mo) c of
                           (Inl _, c1, _) \<Rightarrow> (None, typ, c1)
                         | (Inr k, c1, _) \<Rightarrow> (Some k, typ, c1)) in
      case fmlookup header ''typ'' of
        Some (JStr typ) \<Rightarrow> if list_ex (EqualFold uni typ) accessTokenTypes then (None, typ, snd s) else ask typ (snd s)
      | _ \<Rightarrow> ask (fst s) (snd s))"

text \<open>Seconds since 1970 of a time.\<close>

definition Unix :: "time \<Rightarrow> int" where
  "Unix t = t div second - 62135596800"

definition minted_claims :: "string \<Rightarrow> duration \<Rightarrow> time \<Rightarrow> string \<Rightarrow> json_map \<Rightarrow> json_map" where
  "minted_claims issuer ttl now sub claims =
     (let base = fmap_of_list
            [(''iss'', JStr issuer), (''aud'', JStr issuer), (''sub'', JStr sub),
             (''iat'', JNum (rat_of_int (Unix now))), (''exp'', JNum (rat_of_int (Unix (now + ttl))))];
          email = (\<lambda>m. case fmlookup claims ''email'' of Some (JStr s) \<Rightarrow> fmupd ''email'' (JStr s) m | _ \<Rightarrow> m);
          groups = (\<lambda>m. case fmlookup claims ''groups'' of Some (JArr gs) \<Rightarrow> fmupd ''groups'' (JArr gs) m | _ \<Rightarrow> m);
          client = (\<lambda>m. case fmlookup claims ''client_id'' of Some (JStr s) \<Rightarrow> fmupd ''client_id'' (JStr s) m | _ \<Rightarrow> m)
      in client (groups (email base)))"

text \<open>A duration in whole seconds, towards zero.\<close>

definition whole_seconds :: "duration \<Rightarrow> int" where
  "whole_seconds d = (if d < 0 then - (- d div second) else d div second)"

definition jti_key :: "(string \<Rightarrow> string) \<Rightarrow> string \<Rightarrow> string" where
  "jti_key sha jti = hex_encode (sha jti)"

text \<open>What follows the validation: \<open>now\<close> is the clock when the lifetime of the assertion is measured, \<open>issued\<close> when the token is made.\<close>

definition redeem ::
  "crypto \<Rightarrow> time \<Rightarrow> time \<Rightarrow> string \<Rightarrow> json_map \<Rightarrow> EMA \<Rightarrow> tokenAnswer \<times> TokenExchange \<times> EMA" where
  "redeem C now issued typ claims m =
     (let cfg = ema_cfg m; idp = em_IdpIssuer cfg;
          refuse = (\<lambda>subject status code detail m. (OAuthError status code detail, \<lparr>tx_Outcome = code, tx_Detail = detail, tx_Subject = subject, tx_Issuer = idp\<rparr>, m));
          sub = jw_subject (cy_jwt C) claims; jti = string_member claims ''jti'' in
      if sub = '''' then refuse '''' 400 ''invalid_grant'' ''ID-JAG has no subject'' m
      else (case (if jti = '''' then None else jw_expiry (cy_jwt C) claims) of
              None \<Rightarrow> refuse sub 400 ''invalid_grant'' ''ID-JAG missing jti or exp'' m
            | Some e \<Rightarrow>
                if em_AllowedAssertionTypes cfg \<noteq> [] \<and> \<not> list_ex (EqualFold (cy_fold C) typ) (em_AllowedAssertionTypes cfg)
                then refuse sub 400 ''invalid_grant'' ''ID-JAG assertion type is not permitted'' m
                else if em_AllowedClientIDs cfg \<noteq> [] \<and> string_member claims ''client_id'' \<notin> set (em_AllowedClientIDs cfg)
                then refuse sub 400 ''invalid_grant'' ''ID-JAG client_id is not permitted'' m
                else (case TryOnce (ema_replay m) (jti_key (cy_sha256 C) jti) (max (time_sub e now) second) now of
                        (False, once) \<Rightarrow>
                          (OAuthError 400 ''invalid_grant'' ''ID-JAG already redeemed'',
                           \<lparr>tx_Outcome = ''replayed'', tx_Detail = ''ID-JAG already redeemed'', tx_Subject = sub, tx_Issuer = idp\<rparr>,
                           m\<lparr>ema_replay := once\<rparr>)
                      | (True, once) \<Rightarrow>
                          let m1 = m\<lparr>ema_replay := once\<rparr> in
                          (case cy_sign C (minted_claims (ema_issuer m) (ema_ttl m) issued sub claims) of
                             None \<Rightarrow> refuse sub 500 ''server_error'' ''token signing failed'' m1
                           | Some signed \<Rightarrow>
                               (AccessToken signed (whole_seconds (ema_ttl m)),
                                \<lparr>tx_Outcome = ''minted'', tx_Detail = '''', tx_Subject = sub, tx_Issuer = idp\<rparr>, m1)))))"

definition ServeToken ::
  "crypto \<Rightarrow> moment \<Rightarrow> time \<Rightarrow> time \<Rightarrow> tokenRequest \<Rightarrow> EMA \<Rightarrow> tokenAnswer \<times> TokenExchange \<times> EMA" where
  "ServeToken C mo now issued r m =
     (let cfg = ema_cfg m; idp = em_IdpIssuer cfg;
          refuse = (\<lambda>status code detail m. (OAuthError status code detail, \<lparr>tx_Outcome = code, tx_Detail = detail, tx_Subject = '''', tx_Issuer = idp\<rparr>, m)) in
      if \<not> tr_post r then refuse 405 ''invalid_request'' ''POST only'' m
      else (case tr_form r of
              None \<Rightarrow> refuse 400 ''invalid_request'' ''malformed form body'' m
            | Some form \<Rightarrow>
                if form ''grant_type'' \<noteq> idJAGGrant then refuse 400 ''unsupported_grant_type'' (''only '' @ idJAGGrant @ '' is supported'') m
                else if form ''assertion'' = '''' then refuse 400 ''invalid_request'' ''missing assertion'' m
                else (case jw_parse (cy_jwt C) \<lparr>po_methods = allowedAlgs, po_issuer = idp, po_audience = ema_issuer m, po_leeway = 30 * second\<rparr>
                             (mo_check mo) (form ''assertion'') (assertion_key (cy_fold C) (jwks_uri (em_IdpJWKSURI cfg) idp) mo) ('''', ema_jwks m) of
                        (None, _, c) \<Rightarrow> refuse 400 ''invalid_grant'' ''ID-JAG validation failed'' (m\<lparr>ema_jwks := c\<rparr>)
                      | (Some claims, typ, c) \<Rightarrow> redeem C now issued typ claims (m\<lparr>ema_jwks := c\<rparr>))))"

subsection \<open>Histories of exchanges\<close>

type_synonym exchange_call = "moment \<times> time \<times> time \<times> tokenRequest"

fun ema_after :: "crypto \<Rightarrow> exchange_call list \<Rightarrow> EMA \<Rightarrow> EMA" where
  "ema_after C [] m = m"
| "ema_after C ((mo, now, issued, r) # xs) m = ema_after C xs (snd (snd (ServeToken C mo now issued r m)))"

text \<open>What one redemption does to the recorder.\<close>

lemma redeem_record:
  assumes "redeem C now issued typ claims m = (a, x, m1)"
  shows "ema_jwks m1 = ema_jwks m \<and> ema_cfg m1 = ema_cfg m \<and> ema_issuer m1 = ema_issuer m \<and> ema_ttl m1 = ema_ttl m \<and>
    (ema_replay m1 = ema_replay m \<or>
     (\<exists>k ttl. ema_replay m1 = snd (TryOnce (ema_replay m) k ttl now)))"
proof -
  show ?thesis
  proof (cases "jw_expiry (cy_jwt C) claims")
    case None
    then show ?thesis using assms by (auto simp: redeem_def Let_def split: if_splits)
  next
    case (Some e)
    let ?k = "jti_key (cy_sha256 C) (string_member claims ''jti'')" and ?ttl = "max (time_sub e now) second"
    obtain b once where t: "TryOnce (ema_replay m) ?k ?ttl now = (b, once)" by fastforce
    have once: "once = snd (TryOnce (ema_replay m) ?k ?ttl now)" using t by simp
    have "ema_jwks m1 = ema_jwks m \<and> ema_cfg m1 = ema_cfg m \<and> ema_issuer m1 = ema_issuer m \<and> ema_ttl m1 = ema_ttl m \<and>
        (ema_replay m1 = ema_replay m \<or> ema_replay m1 = once)"
      using assms by (cases b) (auto simp: redeem_def Let_def t Some split: if_splits option.splits)
    then show ?thesis using once by blast
  qed
qed

lemma ServeToken_cases:
  assumes "ServeToken C mo now issued r m = (a, x, m1)"
  obtains (refused) status code detail c where "a = OAuthError status code detail" "m1 = m\<lparr>ema_jwks := c\<rparr>" "tx_Outcome x = code"
  | (validated) form claims ty c where "tr_form r = Some form"
      "jw_parse (cy_jwt C) \<lparr>po_methods = allowedAlgs, po_issuer = em_IdpIssuer (ema_cfg m), po_audience = ema_issuer m, po_leeway = 30 * second\<rparr>
         (mo_check mo) (form ''assertion'') (assertion_key (cy_fold C) (jwks_uri (em_IdpJWKSURI (ema_cfg m)) (em_IdpIssuer (ema_cfg m))) mo)
         ('''', ema_jwks m) = (Some claims, ty, c)"
      "redeem C now issued ty claims (m\<lparr>ema_jwks := c\<rparr>) = (a, x, m1)"
proof -
  have same: "m\<lparr>ema_jwks := ema_jwks m\<rparr> = m" by simp
  show ?thesis
    using assms that(1) [of _ _ _ "ema_jwks m"] that unfolding ServeToken_def Let_def
    by (auto split: if_splits option.splits prod.splits simp del: same)
qed

lemma ServeToken_record:
  assumes "ServeToken C mo now issued r m = (a, x, m1)"
  shows "ema_cfg m1 = ema_cfg m \<and> ema_issuer m1 = ema_issuer m \<and>
    (\<exists>us. ema_replay m1 = once_all (ema_replay m) us \<and> length us \<le> 1 \<and> (\<forall>(_, _, t) \<in> set us. t = now))"
  using assms
proof (cases rule: ServeToken_cases)
  case (refused status code detail c)
  then show ?thesis by (auto intro: exI [of _ "[]"])
next
  case (validated form claims ty c)
  from redeem_record [OF validated(3)] consider "ema_replay m1 = ema_replay m" | k ttl where "ema_replay m1 = snd (TryOnce (ema_replay m) k ttl now)"
    by auto
  then have "\<exists>us. ema_replay m1 = once_all (ema_replay m) us \<and> length us \<le> 1 \<and> (\<forall>(_, _, t) \<in> set us. t = now)"
  proof cases
    case 1
    then show ?thesis by (intro exI [of _ "[]"]) simp
  next
    case (2 k ttl)
    then show ?thesis by (intro exI [of _ "[(k, ttl, now)]"]) simp
  qed
  with redeem_record [OF validated(3)] show ?thesis by simp
qed

lemma once_all_append: "once_all o' (us @ us') = once_all (once_all o' us) us'"
  by (induction o' us rule: once_all.induct) auto

lemma ema_after_record:
  "\<exists>us. ema_replay (ema_after C calls m) = once_all (ema_replay m) us \<and> length us \<le> length calls \<and>
     (\<forall>(_, _, t) \<in> set us. t \<in> (\<lambda>(_, now, _). now) ` set calls) \<and>
     ema_cfg (ema_after C calls m) = ema_cfg m \<and> ema_issuer (ema_after C calls m) = ema_issuer m"
proof (induction C calls m rule: ema_after.induct)
  case (1 C m)
  show ?case by (intro exI [of _ "[]"]) simp
next
  case (2 C mo now issued r xs m)
  obtain a x m1 where s: "ServeToken C mo now issued r m = (a, x, m1)" by (metis prod_cases3)
  obtain us where us: "ema_replay m1 = once_all (ema_replay m) us" "length us \<le> 1" "\<forall>(_, _, t) \<in> set us. t = now"
    using ServeToken_record [OF s] by blast
  obtain us' where us': "ema_replay (ema_after C xs m1) = once_all (ema_replay m1) us'" "length us' \<le> length xs"
      "\<forall>(_, _, t) \<in> set us'. t \<in> (\<lambda>(_, now, _). now) ` set xs"
      "ema_cfg (ema_after C xs m1) = ema_cfg m1" "ema_issuer (ema_after C xs m1) = ema_issuer m1"
    using 2 s by auto
  show ?case using us us' ServeToken_record [OF s]
    by (intro exI [of _ "us @ us'"]) (auto simp: s once_all_append)
qed

subsection \<open>How often an assertion is redeemed\<close>

lemma redeem_success:
  assumes "redeem C now issued typ claims m = (AccessToken tok n, x, m1)"
  shows "\<exists>e. jw_expiry (cy_jwt C) claims = Some e \<and>
    TryOnce (ema_replay m) (jti_key (cy_sha256 C) (string_member claims ''jti'')) (max (time_sub e now) second) now = (True, ema_replay m1) \<and>
    jw_subject (cy_jwt C) claims \<noteq> '''' \<and> tx_Subject x = jw_subject (cy_jwt C) claims \<and>
    cy_sign C (minted_claims (ema_issuer m) (ema_ttl m) issued (jw_subject (cy_jwt C) claims) claims) = Some tok"
proof (cases "jw_expiry (cy_jwt C) claims")
  case None
  then show ?thesis using assms by (auto simp: redeem_def Let_def split: if_splits)
next
  case (Some e)
  obtain b once where t: "TryOnce (ema_replay m) (jti_key (cy_sha256 C) (string_member claims ''jti'')) (max (time_sub e now) second) now = (b, once)"
    by fastforce
  show ?thesis using assms by (cases b) (auto simp: redeem_def Let_def t Some split: if_splits option.splits)
qed

lemma parse_claims:
  assumes "jwt_sound J" "jw_parse J po t raw kf s = (Some claims, s1)"
  shows "\<exists>h k. jw_unverified J raw = Some (h, claims) \<and> kf h s = (Some k, s1) \<and> jw_signed J raw k \<and> jwt_accepts J po t claims"
  using assms by (auto simp: jwt_sound_def jwt_reference_def split: option.splits prod.splits if_splits)

text \<open>The claims of the assertion a request presents, as the library reads them without verifying.\<close>

definition presented :: "crypto \<Rightarrow> tokenRequest \<Rightarrow> json_map option" where
  "presented C r = Option.bind (tr_form r) (\<lambda>form. map_option snd (jw_unverified (cy_jwt C) (form ''assertion'')))"

lemma ServeToken_success:
  assumes "jwt_sound (cy_jwt C)" "ServeToken C mo now issued r m = (AccessToken tok n, x, m1)"
  shows "\<exists>claims e. presented C r = Some claims \<and> jw_expiry (cy_jwt C) claims = Some e \<and> mo_check mo < e + 30 * second \<and>
    jw_issuer (cy_jwt C) claims = em_IdpIssuer (ema_cfg m) \<and> ema_issuer m \<in> set (jw_audience (cy_jwt C) claims) \<and>
    TryOnce (ema_replay m) (jti_key (cy_sha256 C) (string_member claims ''jti'')) (max (time_sub e now) second) now = (True, ema_replay m1) \<and>
    jw_subject (cy_jwt C) claims \<noteq> '''' \<and> tx_Subject x = jw_subject (cy_jwt C) claims \<and>
    cy_sign C (minted_claims (ema_issuer m) (ema_ttl m) issued (jw_subject (cy_jwt C) claims) claims) = Some tok"
  using assms(2)
proof (cases rule: ServeToken_cases)
  case (validated form claims ty c)
  have p: "presented C r = Some claims" "jwt_accepts (cy_jwt C)
      \<lparr>po_methods = allowedAlgs, po_issuer = em_IdpIssuer (ema_cfg m), po_audience = ema_issuer m, po_leeway = 30 * second\<rparr> (mo_check mo) claims"
    using parse_claims [OF assms(1) validated(2)] validated(1) by (auto simp: presented_def)
  then show ?thesis using redeem_success [OF validated(3)]
    by (auto simp: jwt_accepts_def split: option.splits)
qed auto

text \<open>
  C0. An assertion presented before its expiry is redeemed at most once until then: after a token was minted for it, and
  up to as many further exchanges as the recorder remembers, of whatever assertions, every request whose assertion has the same identifier
  is refused while the first has not expired.
\<close>

theorem assertion_redeemed_once:
  assumes sound: "jwt_sound (cy_jwt C)" and home: "one_home (ema_replay m)"
    and first: "ServeToken C mo now issued r m = (AccessToken tok n, x, m1)" "presented C r = Some claims" "jw_expiry (cy_jwt C) claims = Some e"
    and time: "0 < now" "now < e" "e - now \<le> max_int64"
    and between: "\<forall>(_, u, _) \<in> set calls. u < e" "int (length calls) \<le> max_entries (ema_replay m)"
    and again: "presented C r' = Some claims'" "string_member claims' ''jti'' = string_member claims ''jti''" "t < e"
  shows "fst (ServeToken C mo' t issued' r' (ema_after C calls m1)) \<noteq> AccessToken tok' n'"
proof
  let ?k = "jti_key (cy_sha256 C) (string_member claims ''jti'')" and ?ttl = "max (time_sub e now) second"
  have ttl: "0 < ?ttl" "e \<le> now + ?ttl" using time by (simp_all add: time_sub_exact min_int64_def)
  have once: "fst (TryOnce (ema_replay m) ?k ?ttl now)" "ema_replay m1 = snd (TryOnce (ema_replay m) ?k ?ttl now)"
    using ServeToken_success [OF sound first(1)] first(2,3) by auto
  obtain us where us: "ema_replay (ema_after C calls m1) = once_all (ema_replay m1) us" "length us \<le> length calls"
      "\<forall>(_, _, u) \<in> set us. u \<in> (\<lambda>(_, now, _). now) ` set calls"
    using ema_after_record [of C calls m1] by blast
  have early: "\<forall>(k', _, u) \<in> set us. k' = ?k \<longrightarrow> u < now + ?ttl"
    using us(3) between(1) ttl(2) by fastforce
  assume "fst (ServeToken C mo' t issued' r' (ema_after C calls m1)) = AccessToken tok' n'"
  then obtain x2 m2 where "ServeToken C mo' t issued' r' (ema_after C calls m1) = (AccessToken tok' n', x2, m2)" by (metis prod_cases3 fst_conv)
  from ServeToken_success [OF sound this] again(1,2) obtain ttl' where
    "fst (TryOnce (ema_replay (ema_after C calls m1)) ?k ttl' t)" by (metis fst_conv option.inject)
  moreover have "\<not> fst (TryOnce (once_all (snd (TryOnce (ema_replay m) ?k ?ttl now)) us) ?k ttl' t)"
    by (rule once_remembers [OF home time(1) ttl(1) _ once(1) early]) (use again(3) ttl(2) us(2) between(2) in linarith)+
  ultimately show False using us(1) once(2) by simp
qed

text \<open>A record is gone when its lifetime is over.\<close>

lemma once_forgets:
  assumes "one_home o'" "0 < now" "0 < ttl" "now + ttl \<le> t" "TryOnce o' k ttl now = (True, once)"
  shows "fst (TryOnce once k ttl' t)"
proof -
  have "map_view o' now k = None" using TryOnce_fresh [OF assms(1), of k ttl now] assms(5) by simp
  then obtain m' where "LoadOrStore o' k () ttl now = (((), False), storeLocked m' k () ttl now)"
    using LoadOrStore_miss [OF assms(1)] by blast
  then have once: "once = storeLocked m' k () ttl now" using assms(5) by (simp add: TryOnce_def)
  have "map_view once t k = None" using assms(2-4) by (simp add: once map_view_store_key)
  moreover have "one_home once" using one_home_once [OF assms(1), of k ttl now] assms(5) by simp
  ultimately show ?thesis using TryOnce_fresh by blast
qed

lemma redeem_again:
  assumes "redeem C now issued typ claims m = (AccessToken tok n, x, m1)" "ema_cfg m2 = ema_cfg m"
    and "fst (TryOnce (ema_replay m2) (jti_key (cy_sha256 C) (string_member claims ''jti'')) (max (time_sub e t) second) t)"
    and "jw_expiry (cy_jwt C) claims = Some e" "\<And>c. cy_sign C c \<noteq> None"
  shows "\<exists>tok' n'. fst (redeem C t issued' typ claims m2) = AccessToken tok' n'"
proof -
  obtain b once where t: "TryOnce (ema_replay m) (jti_key (cy_sha256 C) (string_member claims ''jti'')) (max (time_sub e now) second) now = (b, once)"
    by fastforce
  obtain once2 where t2: "TryOnce (ema_replay m2) (jti_key (cy_sha256 C) (string_member claims ''jti'')) (max (time_sub e t) second) t = (True, once2)"
    using assms(3) by (metis prod.collapse)
  obtain tok' where "cy_sign C (minted_claims (ema_issuer m2) (ema_ttl m2) issued' (jw_subject (cy_jwt C) claims) claims) = Some tok'"
    using assms(5) by blast
  then show ?thesis
    using assms(1) by (cases b) (auto simp: redeem_def Let_def t t2 assms(2,4) split: if_splits option.splits)
qed

text \<open>
  C0. And it is redeemed again within the leeway. The parser accepts an assertion for thirty seconds after its expiry, but its identifier is recorded until the
  expiry only: an assertion that was redeemed at least a second before it expired is redeemed once more by the same request at any time
  from its expiry on at which the parser still accepts it.
\<close>

theorem assertion_redeemed_after_expiry:
  assumes sound: "jwt_sound (cy_jwt C)" and home: "one_home (ema_replay m)"
    and first: "ServeToken C mo now issued r m = (AccessToken tok n, x, m1)"
    and form: "tr_form r = Some form" "jw_unverified (cy_jwt C) (form ''assertion'') = Some (h, claims)" "jw_expiry (cy_jwt C) claims = Some e"
    and time: "0 < now" "now + second \<le> e" "e \<le> t" "mo_check mo' < e + 30 * second"
    and key: "fst (assertion_key (cy_fold C) (jwks_uri (em_IdpJWKSURI (ema_cfg m)) (em_IdpIssuer (ema_cfg m))) mo' h ('''', ema_jwks m1)) = Some k"
      "jw_signed (cy_jwt C) (form ''assertion'') k"
    and sign: "\<And>c. cy_sign C c \<noteq> None"
  shows "\<exists>tok' n'. fst (ServeToken C mo' t issued' r m1) = AccessToken tok' n'"
  using first
proof (cases rule: ServeToken_cases)
  case (validated form' claims' ty c)
  have f: "form' = form" using validated(1) form(1) by simp
  let ?po = "\<lparr>po_methods = allowedAlgs, po_issuer = em_IdpIssuer (ema_cfg m), po_audience = ema_issuer m, po_leeway = 30 * second\<rparr>"
  let ?kf = "assertion_key (cy_fold C) (jwks_uri (em_IdpJWKSURI (ema_cfg m)) (em_IdpIssuer (ema_cfg m)))"
  obtain k1 where p: "claims' = claims" "?kf mo h ('''', ema_jwks m) = (Some k1, ty, c)" "jwt_accepts (cy_jwt C) ?po (mo_check mo) claims"
    using parse_claims [OF sound validated(2)] form(2) by (auto simp: f)
  have alg: "jw_alg (cy_jwt C) h \<in> set allowedAlgs"
    using validated(2) sound form(2) by (auto simp: f jwt_sound_def jwt_reference_def split: if_splits)
  obtain c2 where k2: "?kf mo' h ('''', ema_jwks m1) = (Some k, ty, c2)"
    using key(1) p(2) by (auto simp: assertion_key_def Let_def split: option.splits json.splits if_splits prod.splits sum.splits)
  have acc: "jwt_accepts (cy_jwt C) ?po (mo_check mo') claims" using p(3) time(4) form(3) by (simp add: jwt_accepts_def)
  have parse: "jw_parse (cy_jwt C) ?po (mo_check mo') (form ''assertion'') (?kf mo') ('''', ema_jwks m1) = (Some claims, ty, c2)"
    using sound alg k2 acc key(2) form(2) by (simp add: jwt_sound_def jwt_reference_def)
  note rec = redeem_record [OF validated(3)]
  note s = redeem_success [OF validated(3)]
  let ?m2 = "m1\<lparr>ema_jwks := c2\<rparr>"
  have m1: "ema_cfg m1 = ema_cfg m" "ema_issuer m1 = ema_issuer m" using rec by simp_all
  have span: "now + max (time_sub e now) second \<le> t" using time(2,3) by (simp add: time_sub_def min_int64_def)
  have fresh: "fst (TryOnce (ema_replay ?m2) (jti_key (cy_sha256 C) (string_member claims ''jti'')) (max (time_sub e t) second) t)"
    using once_forgets [OF home time(1) _ span] s form(3) p(1) by simp
  have again: "\<exists>tok' n'. fst (redeem C t issued' ty claims ?m2) = AccessToken tok' n'"
    by (rule redeem_again [OF validated(3)[unfolded p(1)] _ fresh form(3) sign]) (simp add: m1)
  have entry: "tr_post r" "form ''grant_type'' = idJAGGrant" "form ''assertion'' \<noteq> ''''"
    using first form(1) by (auto simp: ServeToken_def Let_def split: if_splits)
  show ?thesis using again entry parse form(1) by (simp add: ServeToken_def Let_def m1)
qed auto

subsection \<open>An exchange\<close>

definition jag_claims :: json_map where
  "jag_claims = fmap_of_list [(''sub'', JStr ''ann''), (''jti'', JStr ''1'')]"

definition jag_base :: "(string \<times> jwksCache) jwt" where
  "jag_base = one_token_base\<lparr>jw_unverified := (\<lambda>raw. if raw = ''jag'' then Some (fmupd ''kid'' (JStr ''k'') fmempty, jag_claims) else None),
     jw_expiry := (\<lambda>_. Some (10 * second))\<rparr>"

definition jag_crypto :: crypto where
  "jag_crypto = \<lparr>cy_jwt = jag_base\<lparr>jw_parse := jwt_reference jag_base\<rparr>, cy_sign = (\<lambda>_. Some ''signed''), cy_sha256 = (\<lambda>s. s), cy_fold = (=)\<rparr>"

lemma jag_sound: "jwt_sound (cy_jwt jag_crypto)"
  by (auto simp: jwt_sound_def jag_crypto_def jwt_reference_def jwt_accepts_def split: option.split prod.split)

definition jag_ema :: EMA where
  "jag_ema = NewEMA one_issuer \<lparr>em_IdpIssuer = ''idp'', em_IdpJWKSURI = ''u'', em_SigningKeyRef = ''K'', em_TokenTTLSec = 60,
     em_TokenRateLimitPerMinute = 0, em_AllowedAssertionTypes = [], em_AllowedClientIDs = []\<rparr>"

definition jag_form :: "string \<Rightarrow> string" where
  "jag_form f = (if f = ''grant_type'' then idJAGGrant else if f = ''assertion'' then ''jag'' else '''')"

definition jag_request :: tokenRequest where
  "jag_request = \<lparr>tr_post = True, tr_form = Some jag_form\<rparr>"

definition jag_cache :: jwksCache where
  "jag_cache = fmupd ''u'' \<lparr>je_keys = [(''k'', OKPKey [char_of (0::nat)])], je_fetched = 1, je_refreshAt = 1 + jwksTTL,
     je_noFetchBefore = 1 + refetchHoldoff\<rparr> fmempty"

lemma jag_key:
  "assertion_key (=) ''u'' first_moment (fmupd ''kid'' (JStr ''k'') fmempty) ('''', fmempty) = (Some (OKPKey [char_of (0::nat)]), '''', jag_cache)"
  by (simp add: assertion_key_def key_eq key_gated_def freshKey_def first_moment_def one_key_fetched string_member_def lookup_key_def
      jag_cache_def Let_def)

lemma jag_key_again:
  "0 < now \<Longrightarrow> now < jwksTTL \<Longrightarrow>
   assertion_key (=) ''u'' (first_moment\<lparr>mo_now := now, mo_check := t\<rparr>) (fmupd ''kid'' (JStr ''k'') fmempty) ('''', jag_cache)
     = (Some (OKPKey [char_of (0::nat)]), '''', jag_cache)"
  by (simp add: assertion_key_def key_eq key_gated_def freshKey_def string_member_def lookup_key_def jag_cache_def Let_def)

lemma jag_minted:
  "\<exists>x m1. ServeToken jag_crypto first_moment second second jag_request jag_ema = (AccessToken ''signed'' 60, x, m1) \<and> ema_jwks m1 = jag_cache"
proof -
  obtain b once where t: "TryOnce NewMemOnce (jti_key (\<lambda>s. s) ''1'') (9 * second) second = (b, once)" by fastforce
  have b: "b" using TryOnce_fresh [OF NewMemOnce_fresh(1), of "jti_key (\<lambda>s. s) ''1''" "9 * second" second] NewMemOnce_fresh(2) t by simp
  have "jw_parse (cy_jwt jag_crypto) \<lparr>po_methods = allowedAlgs, po_issuer = ''idp'', po_audience = ''fold'', po_leeway = 30 * second\<rparr> 1 ''jag''
      (assertion_key (=) ''u'' first_moment) ('''', fmempty) = (Some jag_claims, '''', jag_cache)"
    by (simp add: jag_crypto_def jag_base_def one_token_base_def jwt_reference_def jwt_accepts_def allowedAlgs_def jag_key)
  then show ?thesis using t b
    by (simp add: ServeToken_def redeem_def jag_request_def jag_form_def jag_ema_def NewEMA_def one_issuer_def first_moment_def jwks_uri_def
        jag_crypto_def jag_base_def one_token_base_def jag_claims_def string_member_def time_sub_def min_int64_def max_int64_def
        ResolvedTokenTTLSec_def whole_seconds_def wrap64_def Let_def)
qed

lemma jag_presented: "presented jag_crypto jag_request = Some jag_claims" "jw_expiry (cy_jwt jag_crypto) jag_claims = Some (10 * second)"
  by (simp_all add: presented_def jag_crypto_def jag_request_def jag_form_def jag_base_def)

lemma jag_home: "one_home (ema_replay jag_ema)"
  using NewMemOnce_fresh(1) by (simp add: jag_ema_def NewEMA_def)

theorem assertion_redeemed_once_witness:
  "\<exists>tok n x m1. ServeToken jag_crypto first_moment second second jag_request jag_ema = (AccessToken tok n, x, m1) \<and>
     fst (ServeToken jag_crypto first_moment (2 * second) (2 * second) jag_request m1) \<noteq> AccessToken tok n"
proof -
  obtain x m1 where f: "ServeToken jag_crypto first_moment second second jag_request jag_ema = (AccessToken ''signed'' 60, x, m1)"
    using jag_minted by blast
  have "fst (ServeToken jag_crypto first_moment (2 * second) (2 * second) jag_request (ema_after jag_crypto [] m1)) \<noteq> AccessToken ''signed'' 60"
    by (rule assertion_redeemed_once [OF jag_sound jag_home f jag_presented])
      (simp_all add: jag_presented max_int64_def jag_ema_def NewEMA_def NewMemOnce_def New_map_def maxOnceRecords_def)
  with f show ?thesis by auto
qed

theorem assertion_redeemed_after_expiry_witness:
  "\<exists>x m1 tok n. ServeToken jag_crypto first_moment second second jag_request jag_ema = (AccessToken ''signed'' 60, x, m1) \<and>
     fst (ServeToken jag_crypto (first_moment\<lparr>mo_now := 12 * second, mo_check := 12 * second\<rparr>) (12 * second) (12 * second) jag_request m1) = AccessToken tok n"
proof -
  obtain x m1 where f: "ServeToken jag_crypto first_moment second second jag_request jag_ema = (AccessToken ''signed'' 60, x, m1)" "ema_jwks m1 = jag_cache"
    using jag_minted by blast
  have "\<exists>tok n. fst (ServeToken jag_crypto (first_moment\<lparr>mo_now := 12 * second, mo_check := 12 * second\<rparr>) (12 * second) (12 * second) jag_request m1)
      = AccessToken tok n"
    by (rule assertion_redeemed_after_expiry [OF jag_sound jag_home f(1), where form = jag_form and h = "fmupd ''kid'' (JStr ''k'') fmempty"
          and claims = jag_claims and e = "10 * second" and k = "OKPKey [char_of (0::nat)]"])
      (simp_all add: jag_request_def jag_form_def jag_presented f(2) jag_key_again jwksTTL_def jag_crypto_def jag_base_def one_token_base_def
        jag_ema_def NewEMA_def one_issuer_def jwks_uri_def)
  with f(1) show ?thesis by blast
qed

end
