(* ===== verification/Spec2Isabelle.thy ===== *)
theory Spec2Isabelle
  imports Breaker Bounded_Map Policy_Engine Budget Rate_Limit Wire_Errors Tenancy Endpoint_Pool
    List_Cache Shared_State Upstream_Guard Decision_Hook Fan_Out Json_Text List_Shaping Pagination
    Public_View Request_Meta Task_Routing Task_Ownership Ui_Resource Config_Document Config_Validation
    Live_Config Router Router_Safety Upstream_Sessions Subscriptions Audit_Trail Auth_Keys Auth_Verifier Token_Exchange
begin

text \<open>
  A model of fold, a gateway that presents several Model Context Protocol servers (the
  \<^emph>\<open>upstreams\<close>) to a client as one, and of the guarantees its request path gives.

  \<^bold>\<open>The program.\<close> A request enters at \<^verbatim>\<open>federationMiddleware\<close> (src/gateway/router.go) with the principal
  the token verifier put there. The caller is resolved to a tenant, the policy engine decides on
  the invocation, the decision hook may refuse it, the guard of the addressed upstream (rate limit,
  circuit breaker, budgets) admits it, and the answer goes back with the metadata of the connection
  removed. Lists are fetched from all upstreams through a cache, renamed into the upstream's
  namespace, filtered for the caller and cut into pages. Tasks are bound to the principal they were
  minted for through the shared state.

  \<^bold>\<open>The theories\<close>, in the order they build on each other.

  \<^item> \<open>Fold_Prelude\<close>: the vocabulary. Times and durations are integers of nanoseconds (the zero
    \<^verbatim>\<open>time.Time\<close> is 0), 64-bit arithmetic is \<open>wrap64\<close>, Go strings are byte strings; the functions of
    package strings the code uses, with the lemmas on cutting and joining.
  \<^item> \<open>Breaker\<close> (src/internal/breaker): \<open>Breaker\<close> with \<open>Allow_breaker\<close>, \<open>Record_breaker\<close>,
    \<open>State_breaker\<close>; reachable states, the single probe of a half-open circuit.
  \<^item> \<open>Bounded_Map\<close> (src/internal/bounded): the two-generation map. The locale \<open>ttl_map\<close> states
    what a client may rely on and is interpreted on the model; a log of operations is its
    specification. The documented size bound does not hold.
  \<^item> \<open>Policy_Engine\<close> (src/policy, with the policy sections of src/config and the principal of
    src/auth): compilation of a document, the pattern matcher, subjects, argument and
    annotation constraints, and all entry points; the engine decides what the document says.
  \<^item> \<open>Calendar\<close>, \<open>Budget\<close> (src/internal/state/budget.go): civil dates of package time, the
    window keys, the counters at 64 bit; refinement of a ledger.
  \<^item> \<open>Float64\<close>, \<open>Rate_Limit\<close> (src/internal/ratelimit): rounding to nearest even on the rationals, stated as
    a locale of the laws the limiter needs; the two-bucket limiter and its bounds.
  \<^item> \<open>Wire_Errors\<close>: the errors of the request path as a datatype, their codes, and \<open>classify\<close>.
  \<^item> \<open>Tenancy\<close> (src/gateway/tenant.go): building of the snapshot and its claim index, resolution,
    carry-over of counters across a reload, visibility of upstreams.
  \<^item> \<open>Endpoint_Pool\<close> (src/gateway/endpoints.go): rotation and ejection.
  \<^item> \<open>List_Cache\<close> (src/internal/cache): \<^verbatim>\<open>GetOrFill\<close> cut at its critical sections, as a step
    relation over any number of callers.
  \<^item> \<open>Shared_State\<close> (src/internal/state/state.go): the in-process key-value store and the one-time
    recorder on top of the bounded map; locale \<open>kv_store\<close>.
  \<^item> \<open>Upstream_Guard\<close> (src/gateway/upstream.go, \<^verbatim>\<open>guardedDo\<close>, \<^verbatim>\<open>chargeBudgets\<close>): the composition of
    limiter, breaker and budgets around one upstream request.
  \<^item> \<open>Pagination\<close> (src/gateway/paginate.go), \<open>Json_Text\<close> (the part of encoding/json the byte-level
    code depends on: string escapes, duplicate members, re-marshalling), \<open>Request_Meta\<close>
    (src/gateway/meta.go).
  \<^item> \<open>Ui_Resource\<close> (src/gateway/uiresource.go, cachehint.go): public names and \<^verbatim>\<open>ui://\<close> addresses.
    \<open>Public_View\<close> (icon.go, uicapability.go and the memoized views of upstream.go): locale
    \<open>memo_rewrite\<close> for the memo, interpreted for tools, prompts and resources.
    \<open>List_Shaping\<close> (shaping.go).
  \<^item> \<open>Decision_Hook\<close> (src/gateway/hook.go, with the event of src/audit/audit.go).
  \<^item> \<open>Fan_Out\<close> (router.go, \<^verbatim>\<open>fanOut\<close>), \<open>Task_Routing\<close> and \<open>Task_Ownership\<close> (src/gateway/tasks.go): the task
    methods on the records in the shared state, and whose task is reachable by whom.

  \<^bold>\<open>Conventions.\<close> Every operation takes the clock reading it makes as an argument. What an upstream,
  the hook endpoint or the network answers is an argument as well, so the theorems hold for every
  behaviour of them. Code outside the repository is a parameter: SHA-256 and the JSON codec of the
  cursor in \<open>Pagination\<close>, with injectivity and the round trip as hypotheses where a theorem needs
  them. Pointers that the code compares or shares (budget counters, cached slices) are addresses
  into a heap. No function of the model needs fuel; all recursion is over data.

  \<^bold>\<open>Not modelled.\<close> Transports and sessions of the SDK, the HTTP servers and the wiring in
  gateway.go, the token verifiers and key sets of src/auth, the sinks of src/audit, the Redis state
  provider, stdio bridging, service discovery and the command line tools: they are I/O around
  calls into third-party libraries. Metrics, tracing and log lines are left out of the modelled
  operations, since nothing the operations decide depends on them.
\<close>

end
